(* ===== verification/Prelude.thy ===== *)
theory Prelude
  imports Main "HOL-Library.Word" "HOL-Library.List_Lexorder" "HOL-Library.Sublist" "HOL-Library.AList"
begin

text \<open>
  The vocabulary every component shares: JavaScript strings as lists of UTF-16 code units,
  JavaScript objects as lists of own properties in enumeration order, results that are either a
  thrown value or a returned one, and decimal printing. The lemma collections declared here are
  filled by the components.
\<close>

section \<open>Lemma collections\<close>

named_theorems result_simps \<open>evaluation of the error monad\<close>
named_theorems result_iffs \<open>when a branching computation returns\<close>
named_theorems text_eval \<open>evaluation of string literals and string operations\<close>
named_theorems name_rules \<open>facts about well-formed ids and names\<close>
named_theorems chain_rules \<open>facts about the audit hash chain\<close>
named_theorems client_rules \<open>invariant preservation of the upstream connection\<close>

section \<open>Results: a thrown value or a returned one\<close>

definition bind_r :: "'e + 'a \<Rightarrow> ('a \<Rightarrow> 'e + 'b) \<Rightarrow> 'e + 'b" where
  "bind_r m f = (case m of Inl e \<Rightarrow> Inl e | Inr x \<Rightarrow> f x)"

lemma bind_r_simps [simp, result_simps]:
  "bind_r (Inl e) f = Inl e"
  "bind_r (Inr x) f = f x"
  by (simp_all add: bind_r_def)

lemma bind_r_Inr_iff: "bind_r m f = Inr y \<longleftrightarrow> (\<exists>x. m = Inr x \<and> f x = Inr y)"
  by (cases m) auto

lemma bind_r_Inl_iff: "bind_r m f = Inl e \<longleftrightarrow> m = Inl e \<or> (\<exists>x. m = Inr x \<and> f x = Inl e)"
  by (cases m) auto

text \<open>How a branching computation returned: the branches it took, as a disjunction.\<close>

lemma returns_iffs [result_iffs]:
  "bind_r m f = Inr y \<longleftrightarrow> (\<exists>x. m = Inr x \<and> f x = Inr y)"
  "(case r of Inl e \<Rightarrow> h e | Inr v \<Rightarrow> g v) = Inr y \<longleftrightarrow>
     (\<exists>e. r = Inl e \<and> h e = Inr y) \<or> (\<exists>v. r = Inr v \<and> g v = Inr y)"
  "(case a of None \<Rightarrow> n | Some v \<Rightarrow> s v) = Inr y \<longleftrightarrow>
     (a = None \<and> n = Inr y) \<or> (\<exists>v. a = Some v \<and> s v = Inr y)"
  "(if b then t else u) = Inr y \<longleftrightarrow> (b \<and> t = Inr y) \<or> (\<not> b \<and> u = Inr y)"
  by (auto simp: bind_r_Inr_iff split: sum.splits option.splits)

lemma bind_r_cong [fundef_cong]:
  "m = m' \<Longrightarrow> (\<And>x. m' = Inr x \<Longrightarrow> f x = g x) \<Longrightarrow> bind_r m f = bind_r m' g"
  by (cases m') auto

definition guard_r :: "bool \<Rightarrow> 'e \<Rightarrow> 'e + unit" where
  "guard_r b e = (if b then Inr () else Inl e)"

lemma guard_r_simps [simp]:
  "guard_r True e = Inr ()"
  "guard_r False e = Inl e"
  "guard_r b e = Inr u \<longleftrightarrow> b"
  "guard_r b e = Inl e' \<longleftrightarrow> \<not> b \<and> e' = e"
  by (auto simp: guard_r_def)

text \<open>A loop that applies a fallible step to each element and stops at the first error.\<close>

fun map_r :: "('a \<Rightarrow> 'e + 'b) \<Rightarrow> 'a list \<Rightarrow> 'e + 'b list" where
  "map_r f [] = Inr []"
| "map_r f (x # xs) = bind_r (f x) (\<lambda>y. bind_r (map_r f xs) (\<lambda>ys. Inr (y # ys)))"

lemma map_r_cong [fundef_cong]:
  "xs = ys \<Longrightarrow> (\<And>x. x \<in> set ys \<Longrightarrow> f x = g x) \<Longrightarrow> map_r f xs = map_r g ys"
  by (induction ys arbitrary: xs) auto

lemma map_r_Inr_iff: "map_r f xs = Inr ys \<longleftrightarrow> list_all2 (\<lambda>x y. f x = Inr y) xs ys"
  by (induction xs arbitrary: ys) (auto simp: bind_r_Inr_iff list_all2_Cons1)

lemma map_r_total: "(\<And>x. x \<in> set xs \<Longrightarrow> \<exists>y. f x = Inr y) \<Longrightarrow> \<exists>ys. map_r f xs = Inr ys"
proof (induction xs)
  case (Cons x xs)
  from Cons.prems obtain y where y: "f x = Inr y" by auto
  moreover from Cons obtain ys where "map_r f xs = Inr ys" by auto
  ultimately show ?case by simp
qed simp

section \<open>JavaScript strings\<close>

text \<open>
  A JavaScript string is a sequence of 16-bit code units; \<open>length\<close>, \<open>take\<close> and
  \<open>drop\<close> are \<open>s.length\<close> and \<open>s.slice\<close>, and \<open>@\<close> is concatenation. \<open>js\<close> writes an
  ASCII literal.
\<close>

type_synonym code_unit = "16 word"
type_synonym jstring = "code_unit list"
type_synonym byte = "8 word"

definition js :: "string \<Rightarrow> jstring" where
  "js s = map of_char s"

lemma js_simps [simp, text_eval]:
  "js [] = []"
  "js (c # cs) = of_char c # js cs"
  by (simp_all add: js_def)

declare js_simps(2) [simp del]

lemma of_char_inject: "(of_char c :: code_unit) = of_char d \<longleftrightarrow> c = d"
proof -
  have "unat (of_char c :: code_unit) = of_char c" for c :: char
  proof -
    have "(of_char c :: nat) < 256" by simp
    then have "(of_char c :: nat) mod 65536 = of_char c" by (intro mod_less) linarith
    then have "unat (of_nat (of_char c) :: code_unit) = of_char c" by (simp only: unat_of_nat) simp
    then show ?thesis by (simp only: of_nat_of_char)
  qed
  then show ?thesis by (metis of_char_eq_iff)
qed

lemma js_inject [simp]: "js s = js t \<longleftrightarrow> s = t"
  by (simp add: js_def of_char_inject inj_def)

lemma js_append: "js (a @ b) = js a @ js b"
  by (simp add: js_def)

lemma length_js [simp]: "length (js s) = length s"
  by (simp add: js_def)

lemma js_eq_Nil [simp]: "js s = [] \<longleftrightarrow> s = []" "[] = js s \<longleftrightarrow> s = []"
  by (simp_all add: js_def)

definition starts_with :: "jstring \<Rightarrow> jstring \<Rightarrow> bool" where
  "starts_with s p = (take (length p) s = p)"

lemma starts_with_iff: "starts_with s p \<longleftrightarrow> (\<exists>r. s = p @ r)"
  unfolding starts_with_def by (metis append_eq_conv_conj append_take_drop_id)

lemma starts_with_append [simp]: "starts_with (p @ r) p"
  by (simp add: starts_with_def)

lemma starts_with_drop: "starts_with s p \<Longrightarrow> s = p @ drop (length p) s"
  unfolding starts_with_def by (metis append_take_drop_id)

definition ends_with :: "jstring \<Rightarrow> jstring \<Rightarrow> bool" where
  "ends_with s p = (length p \<le> length s \<and> drop (length s - length p) s = p)"

lemma ends_with_append [simp]: "ends_with (r @ p) p"
  by (simp add: ends_with_def)

text \<open>\<open>s.indexOf(p)\<close>, with \<open>None\<close> for \<open>-1\<close>.\<close>

fun index_of :: "jstring \<Rightarrow> jstring \<Rightarrow> nat option" where
  "index_of p [] = (if p = [] then Some 0 else None)"
| "index_of p (c # cs) =
     (if starts_with (c # cs) p then Some 0 else map_option Suc (index_of p cs))"

definition str_includes :: "jstring \<Rightarrow> jstring \<Rightarrow> bool" where
  "str_includes s p = (index_of p s \<noteq> None)"

lemma index_of_SomeD:
  "index_of p s = Some i \<Longrightarrow> s = take i s @ p @ drop (i + length p) s \<and> i + length p \<le> length s"
proof (induction p s arbitrary: i rule: index_of.induct)
  case (2 p c cs)
  show ?case
  proof (cases "starts_with (c # cs) p")
    case True
    with 2 have "i = 0" by simp
    with True show ?thesis
      by (metis add_0 append_Nil append_take_drop_id linorder_le_cases starts_with_def take0
          take_all_iff)
  next
    case False
    with 2 obtain j where j: "index_of p cs = Some j" "i = Suc j" by auto
    with 2(1)[OF False j(1)] show ?thesis by simp
  qed
qed (auto split: if_splits)

lemma index_of_single_append:
  "c \<notin> set a \<Longrightarrow> index_of [c] (a @ c # r) = Some (length a)"
  by (induction a) (auto simp: starts_with_def)

lemma index_of_single_None: "index_of [c] s = None \<longleftrightarrow> c \<notin> set s"
  by (induction s) (auto simp: starts_with_def)

lemma index_of_single_take: "index_of [c] s = Some i \<Longrightarrow> c \<notin> set (take i s)"
  by (induction s arbitrary: i) (auto simp: starts_with_def split: if_splits)

text \<open>\<open>s.split(c)\<close> for a one-character separator, and \<open>parts.join(c)\<close>.\<close>

fun split_on :: "code_unit \<Rightarrow> jstring \<Rightarrow> jstring list" where
  "split_on c [] = [[]]"
| "split_on c (x # xs) =
     (if x = c then [] # split_on c xs
      else (case split_on c xs of [] \<Rightarrow> [[x]] | p # ps \<Rightarrow> (x # p) # ps))"

fun join_with :: "jstring \<Rightarrow> jstring list \<Rightarrow> jstring" where
  "join_with sep [] = []"
| "join_with sep [p] = p"
| "join_with sep (p # q # ps) = p @ sep @ join_with sep (q # ps)"

lemma split_on_not_Nil [simp]: "split_on c s \<noteq> []"
  by (induction s) (auto split: list.splits)

lemma split_on_append:
  "c \<notin> set a \<Longrightarrow> split_on c (a @ c # r) = a # split_on c r"
  by (induction a) auto

lemma split_on_single: "c \<notin> set a \<Longrightarrow> split_on c a = [a]"
  by (induction a) auto

lemma split_on_join: "join_with [c] (split_on c s) = s"
proof (induction s)
  case (Cons x s)
  obtain p ps where "split_on c s = p # ps" by (cases "split_on c s") auto
  with Cons show ?case by (cases ps) auto
qed simp

lemma split_on_parts: "p \<in> set (split_on c s) \<Longrightarrow> c \<notin> set p"
proof (induction s arbitrary: p)
  case (Cons x s)
  obtain q qs where "split_on c s = q # qs" by (cases "split_on c s") auto
  with Cons show ?case by (auto split: if_splits)
qed simp

section \<open>Character classes and decimal printing\<close>

definition is_digit :: "code_unit \<Rightarrow> bool" where
  "is_digit c = (48 \<le> c \<and> c \<le> 57)"

definition is_lower :: "code_unit \<Rightarrow> bool" where
  "is_lower c = (97 \<le> c \<and> c \<le> 122)"

definition is_upper :: "code_unit \<Rightarrow> bool" where
  "is_upper c = (65 \<le> c \<and> c \<le> 90)"

lemmas char_class_defs = is_digit_def is_lower_def is_upper_def

definition digit_char :: "nat \<Rightarrow> code_unit" where
  "digit_char d = of_nat (48 + d)"

definition digit_val :: "code_unit \<Rightarrow> nat" where
  "digit_val c = unat c - 48"

lemma unat_digit_char: "d < 10 \<Longrightarrow> unat (digit_char d) = 48 + d"
  by (simp add: digit_char_def unat_of_nat del: of_nat_add)

lemma digit_val_char [simp]: "d < 10 \<Longrightarrow> digit_val (digit_char d) = d"
  by (simp add: digit_val_def unat_digit_char)

lemma is_digit_char [simp]: "d < 10 \<Longrightarrow> is_digit (digit_char d)"
  by (simp add: is_digit_def word_le_nat_alt unat_digit_char)

text \<open>\<open>String(n)\<close> of a non-negative integer.\<close>

fun dec :: "nat \<Rightarrow> jstring" where
  "dec n = (if n < 10 then [digit_char n] else dec (n div 10) @ [digit_char (n mod 10)])"

declare dec.simps [simp del]

definition dec_int :: "int \<Rightarrow> jstring" where
  "dec_int i = (if i < 0 then 45 # dec (nat (- i)) else dec (nat i))"

definition undec :: "jstring \<Rightarrow> nat" where
  "undec s = foldl (\<lambda>n c. 10 * n + digit_val c) 0 s"

lemma undec_snoc [simp]: "undec (s @ [c]) = 10 * undec s + digit_val c"
  by (simp add: undec_def)

lemma undec_dec [simp]: "undec (dec n) = n"
proof (induction n rule: dec.induct)
  case (1 n)
  show ?case
  proof (cases "n < 10")
    case True
    then show ?thesis by (subst dec.simps) (simp add: undec_def)
  next
    case False
    with 1 show ?thesis by (subst dec.simps) simp
  qed
qed

lemma dec_inject [simp]: "dec m = dec n \<longleftrightarrow> m = n"
  by (metis undec_dec)

lemma dec_not_Nil [simp]: "dec n \<noteq> []"
  by (subst dec.simps) simp

lemma dec_digits: "c \<in> set (dec n) \<Longrightarrow> is_digit c"
proof (induction n rule: dec.induct)
  case (1 n)
  then show ?case
    by (cases "n < 10") (auto simp: dec.simps [of n])
qed

section \<open>JavaScript objects as ordered property lists\<close>

text \<open>
  The own enumerable string-keyed properties of an object, in enumeration order. Reading is
  \<open>map_of\<close>; writing an existing key keeps its place, a new key goes last.
\<close>

type_synonym 'v props = "(jstring \<times> 'v) list"

abbreviation get_prop :: "'v props \<Rightarrow> jstring \<Rightarrow> 'v option" where
  "get_prop ob k \<equiv> map_of ob k"

abbreviation put_prop :: "jstring \<Rightarrow> 'v \<Rightarrow> 'v props \<Rightarrow> 'v props" where
  "put_prop k v ob \<equiv> AList.update k v ob"

abbreviation del_prop :: "jstring \<Rightarrow> 'v props \<Rightarrow> 'v props" where
  "del_prop k ob \<equiv> AList.delete k ob"

definition wf_props :: "'v props \<Rightarrow> bool" where
  "wf_props ob = distinct (map fst ob)"

lemma get_put_same [simp]: "get_prop (put_prop k v ob) k = Some v"
  by (simp add: update_conv')

lemma get_put_other [simp]: "k \<noteq> k' \<Longrightarrow> get_prop (put_prop k v ob) k' = get_prop ob k'"
  by (simp add: update_conv')

lemma get_del [simp]: "get_prop (del_prop k ob) k' = (if k = k' then None else get_prop ob k')"
  by (simp add: delete_conv')

lemma wf_put [simp]: "wf_props ob \<Longrightarrow> wf_props (put_prop k v ob)"
  by (simp add: wf_props_def distinct_update)

lemma wf_del [simp]: "wf_props ob \<Longrightarrow> wf_props (del_prop k ob)"
  by (simp add: wf_props_def distinct_delete)

section \<open>Generic list lemmas\<close>

lemma find_Some_iff_first:
  "find P xs = Some x \<Longrightarrow> P x \<and> x \<in> set xs"
  by (induction xs) (auto split: if_splits)

lemma take_append_prefix: "n \<le> length a \<Longrightarrow> take n (a @ b) = take n a"
  by simp

lemma filter_set_eq: "set (filter P xs) = {x \<in> set xs. P x}"
  by auto

end
