(* ===== verification/Encoding.thy ===== *)
theory Encoding
  imports Prelude
begin

text \<open>
  The string encodings of the JavaScript and Node standard libraries the gateway relies on:
  code points of a UTF-16 string, UTF-8 (\<open>Buffer.from(s, 'utf8')\<close>, \<open>TextDecoder\<close>),
  percent-encoding (\<open>encodeURIComponent\<close>, \<open>decodeURIComponent\<close>), base64 and hex. Each is
  executable, and each encoder is shown to be inverted by its decoder on the strings it accepts.
\<close>

section \<open>Code points of a UTF-16 string\<close>

definition is_high :: "code_unit \<Rightarrow> bool" where
  "is_high c = (0xD800 \<le> c \<and> c \<le> 0xDBFF)"

definition is_low :: "code_unit \<Rightarrow> bool" where
  "is_low c = (0xDC00 \<le> c \<and> c \<le> 0xDFFF)"

definition scalar :: "nat \<Rightarrow> bool" where
  "scalar n = (n < 0xD800 \<or> (0xE000 \<le> n \<and> n \<le> 0x10FFFF))"

definition pair_cp :: "code_unit \<Rightarrow> code_unit \<Rightarrow> nat" where
  "pair_cp h l = 0x10000 + (unat h - 0xD800) * 0x400 + (unat l - 0xDC00)"

text \<open>The string iterator: a surrogate pair is one code point, a lone surrogate is itself.\<close>

fun code_points :: "jstring \<Rightarrow> nat list" where
  "code_points [] = []"
| "code_points [c] = [unat c]"
| "code_points (c # d # s) =
     (if is_high c \<and> is_low d then pair_cp c d # code_points s
      else unat c # code_points (d # s))"

definition utf16 :: "nat \<Rightarrow> jstring" where
  "utf16 n = (if n < 0x10000 then [of_nat n]
              else [of_nat (0xD800 + (n - 0x10000) div 0x400),
                    of_nat (0xDC00 + (n - 0x10000) mod 0x400)])"

definition of_code_points :: "nat list \<Rightarrow> jstring" where
  "of_code_points ns = concat (map utf16 ns)"

text \<open>\<open>s.isWellFormed()\<close>: no lone surrogate.\<close>

definition well_formed :: "jstring \<Rightarrow> bool" where
  "well_formed s = list_all scalar (code_points s)"

lemmas surrogate_defs = is_high_def is_low_def word_le_nat_alt

lemma unat_code_unit: "unat (c :: code_unit) < 0x10000"
  using unsigned_less [of c] by simp

lemma utf16_pair_cp: "is_high h \<Longrightarrow> is_low l \<Longrightarrow> utf16 (pair_cp h l) = [h, l]"
proof -
  assume "is_high h" "is_low l"
  then have h: "0xD800 \<le> unat h" "unat h \<le> 0xDBFF" and l: "0xDC00 \<le> unat l" "unat l \<le> 0xDFFF"
    by (auto simp: surrogate_defs)
  define q m where qm: "q = unat h - 0xD800" "m = unat l - 0xDC00"
  let ?r = "q * 0x400 + m"
  have "m < 0x400" using l by (simp add: qm)
  then have "?r div 0x400 = q" "?r mod 0x400 = m" by simp_all
  moreover have "pair_cp h l - 0x10000 = ?r" "\<not> pair_cp h l < 0x10000"
    by (simp_all add: pair_cp_def qm)
  moreover have "0xD800 + q = unat h" "0xDC00 + m = unat l"
    using h l by (auto simp: qm)
  ultimately show ?thesis by (simp add: utf16_def del: of_nat_add)
qed

lemma of_code_points_code_points [simp]: "of_code_points (code_points s) = s"
proof (induction s rule: code_points.induct)
  case (2 c)
  have "unat c < 0x10000" by (rule unat_code_unit)
  then show ?case by (simp add: of_code_points_def utf16_def)
next
  case (3 c d s)
  have "unat c < 0x10000" by (rule unat_code_unit)
  then have "utf16 (unat c) = [c]" by (simp add: utf16_def)
  with 3 show ?case
    by (cases "is_high c \<and> is_low d") (auto simp: of_code_points_def utf16_pair_cp)
qed (simp add: of_code_points_def)

lemma code_points_inject: "code_points s = code_points t \<longleftrightarrow> s = t"
  by (metis of_code_points_code_points)

lemma not_high_scalar: "scalar n \<Longrightarrow> n < 0x10000 \<Longrightarrow> \<not> is_high (of_nat n)"
  by (auto simp: scalar_def surrogate_defs unat_of_nat)

lemma code_points_utf16:
  assumes "scalar n"
  shows "code_points (utf16 n @ s) = n # code_points s"
proof (cases "n < 0x10000")
  case True
  then have "unat (of_nat n :: code_unit) = n" by (simp add: unat_of_nat)
  with True assms show ?thesis
    by (cases s) (auto simp: utf16_def not_high_scalar)
next
  case False
  define r where "r = n - 0x10000"
  have r: "r < 0x100000" and n: "n = 0x10000 + r"
    using False assms by (auto simp: r_def scalar_def)
  let ?h = "0xD800 + r div 0x400" and ?l = "0xDC00 + r mod 0x400"
  have q: "r div 0x400 < 0x400" using r by (simp add: div_less_iff_less_mult)
  then have uh: "unat (of_nat ?h :: code_unit) = ?h"
    by (simp add: unat_of_nat del: of_nat_add)
  have m: "r mod 0x400 < 0x400" by simp
  then have ul: "unat (of_nat ?l :: code_unit) = ?l"
    by (simp add: unat_of_nat del: of_nat_add)
  have "is_high (of_nat ?h)" "is_low (of_nat ?l)"
    unfolding surrogate_defs uh ul using q m by auto
  moreover have "pair_cp (of_nat ?h) (of_nat ?l) = n"
    unfolding pair_cp_def uh ul n by simp
  ultimately show ?thesis using False
    by (simp add: utf16_def r_def [symmetric] del: of_nat_add)
qed

lemma code_points_of_code_points:
  "list_all scalar ns \<Longrightarrow> code_points (of_code_points ns) = ns"
  by (induction ns) (auto simp: of_code_points_def code_points_utf16)

lemma well_formed_of_code_points: "list_all scalar ns \<Longrightarrow> well_formed (of_code_points ns)"
  by (simp add: well_formed_def code_points_of_code_points)

lemma well_formed_ascii: "(\<And>c. c \<in> set s \<Longrightarrow> c < 128) \<Longrightarrow> well_formed s"
proof (induction s rule: code_points.induct)
  case (2 c)
  then have "unat c < 128" by (simp add: word_less_nat_alt)
  then show ?case by (simp add: well_formed_def scalar_def)
next
  case (3 c d s)
  from 3(3) have "unat c < 128" by (simp add: word_less_nat_alt)
  moreover from this have "\<not> is_high c" by (simp add: surrogate_defs)
  ultimately show ?case using 3 by (auto simp: well_formed_def scalar_def)
qed (simp add: well_formed_def)

lemma code_points_single: "(\<And>c. c \<in> set v \<Longrightarrow> \<not> is_high c) \<Longrightarrow> code_points v = map unat v"
  by (induction v rule: code_points.induct) auto

section \<open>UTF-8\<close>

definition utf8_cp :: "nat \<Rightarrow> byte list" where
  "utf8_cp n =
    (if n < 0x80 then [of_nat n]
     else if n < 0x800 then [of_nat (0xC0 + n div 0x40), of_nat (0x80 + n mod 0x40)]
     else if n < 0x10000 then
       [of_nat (0xE0 + n div 0x1000), of_nat (0x80 + n div 0x40 mod 0x40), of_nat (0x80 + n mod 0x40)]
     else
       [of_nat (0xF0 + n div 0x40000), of_nat (0x80 + n div 0x1000 mod 0x40),
        of_nat (0x80 + n div 0x40 mod 0x40), of_nat (0x80 + n mod 0x40)])"

text \<open>
  \<open>Buffer.from(s, 'utf8')\<close>, \<open>Buffer.byteLength(s, 'utf8')\<close> and \<open>hash.update(s)\<close>: a lone
  surrogate is written as U+FFFD.
\<close>

definition utf8 :: "jstring \<Rightarrow> byte list" where
  "utf8 s = concat (map (\<lambda>n. utf8_cp (if scalar n then n else 0xFFFD)) (code_points s))"

definition byte_length :: "jstring \<Rightarrow> nat" where
  "byte_length s = length (utf8 s)"

definition is_cont :: "byte \<Rightarrow> bool" where
  "is_cont b = (0x80 \<le> unat b \<and> unat b \<le> 0xBF)"

text \<open>The WHATWG UTF-8 decoder in fatal mode: overlong forms, surrogates and values past
  U+10FFFF are errors.\<close>

fun utf8_decode :: "byte list \<Rightarrow> nat list option" where
  "utf8_decode [] = Some []"
| "utf8_decode (b # bs) =
    (let n = unat b in
     if n < 0x80 then map_option (Cons n) (utf8_decode bs)
     else if 0xC2 \<le> n \<and> n \<le> 0xDF then
       (case bs of
          c # r \<Rightarrow>
            if is_cont c
            then map_option (Cons ((n - 0xC0) * 0x40 + (unat c - 0x80))) (utf8_decode r) else None
        | _ \<Rightarrow> None)
     else if 0xE0 \<le> n \<and> n \<le> 0xEF then
       (case bs of
          c # d # r \<Rightarrow>
            if is_cont c \<and> is_cont d \<and> (n = 0xE0 \<longrightarrow> 0xA0 \<le> unat c) \<and> (n = 0xED \<longrightarrow> unat c \<le> 0x9F)
            then map_option
                   (Cons ((n - 0xE0) * 0x1000 + (unat c - 0x80) * 0x40 + (unat d - 0x80)))
                   (utf8_decode r) else None
        | _ \<Rightarrow> None)
     else if 0xF0 \<le> n \<and> n \<le> 0xF4 then
       (case bs of
          c # d # e # r \<Rightarrow>
            if is_cont c \<and> is_cont d \<and> is_cont e
               \<and> (n = 0xF0 \<longrightarrow> 0x90 \<le> unat c) \<and> (n = 0xF4 \<longrightarrow> unat c \<le> 0x8F)
            then map_option
                   (Cons ((n - 0xF0) * 0x40000 + (unat c - 0x80) * 0x1000
                          + (unat d - 0x80) * 0x40 + (unat e - 0x80)))
                   (utf8_decode r) else None
        | _ \<Rightarrow> None)
     else None)"

declare utf8_decode.simps(2) [simp del]

lemma unat_byte: "n < 256 \<Longrightarrow> unat (of_nat n :: byte) = n"
  by (simp add: unat_of_nat)

lemma utf8_decode_2:
  assumes "unat x = 0xC0 + a" "unat y = 0x80 + b" "2 \<le> a" "a < 0x20" "b < 0x40"
  shows "utf8_decode (x # y # bs) = map_option (Cons (a * 0x40 + b)) (utf8_decode bs)"
  using assms by (simp add: utf8_decode.simps(2) Let_def is_cont_def)

lemma utf8_decode_3:
  assumes "unat x = 0xE0 + a" "unat y = 0x80 + b" "unat z = 0x80 + c"
    and "a < 0x10" "b < 0x40" "c < 0x40" "a = 0 \<longrightarrow> 0x20 \<le> b" "a = 13 \<longrightarrow> b \<le> 0x1F"
  shows "utf8_decode (x # y # z # bs) =
    map_option (Cons (a * 0x1000 + b * 0x40 + c)) (utf8_decode bs)"
proof -
  have "is_cont y" "is_cont z" using assms by (simp_all add: is_cont_def)
  moreover have "\<not> unat x < 0x80" "\<not> unat x \<le> 0xDF" "0xE0 \<le> unat x \<and> unat x \<le> 0xEF"
    using assms by simp_all
  moreover have r: "(unat x = 0xE0 \<longrightarrow> 0xA0 \<le> unat y) \<and> (unat x = 0xED \<longrightarrow> unat y \<le> 0x9F)"
    using assms by simp
  moreover have "unat x - 0xE0 = a" "unat y - 0x80 = b" "unat z - 0x80 = c"
    using assms by simp_all
  ultimately show ?thesis by (simp only: utf8_decode.simps Let_def list.case if_True if_False
        simp_thms if_P [OF r])
qed

lemma utf8_decode_4:
  assumes "unat x = 0xF0 + a" "unat y = 0x80 + b" "unat z = 0x80 + c" "unat w = 0x80 + d"
    and "a < 5" "b < 0x40" "c < 0x40" "d < 0x40" "a = 0 \<longrightarrow> 0x10 \<le> b" "a = 4 \<longrightarrow> b \<le> 0xF"
  shows "utf8_decode (x # y # z # w # bs) =
    map_option (Cons (a * 0x40000 + b * 0x1000 + c * 0x40 + d)) (utf8_decode bs)"
proof -
  have "is_cont y" "is_cont z" "is_cont w" using assms by (simp_all add: is_cont_def)
  moreover have "\<not> unat x < 0x80" "\<not> unat x \<le> 0xDF" "\<not> unat x \<le> 0xEF"
    "0xF0 \<le> unat x \<and> unat x \<le> 0xF4"
    using assms by simp_all
  moreover have r: "(unat x = 0xF0 \<longrightarrow> 0x90 \<le> unat y) \<and> (unat x = 0xF4 \<longrightarrow> unat y \<le> 0x8F)"
    using assms by simp
  moreover have "unat x - 0xF0 = a" "unat y - 0x80 = b" "unat z - 0x80 = c" "unat w - 0x80 = d"
    using assms by simp_all
  ultimately show ?thesis by (simp only: utf8_decode.simps Let_def list.case if_True if_False
        simp_thms if_P [OF r])
qed

lemma utf8_cp_2:
  assumes "0x80 \<le> n" "n < 0x800"
  shows "utf8_decode (utf8_cp n @ bs) = map_option (Cons n) (utf8_decode bs)"
proof -
  have "utf8_cp n = [of_nat (0xC0 + n div 0x40), of_nat (0x80 + n mod 0x40)]"
    using assms by (simp add: utf8_cp_def)
  moreover have "2 \<le> n div 0x40" "n div 0x40 < 0x20" using assms by auto
  ultimately show ?thesis
    by (simp add: utf8_decode_2 [of _ "n div 0x40" _ "n mod 0x40"] unat_byte del: of_nat_add)
qed

lemma utf8_cp_3:
  assumes "0x800 \<le> n" "n < 0x10000" "scalar n"
  shows "utf8_decode (utf8_cp n @ bs) = map_option (Cons n) (utf8_decode bs)"
proof -
  define a b c where abc: "a = n div 0x1000" "b = n div 0x40 mod 0x40" "c = n mod 0x40"
  have "a = n div 0x40 div 0x40" by (simp add: abc div_mult2_eq [symmetric])
  then have "n div 0x40 = a * 0x40 + b" "n = n div 0x40 * 0x40 + c"
    unfolding abc by (simp_all only: div_mult_mod_eq)
  then have n: "a * 0x1000 + b * 0x40 + c = n" by linarith
  have r: "a < 0x10" "b < 0x40" "c < 0x40" using assms by (auto simp: abc)
  have e: "a = 0 \<longrightarrow> 0x20 \<le> b" "a = 13 \<longrightarrow> b \<le> 0x1F"
    using assms r n by (auto simp: scalar_def)
  have u: "utf8_cp n = [of_nat (0xE0 + a), of_nat (0x80 + b), of_nat (0x80 + c)]"
    using assms by (simp add: utf8_cp_def abc)
  show ?thesis unfolding u append_Cons append_Nil
    by (subst utf8_decode_3 [of _ a _ b _ c]) (use r e n in \<open>simp_all add: unat_byte del: of_nat_add\<close>)
qed

lemma utf8_cp_4:
  assumes "0x10000 \<le> n" "scalar n"
  shows "utf8_decode (utf8_cp n @ bs) = map_option (Cons n) (utf8_decode bs)"
proof -
  define a b c d where abcd: "a = n div 0x40000" "b = n div 0x1000 mod 0x40"
    "c = n div 0x40 mod 0x40" "d = n mod 0x40"
  have "a = n div 0x1000 div 0x40" "n div 0x1000 = n div 0x40 div 0x40"
    by (simp_all add: abcd div_mult2_eq [symmetric])
  then have "n div 0x1000 = a * 0x40 + b" "n div 0x40 = n div 0x1000 * 0x40 + c"
    "n = n div 0x40 * 0x40 + d"
    unfolding abcd by (simp_all only: div_mult_mod_eq)
  then have n: "a * 0x40000 + b * 0x1000 + c * 0x40 + d = n" by linarith
  have r: "a < 5" "b < 0x40" "c < 0x40" "d < 0x40" using assms by (auto simp: abcd scalar_def)
  have e: "a = 0 \<longrightarrow> 0x10 \<le> b" "a = 4 \<longrightarrow> b \<le> 0xF"
    using assms r n by (auto simp: scalar_def)
  have u: "utf8_cp n = [of_nat (0xF0 + a), of_nat (0x80 + b), of_nat (0x80 + c), of_nat (0x80 + d)]"
    using assms by (simp add: utf8_cp_def abcd)
  show ?thesis unfolding u append_Cons append_Nil
    by (subst utf8_decode_4 [of _ a _ b _ c _ d])
       (use r e n in \<open>simp_all add: unat_byte del: of_nat_add\<close>)
qed

lemma utf8_decode_cp:
  assumes "scalar n"
  shows "utf8_decode (utf8_cp n @ bs) = map_option (Cons n) (utf8_decode bs)"
proof -
  consider "n < 0x80" | "0x80 \<le> n" "n < 0x800" | "0x800 \<le> n" "n < 0x10000" | "0x10000 \<le> n"
    by linarith
  then show ?thesis
  proof cases
    case 1
    then show ?thesis by (simp add: utf8_cp_def unat_byte utf8_decode.simps(2))
  qed (use assms in \<open>simp_all only: utf8_cp_2 utf8_cp_3 utf8_cp_4\<close>)
qed

lemma utf8_decode_concat:
  "list_all scalar ns \<Longrightarrow> utf8_decode (concat (map utf8_cp ns)) = Some ns"
  by (induction ns) (auto simp: utf8_decode_cp)

lemma utf8_well_formed: "well_formed s \<Longrightarrow> utf8 s = concat (map utf8_cp (code_points s))"
  unfolding utf8_def well_formed_def list_all_iff by (intro arg_cong [where f = concat] map_cong) auto

text \<open>Decoding the UTF-8 form of a well-formed string gives its code points back.\<close>

lemma utf8_decode_utf8: "well_formed s \<Longrightarrow> utf8_decode (utf8 s) = Some (code_points s)"
  by (simp add: utf8_well_formed) (simp add: well_formed_def utf8_decode_concat)

lemma utf8_inject: "well_formed s \<Longrightarrow> well_formed t \<Longrightarrow> utf8 s = utf8 t \<Longrightarrow> s = t"
  by (metis code_points_inject option.inject utf8_decode_utf8)

lemma utf8_cp_ascii: "n < 0x80 \<Longrightarrow> utf8_cp n = [of_nat n]"
  by (simp add: utf8_cp_def)

section \<open>Hexadecimal\<close>

definition hex_lower :: "nat \<Rightarrow> code_unit" where
  "hex_lower d = of_nat (if d < 10 then 48 + d else 87 + d)"

definition hex_upper :: "nat \<Rightarrow> code_unit" where
  "hex_upper d = of_nat (if d < 10 then 48 + d else 55 + d)"

definition hex_val :: "code_unit \<Rightarrow> nat option" where
  "hex_val c =
    (if is_digit c then Some (unat c - 48)
     else if 65 \<le> c \<and> c \<le> 70 then Some (unat c - 55)
     else if 97 \<le> c \<and> c \<le> 102 then Some (unat c - 87)
     else None)"

lemma hex_val_upper [simp]: "d < 16 \<Longrightarrow> hex_val (hex_upper d) = Some d"
  by (auto simp: hex_val_def hex_upper_def is_digit_def word_le_nat_alt unat_of_nat
      simp del: of_nat_add)

lemma hex_val_lower [simp]: "d < 16 \<Longrightarrow> hex_val (hex_lower d) = Some d"
  by (auto simp: hex_val_def hex_lower_def is_digit_def word_le_nat_alt unat_of_nat
      simp del: of_nat_add)

lemma hex_lower_inject: "d < 16 \<Longrightarrow> e < 16 \<Longrightarrow> hex_lower d = hex_lower e \<longleftrightarrow> d = e"
  by (metis hex_val_lower option.inject)

text \<open>\<open>digest('hex')\<close>: two lowercase digits per byte.\<close>

definition to_hex :: "byte list \<Rightarrow> jstring" where
  "to_hex bs = concat (map (\<lambda>b. [hex_lower (unat b div 16), hex_lower (unat b mod 16)]) bs)"

text \<open>
  \<open>Buffer.from(s, 'hex')\<close>: pairs of digits up to the first pair that is not hexadecimal; the
  rest of the string is dropped without an error.
\<close>

fun of_hex :: "jstring \<Rightarrow> byte list" where
  "of_hex (h # l # r) =
    (case (hex_val h, hex_val l) of
       (Some a, Some b) \<Rightarrow> of_nat (16 * a + b) # of_hex r
     | _ \<Rightarrow> [])"
| "of_hex _ = []"

lemma unat_byte_bound: "unat (b :: byte) < 256"
  using unsigned_less [of b] by simp

lemma of_hex_to_hex_append: "of_hex (to_hex bs @ r) = bs @ of_hex r"
proof (induction bs)
  case (Cons b bs)
  have "unat b div 16 < 16" "unat b mod 16 < 16" using unat_byte_bound [of b] by auto
  moreover have "16 * (unat b div 16) + unat b mod 16 = unat b" by simp
  then have "of_nat (16 * (unat b div 16) + unat b mod 16) = b" by (simp del: of_nat_add)
  ultimately show ?case using Cons by (simp add: to_hex_def del: of_nat_add)
qed (simp add: to_hex_def)

lemma of_hex_to_hex [simp]: "of_hex (to_hex bs) = bs"
  using of_hex_to_hex_append [of bs "[]"] by simp

lemma to_hex_inject: "to_hex a = to_hex b \<longleftrightarrow> a = b"
  by (metis of_hex_to_hex)

lemma length_to_hex: "length (to_hex bs) = 2 * length bs"
  by (induction bs) (auto simp: to_hex_def)

section \<open>Percent-encoding\<close>

text \<open>The characters \<open>encodeURIComponent\<close> leaves alone: letters, digits and \<open>- _ . ! ~ * ' ( )\<close>.\<close>

definition uri_unreserved :: "code_unit \<Rightarrow> bool" where
  "uri_unreserved c = (is_lower c \<or> is_upper c \<or> is_digit c
     \<or> c \<in> {45, 95, 46, 33, 126, 42, 39, 40, 41})"

definition pct_byte :: "byte \<Rightarrow> jstring" where
  "pct_byte b = [37, hex_upper (unat b div 16), hex_upper (unat b mod 16)]"

definition pct_cp :: "nat \<Rightarrow> jstring" where
  "pct_cp n = (if n < 128 \<and> uri_unreserved (of_nat n) then [of_nat n]
               else concat (map pct_byte (utf8_cp n)))"

text \<open>\<open>encodeURIComponent(s)\<close>; \<open>None\<close> is the URIError thrown on a lone surrogate.\<close>

definition encode_uri_component :: "jstring \<Rightarrow> jstring option" where
  "encode_uri_component s =
    (if well_formed s then Some (concat (map pct_cp (code_points s))) else None)"

definition octet_count :: "byte \<Rightarrow> nat" where
  "octet_count b =
    (let n = unat b in
     if n < 0x80 then 1 else if n < 0xC0 then 0 else if n < 0xE0 then 2
     else if n < 0xF0 then 3 else if n < 0xF8 then 4 else 0)"

fun pct_octets :: "nat \<Rightarrow> jstring \<Rightarrow> (byte list \<times> jstring) option" where
  "pct_octets 0 s = Some ([], s)"
| "pct_octets (Suc k) s =
    (case s of
       p # h # l # r \<Rightarrow>
         (if p \<noteq> 37 then None
          else (case (hex_val h, hex_val l) of
             (Some a, Some b) \<Rightarrow>
               (case pct_octets k r of
                  None \<Rightarrow> None
                | Some (bs, rest) \<Rightarrow> Some (of_nat (16 * a + b) # bs, rest))
           | _ \<Rightarrow> None))
     | _ \<Rightarrow> None)"

lemma pct_octets_length: "pct_octets k s = Some (bs, r) \<Longrightarrow> length s = length r + 3 * k"
  by (induction k s arbitrary: bs r rule: pct_octets.induct)
     (auto split: list.splits option.splits if_splits)

text \<open>
  \<open>decodeURIComponent(s)\<close>; \<open>None\<close> is the URIError. An unescaped code unit is copied as it is, a
  lone surrogate included; only an escape that does not decode is an error.
\<close>

function decode_uri_component :: "jstring \<Rightarrow> jstring option" where
  "decode_uri_component s =
    (case s of
       [] \<Rightarrow> Some []
     | c # cs \<Rightarrow>
         if c \<noteq> 37 then map_option (Cons c) (decode_uri_component cs)
         else (case pct_octets 1 s of
             Some ([b], r) \<Rightarrow>
               (if octet_count b = 0 then None
                else (case pct_octets (octet_count b) s of
                    None \<Rightarrow> None
                  | Some (bs, rest) \<Rightarrow>
                      (case utf8_decode bs of
                         Some [n] \<Rightarrow> map_option (append (utf16 n)) (decode_uri_component rest)
                       | _ \<Rightarrow> None)))
           | _ \<Rightarrow> None))"
  by pat_completeness auto
termination
  by (relation "measure length") (auto dest!: pct_octets_length)

declare decode_uri_component.simps [simp del]

lemma pct_octets_bytes: "pct_octets (length bs) (concat (map pct_byte bs) @ r) = Some (bs, r)"
proof (induction bs)
  case (Cons b bs)
  have "unat b div 16 < 16" "unat b mod 16 < 16" using unat_byte_bound [of b] by auto
  moreover have "16 * (unat b div 16) + unat b mod 16 = unat b" by simp
  then have "of_nat (16 * (unat b div 16) + unat b mod 16) = b" by (simp del: of_nat_add)
  ultimately show ?case using Cons by (simp add: pct_byte_def del: of_nat_add)
qed simp

lemma octet_count_cp:
  assumes "scalar n"
  shows "\<exists>b bs. utf8_cp n = b # bs \<and> octet_count b = Suc (length bs)"
proof -
  have "n div 0x40000 < 5" using assms by (auto simp: scalar_def)
  then show ?thesis
    by (auto simp: utf8_cp_def octet_count_def Let_def unat_byte less_mult_imp_div_less
        simp del: of_nat_add)
qed

lemma decode_uri_unreserved:
  "c \<noteq> 37 \<Longrightarrow> decode_uri_component (c # s) = map_option (Cons c) (decode_uri_component s)"
  by (subst decode_uri_component.simps) simp

lemma uri_unreserved_not_pct: "uri_unreserved c \<Longrightarrow> c \<noteq> 37"
  by (auto simp: uri_unreserved_def char_class_defs)

lemma decode_uri_escape:
  assumes "pct_octets 1 s = Some ([b], r)" and "octet_count b \<noteq> 0"
    and "pct_octets (octet_count b) s = Some (bs, rest)" and "utf8_decode bs = Some [n]"
  shows "decode_uri_component s = map_option (append (utf16 n)) (decode_uri_component rest)"
proof -
  obtain cs where "s = 37 # cs"
    using assms(1) by (auto split: list.splits if_splits)
  with assms show ?thesis
    by (subst decode_uri_component.simps) (simp del: pct_octets.simps One_nat_def)
qed

lemma decode_pct_cp:
  assumes "scalar n"
  shows "decode_uri_component (pct_cp n @ s) = map_option (append (utf16 n)) (decode_uri_component s)"
proof (cases "n < 128 \<and> uri_unreserved (of_nat n)")
  case True
  then show ?thesis
    by (simp add: pct_cp_def decode_uri_unreserved uri_unreserved_not_pct utf16_def)
       (simp add: append_def)
next
  case False
  obtain b bs where u: "utf8_cp n = b # bs" and k: "octet_count b = Suc (length bs)"
    using octet_count_cp [OF assms] by blast
  let ?t = "concat (map pct_byte (b # bs)) @ s"
  have t: "pct_cp n @ s = ?t" using False u by (auto simp: pct_cp_def)
  have one: "pct_octets 1 ?t = Some ([b], concat (map pct_byte bs) @ s)"
    using pct_octets_bytes [of "[b]" "concat (map pct_byte bs) @ s"] by simp
  have all: "pct_octets (octet_count b) ?t = Some (b # bs, s)"
    using pct_octets_bytes [of "b # bs" s] k by simp
  have dec: "utf8_decode (b # bs) = Some [n]"
    using utf8_decode_cp [OF assms, of "[]"] u by simp
  show ?thesis unfolding t by (rule decode_uri_escape [OF one _ all dec]) (simp add: k)
qed

theorem decode_encode_uri_component:
  "encode_uri_component s = Some t \<Longrightarrow> decode_uri_component t = Some s"
proof -
  assume enc: "encode_uri_component s = Some t"
  have "list_all scalar ns \<Longrightarrow>
      decode_uri_component (concat (map pct_cp ns)) = Some (of_code_points ns)" for ns
    by (induction ns)
       (auto simp: decode_pct_cp of_code_points_def decode_uri_component.simps [of "[]"])
  from this [of "code_points s"] enc show ?thesis
    by (auto simp: encode_uri_component_def well_formed_def split: if_splits)
qed

text \<open>What \<open>encodeURIComponent\<close> writes is ASCII, and has none of the separators of a URI.\<close>

lemma hex_upper_unreserved: "d < 16 \<Longrightarrow> uri_unreserved (hex_upper d)"
  by (auto simp: uri_unreserved_def hex_upper_def char_class_defs word_le_nat_alt unat_of_nat
      simp del: of_nat_add)

lemma pct_cp_chars: "c \<in> set (pct_cp n) \<Longrightarrow> c = 37 \<or> uri_unreserved c"
  using unat_byte_bound
  by (auto simp: pct_cp_def pct_byte_def less_mult_imp_div_less
      intro!: hex_upper_unreserved split: if_splits)

lemma encode_uri_chars:
  "encode_uri_component s = Some t \<Longrightarrow> c \<in> set t \<Longrightarrow> c = 37 \<or> uri_unreserved c"
  by (auto simp: encode_uri_component_def dest: pct_cp_chars split: if_splits)

lemma encode_uri_Nil: "encode_uri_component s = Some t \<Longrightarrow> t = [] \<longleftrightarrow> s = []"
  using decode_encode_uri_component [of s t]
  by (auto simp: encode_uri_component_def decode_uri_component.simps [of "[]"] split: if_splits)

section \<open>Base64\<close>

definition b64_char :: "nat \<Rightarrow> code_unit" where
  "b64_char n = of_nat (if n < 26 then 65 + n else if n < 52 then 71 + n
                        else if n < 62 then n - 4 else if n = 62 then 43 else 47)"

definition b64_val :: "code_unit \<Rightarrow> nat" where
  "b64_val c = (if is_upper c then unat c - 65 else if is_lower c then unat c - 71
                else if is_digit c then unat c + 4 else if c = 43 then 62 else 63)"

definition is_b64 :: "code_unit \<Rightarrow> bool" where
  "is_b64 c = (is_upper c \<or> is_lower c \<or> is_digit c \<or> c = 43 \<or> c = 47)"

lemma unat_b64_char:
  "n < 64 \<Longrightarrow> unat (b64_char n) = (if n < 26 then 65 + n else if n < 52 then 71 + n
      else if n < 62 then n - 4 else if n = 62 then 43 else 47)"
  by (simp add: b64_char_def unat_of_nat del: of_nat_add of_nat_diff)

lemma word_eq_unat: "(c :: code_unit) = d \<longleftrightarrow> unat c = unat d"
  by (auto dest: unsigned_word_eqI)

lemma b64_char_cases:
  assumes "n < 64"
  shows "is_b64 (b64_char n) \<and> b64_val (b64_char n) = n \<and> b64_char n \<noteq> 61"
  using assms
  by (auto simp: is_b64_def b64_val_def char_class_defs word_le_nat_alt word_eq_unat unat_b64_char)

lemmas b64_char_simps [simp] =
  b64_char_cases [THEN conjunct1] b64_char_cases [THEN conjunct2, THEN conjunct1]
  b64_char_cases [THEN conjunct2, THEN conjunct2]

text \<open>\<open>Buffer.toString('base64')\<close>.\<close>

fun to_base64 :: "byte list \<Rightarrow> jstring" where
  "to_base64 [] = []"
| "to_base64 [a] = [b64_char (unat a div 4), b64_char (unat a mod 4 * 16), 61, 61]"
| "to_base64 [a, b] =
     [b64_char (unat a div 4), b64_char (unat a mod 4 * 16 + unat b div 16),
      b64_char (unat b mod 16 * 4), 61]"
| "to_base64 (a # b # c # r) =
     b64_char (unat a div 4) # b64_char (unat a mod 4 * 16 + unat b div 16)
     # b64_char (unat b mod 16 * 4 + unat c div 64) # b64_char (unat c mod 64) # to_base64 r"

text \<open>
  \<open>Buffer.from(s, 'base64')\<close> on text made of whole quantums with at most two padding
  characters at the end, the only shape the callers let through.
\<close>

fun of_base64 :: "jstring \<Rightarrow> byte list" where
  "of_base64 (w # x # y # z # r) =
     (let a = of_nat (b64_val w * 4 + b64_val x div 16);
          b = of_nat (b64_val x mod 16 * 16 + b64_val y div 4);
          c = of_nat (b64_val y mod 4 * 64 + b64_val z)
      in if y = 61 then [a] else if z = 61 then [a, b] else a # b # c # of_base64 r)"
| "of_base64 _ = []"

text \<open>\<open>/^[A-Za-z0-9+/]*={0,2}$/.test(s)\<close>.\<close>

definition strict_base64 :: "jstring \<Rightarrow> bool" where
  "strict_base64 s = (let p = dropWhile is_b64 s in p \<in> {[], [61], [61, 61]})"

lemma is_b64_pad [simp]: "\<not> is_b64 61"
  by (simp add: is_b64_def char_class_defs)

lemma of_base64_to_base64 [simp]: "of_base64 (to_base64 bs) = bs"
proof (induction bs rule: to_base64.induct)
  case (2 a)
  have q: "unat a div 4 < 64" "unat a mod 4 < 4" using unat_byte_bound [of a] by auto
  have "of_nat (unat a div 4 * 4 + unat a mod 4) = a" by (simp only: div_mult_mod_eq) simp
  with q show ?case by (simp add: Let_def del: of_nat_add)
next
  case (3 a b)
  have q: "unat a div 4 < 64" "unat a mod 4 < 4" "unat b div 16 < 16" "unat b mod 16 < 16"
    using unat_byte_bound [of a] unat_byte_bound [of b] by auto
  have "(unat a mod 4 * 16 + unat b div 16) div 16 = unat a mod 4"
    "(unat a mod 4 * 16 + unat b div 16) mod 16 = unat b div 16" using q by auto
  moreover have "of_nat (unat a div 4 * 4 + unat a mod 4) = a"
    "of_nat (unat b div 16 * 16 + unat b mod 16) = b"
    by (simp_all only: div_mult_mod_eq) simp_all
  ultimately show ?case using q by (simp add: Let_def del: of_nat_add)
next
  case (4 a b c r)
  have q: "unat a div 4 < 64" "unat a mod 4 < 4" "unat b div 16 < 16" "unat b mod 16 < 16"
    "unat c div 64 < 4" "unat c mod 64 < 64"
    using unat_byte_bound [of a] unat_byte_bound [of b] unat_byte_bound [of c] by auto
  have "(unat a mod 4 * 16 + unat b div 16) div 16 = unat a mod 4"
    "(unat a mod 4 * 16 + unat b div 16) mod 16 = unat b div 16"
    "(unat b mod 16 * 4 + unat c div 64) div 4 = unat b mod 16"
    "(unat b mod 16 * 4 + unat c div 64) mod 4 = unat c div 64" using q by auto
  moreover have "of_nat (unat a div 4 * 4 + unat a mod 4) = a"
    "of_nat (unat b div 16 * 16 + unat b mod 16) = b" "of_nat (unat c div 64 * 64 + unat c mod 64) = c"
    by (simp_all only: div_mult_mod_eq) simp_all
  moreover have "unat a mod 4 * 16 + unat b div 16 < 64" "unat b mod 16 * 4 + unat c div 64 < 64"
    using q by auto
  ultimately show ?case using q 4 by (simp add: Let_def del: of_nat_add)
qed simp

lemma length_to_base64: "length (to_base64 bs) mod 4 = 0"
  by (induction bs rule: to_base64.induct) auto

lemma strict_base64_to_base64: "strict_base64 (to_base64 bs)"
proof (induction bs rule: to_base64.induct)
  case (2 a)
  have "unat a div 4 < 64" "unat a mod 4 * 16 < 64" using unat_byte_bound [of a] by auto
  then show ?case by (simp add: strict_base64_def)
next
  case (3 a b)
  have "unat a div 4 < 64" "unat a mod 4 * 16 + unat b div 16 < 64" "unat b mod 16 * 4 < 64"
    using unat_byte_bound [of a] unat_byte_bound [of b] by auto
  then show ?case by (simp add: strict_base64_def)
next
  case (4 a b c r)
  have "unat a div 4 < 64" "unat a mod 4 * 16 + unat b div 16 < 64"
    "unat b mod 16 * 4 + unat c div 64 < 64" "unat c mod 64 < 64"
    using unat_byte_bound [of a] unat_byte_bound [of b] unat_byte_bound [of c] by auto
  with 4 show ?case by (simp add: strict_base64_def)
qed (simp add: strict_base64_def)

end
