(* ===== verification/Json.thy ===== *)
theory Json
  imports Encoding "HOL-Library.Multiset"
begin

text \<open>
  JavaScript values as the gateway handles them, \<open>JSON.stringify\<close>, and the canonical form of
  \<open>packages/mcp-core/src/canonical.ts\<close>: keys in code-unit order, ECMAScript number layout,
  errors for what has no canonical form. The canonical text is shown to determine the value up to
  the identifications the code makes, and the writer over a heap of shared objects, with its
  cycle check, is shown to agree with the writer over trees.
\<close>

section \<open>Values\<close>

text \<open>
  A number is the sign, digits and exponent of its shortest decimal form, the triple
  \<open>Number::toString\<close> lays out; \<open>0\<close> and \<open>-0\<close> are \<open>Finite False 0 0\<close> and \<open>Finite True 0 0\<close>.
\<close>

datatype jnum = NaN | Infinity bool | Finite bool nat int

definition wf_num :: "jnum \<Rightarrow> bool" where
  "wf_num x = (case x of Finite s d e \<Rightarrow> (if d = 0 then e = 0 else d mod 10 \<noteq> 0) | _ \<Rightarrow> True)"

definition finite_num :: "jnum \<Rightarrow> bool" where
  "finite_num x = (case x of Finite _ _ _ \<Rightarrow> True | _ \<Rightarrow> False)"

datatype jvalue =
    JNull
  | JBool bool
  | JNumber jnum
  | JString jstring
  | JBigInt int
  | JUndefined
  | JFunction
  | JSymbol
  | JArray "jvalue list"
  | JObject "jvalue props"

text \<open>The number literal of a natural number.\<close>

function strip_zeros :: "nat \<Rightarrow> int \<Rightarrow> nat \<times> int" where
  "strip_zeros m x = (if m \<noteq> 0 \<and> m mod 10 = 0 then strip_zeros (m div 10) (x + 1) else (m, x))"
  by pat_completeness auto
termination by (relation "measure fst") auto

declare strip_zeros.simps [simp del]

definition num_of_nat :: "nat \<Rightarrow> jnum" where
  "num_of_nat n = (let (m, x) = strip_zeros n 0 in Finite False m x)"

definition num_of_int :: "int \<Rightarrow> jnum" where
  "num_of_int i = (let (m, x) = strip_zeros (nat \<bar>i\<bar>) 0 in Finite (i < 0) m x)"

abbreviation j_nat :: "nat \<Rightarrow> jvalue" where "j_nat n \<equiv> JNumber (num_of_nat n)"
abbreviation j_str :: "string \<Rightarrow> jvalue" where "j_str s \<equiv> JString (js s)"

text \<open>\<open>typeof x === 'string'\<close>, and reading the string; \<open>None\<close> is \<open>undefined\<close>.\<close>

definition as_string :: "jvalue option \<Rightarrow> jstring option" where
  "as_string x = (case x of Some (JString s) \<Rightarrow> Some s | _ \<Rightarrow> None)"

lemma as_string_Some [simp]: "as_string x = Some s \<longleftrightarrow> x = Some (JString s)"
  by (auto simp: as_string_def split: option.splits jvalue.splits)

lemma as_string_JString [simp]: "as_string (Some (JString s)) = Some s" "as_string None = None"
  by (simp_all add: as_string_def)

text \<open>What a thrown value can be: the error classes of the program and of the language.\<close>

record sentinel_error =
  se_name :: jstring
  se_code :: int
  se_message :: jstring
  se_status :: nat
  se_data :: "jvalue props option"

datatype exn =
    SentinelError sentinel_error
  | NamingError jstring
  | CanonicalizationError jstring
  | IdError jstring
  | AuditWriteError jstring
  | PolicyLoadError jstring "jstring option"
  | ConfigError jstring "jstring list"
  | ProtocolError int jstring "jvalue option"
  | TypeError
  | RangeError
  | URIError
  | PlainError jstring
  | ThrownObject "jvalue props"

section \<open>Numbers as text\<close>

definition sign_text :: "bool \<Rightarrow> jstring" where
  "sign_text s = (if s then [45] else [])"

text \<open>The ECMAScript layout of \<open>d\<close> with \<open>k\<close> digits and decimal point position \<open>n\<close>.\<close>

definition layout :: "nat \<Rightarrow> int \<Rightarrow> jstring" where
  "layout d e =
    (let ds = dec d; k = int (length ds); n = e + k in
     if k \<le> n \<and> n \<le> 21 then ds @ replicate (nat (n - k)) 48
     else if 0 < n \<and> n \<le> 21 then take (nat n) ds @ 46 # drop (nat n) ds
     else if - 6 < n \<and> n \<le> 0 then 48 # 46 # replicate (nat (- n)) 48 @ ds
     else take 1 ds @ (if k = 1 then [] else 46 # drop 1 ds)
            @ 101 # (if n - 1 < 0 then 45 else 43) # dec (nat \<bar>n - 1\<bar>))"

definition num_text :: "jnum \<Rightarrow> jstring" where
  "num_text x = (case x of
      NaN \<Rightarrow> js ''NaN''
    | Infinity s \<Rightarrow> sign_text s @ js ''Infinity''
    | Finite s d e \<Rightarrow> if d = 0 then [48] else sign_text s @ layout d e)"

text \<open>Reading a number back: sign, digits around the point, exponent.\<close>

definition read_num :: "jstring \<Rightarrow> jnum" where
  "read_num t =
    (let s = take 1 t = [45]; b = (if s then drop 1 t else t);
         mant = takeWhile (\<lambda>c. c \<noteq> 101) b; ex = drop 1 (dropWhile (\<lambda>c. c \<noteq> 101) b);
         x = (if ex = [] then 0
              else if take 1 ex = [45] then - int (undec (drop 1 ex)) else int (undec (drop 1 ex)));
         ip = takeWhile (\<lambda>c. c \<noteq> 46) mant; fp = drop 1 (dropWhile (\<lambda>c. c \<noteq> 46) mant);
         (d, e) = strip_zeros (undec (ip @ fp)) (x - int (length fp))
     in Finite s d (if d = 0 then 0 else e))"

lemma undec_foldl: "foldl (\<lambda>n c. 10 * n + digit_val c) a s = a * 10 ^ length s + undec s"
proof (induction s rule: rev_induct)
  case (snoc c s)
  then show ?case by (simp add: algebra_simps)
qed (simp add: undec_def)

lemma undec_append: "undec (a @ b) = undec a * 10 ^ length b + undec b"
  unfolding undec_def foldl_append by (rule undec_foldl [unfolded undec_def])

lemma undec_zeros [simp]: "undec (replicate n 48) = 0"
proof (induction n)
  case (Suc n)
  have "undec ([48] @ replicate n 48) = 0"
    unfolding undec_append using Suc by (simp add: undec_def digit_val_def)
  then show ?case by simp
qed (simp add: undec_def)

lemma undec_one_zero: "undec [48] = 0"
  by (simp add: undec_def digit_val_def)

lemma strip_zeros_shift:
  assumes "d mod 10 \<noteq> 0"
  shows "strip_zeros (d * 10 ^ j) x = (d, x + int j)"
proof (induction j arbitrary: x)
  case 0
  from assms show ?case by (simp add: strip_zeros.simps)
next
  case (Suc j)
  have "d \<noteq> 0" using assms by (cases d) auto
  with Suc show ?case by (subst strip_zeros.simps) (simp add: algebra_simps)
qed

lemma digit_not: "is_digit c \<Longrightarrow> c \<noteq> 101 \<and> c \<noteq> 46 \<and> c \<noteq> 45"
  by (auto simp: is_digit_def word_le_nat_alt)

lemma dec_no_mark:
  "101 \<notin> set (dec d)" "46 \<notin> set (dec d)" "45 \<notin> set (dec d)"
  using digit_not by (auto dest: dec_digits)

lemma takeWhile_all: "c \<notin> set a \<Longrightarrow> takeWhile (\<lambda>x. x \<noteq> c) a = a \<and> dropWhile (\<lambda>x. x \<noteq> c) a = []"
  by (induction a) auto

lemma takeWhile_mark:
  "c \<notin> set a \<Longrightarrow> takeWhile (\<lambda>x. x \<noteq> c) (a @ c # r) = a \<and> dropWhile (\<lambda>x. x \<noteq> c) (a @ c # r) = c # r"
  by (induction a) auto

lemma not_in_take: "c \<notin> set a \<Longrightarrow> c \<notin> set (take n a) \<and> c \<notin> set (drop n a)"
  by (meson in_set_dropD in_set_takeD)

lemma layout_cases:
  fixes d :: nat and e :: int
  defines "ds \<equiv> dec d" and "n \<equiv> e + int (length (dec d))"
  obtains "layout d e = ds @ replicate (nat e) 48" "0 \<le> e"
  | "layout d e = take (nat n) ds @ 46 # drop (nat n) ds" "e < 0" "0 < n"
  | "layout d e = 48 # 46 # replicate (nat (- n)) 48 @ ds" "n \<le> 0"
  | "length ds = 1" "layout d e = ds @ 101 # (if n - 1 < 0 then 45 else 43) # dec (nat \<bar>n - 1\<bar>)"
  | "length ds \<noteq> 1"
    "layout d e = take 1 ds @ 46 # drop 1 ds @ 101 # (if n - 1 < 0 then 45 else 43)
        # dec (nat \<bar>n - 1\<bar>)"
proof -
  have k: "0 < length ds" by (simp add: ds_def)
  have n: "e + int (length ds) = n" by (simp add: ds_def n_def)
  consider (a) "0 \<le> e \<and> n \<le> 21" | (b) "e < 0 \<and> 0 < n \<and> n \<le> 21" | (c) "-6 < n \<and> n \<le> 0"
    | (d) "n \<le> -6 \<or> 21 < n" by linarith
  then show thesis
  proof cases
    case a
    then have "layout d e = ds @ replicate (nat e) 48"
      by (simp add: layout_def Let_def ds_def n_def)
    with a that(1) show thesis by blast
  next
    case b
    then have "layout d e = take (nat n) ds @ 46 # drop (nat n) ds"
      by (simp add: layout_def Let_def ds_def n_def)
    with b that(2) show thesis by blast
  next
    case c
    with k have nn: "\<not> (int (length ds) \<le> n \<and> n \<le> 21)" "\<not> (0 < n \<and> n \<le> 21)" by linarith+
    with c have "layout d e = 48 # 46 # replicate (nat (- n)) 48 @ ds"
      unfolding layout_def Let_def ds_def [symmetric] n by auto
    with c that(3) show thesis by blast
  next
    case d
    then have nn: "\<not> (int (length ds) \<le> n \<and> n \<le> 21)" "\<not> (0 < n \<and> n \<le> 21)" "\<not> (- 6 < n \<and> n \<le> 0)"
      by auto
    then have l: "layout d e = take 1 ds @ (if int (length ds) = 1 then [] else 46 # drop 1 ds)
        @ 101 # (if n - 1 < 0 then 45 else 43) # dec (nat \<bar>n - 1\<bar>)"
      unfolding layout_def Let_def ds_def [symmetric] n by auto
    show thesis
    proof (cases "length ds = 1")
      case True
      then have "take 1 ds = ds" by simp
      with True l that(4) show thesis by simp
    next
      case False
      with l that(5) show thesis by simp
    qed
  qed
qed


text \<open>The reader on the three shapes of an unsigned number text.\<close>

definition read_mant :: "jstring \<Rightarrow> int \<Rightarrow> nat \<times> int" where
  "read_mant mant x =
    (let ip = takeWhile (\<lambda>c. c \<noteq> 46) mant; fp = drop 1 (dropWhile (\<lambda>c. c \<noteq> 46) mant)
     in strip_zeros (undec (ip @ fp)) (x - int (length fp)))"

definition read_exp :: "jstring \<Rightarrow> int" where
  "read_exp ex = (if ex = [] then 0
     else if take 1 ex = [45] then - int (undec (drop 1 ex)) else int (undec (drop 1 ex)))"

lemma read_mant_int: "46 \<notin> set m \<Longrightarrow> read_mant m x = strip_zeros (undec m) x"
  by (simp add: read_mant_def takeWhile_all)

lemma read_mant_point:
  "46 \<notin> set a \<Longrightarrow> read_mant (a @ 46 # b) x = strip_zeros (undec (a @ b)) (x - int (length b))"
  by (simp add: read_mant_def takeWhile_mark)

definition read_abs :: "jstring \<Rightarrow> nat \<times> int" where
  "read_abs b = read_mant (takeWhile (\<lambda>c. c \<noteq> 101) b) (read_exp (drop 1 (dropWhile (\<lambda>c. c \<noteq> 101) b)))"

lemma read_abs_plain: "101 \<notin> set b \<Longrightarrow> read_abs b = read_mant b 0"
  by (simp add: read_abs_def takeWhile_all read_exp_def)

lemma read_abs_exp: "101 \<notin> set m \<Longrightarrow> read_abs (m @ 101 # ex) = read_mant m (read_exp ex)"
  by (simp add: read_abs_def takeWhile_mark)

lemma read_num_abs:
  "read_num t = (let (d, e) = read_abs (if take 1 t = [45] then drop 1 t else t)
                 in Finite (take 1 t = [45]) d (if d = 0 then 0 else e))"
  by (simp add: read_num_def read_abs_def read_mant_def read_exp_def Let_def)

lemma read_exp_signed: "read_exp ((if x < 0 then 45 else 43) # dec (nat \<bar>x\<bar>)) = x"
  by (auto simp: read_exp_def)

lemma read_abs_layout:
  assumes d: "d mod 10 \<noteq> 0"
  shows "read_abs (layout d e) = (d, e)"
proof (cases d e rule: layout_cases)
  case 1
  then show ?thesis using dec_no_mark [of d] strip_zeros_shift [OF d, of "nat e" 0]
    by (simp add: read_abs_plain read_mant_int undec_append)
next
  case 2
  let ?n = "nat (e + int (length (dec d)))"
  from 2 have l: "int (length (drop ?n (dec d))) = - e" by simp
  have "read_abs (layout d e) = strip_zeros d (0 - int (length (drop ?n (dec d))))"
    unfolding 2(1) using not_in_take [OF dec_no_mark(1) [of d]] not_in_take [OF dec_no_mark(2) [of d]]
    by (subst read_abs_plain) (auto simp: read_mant_point simp del: length_drop)
  then show ?thesis unfolding l using strip_zeros_shift [OF d, of 0] by simp
next
  case 3
  let ?z = "replicate (nat (- (e + int (length (dec d))))) (48 :: code_unit)"
  have l: "layout d e = [48] @ 46 # (?z @ dec d)" using 3(1) by simp
  have "101 \<notin> set ([48] @ 46 # (?z @ dec d))" using dec_no_mark(1) [of d] by simp
  then have "read_abs (layout d e) = read_mant ([48] @ 46 # (?z @ dec d)) 0"
    unfolding l by (rule read_abs_plain)
  also have "\<dots> = strip_zeros (undec ([48] @ ?z @ dec d)) (0 - int (length (?z @ dec d)))"
    by (rule read_mant_point) simp
  also have "undec ([48] @ ?z @ dec d) = d"
    by (simp only: undec_append undec_one_zero undec_zeros undec_dec mult_zero_left add_0)
  finally have "read_abs (layout d e) = strip_zeros d (0 - int (length (?z @ dec d)))" .
  then show ?thesis using 3(2) strip_zeros_shift [OF d, of 0] by simp
next
  case 4
  have "read_abs (layout d e) = read_mant (dec d) (e + int (length (dec d)) - 1)"
    unfolding 4(2) using dec_no_mark(1) [of d] by (simp only: read_abs_exp read_exp_signed not_False_eq_True)
  then show ?thesis using 4(1) dec_no_mark [of d] strip_zeros_shift [OF d, of 0]
    by (simp add: read_mant_int)
next
  case 5
  let ?x = "e + int (length (dec d)) - 1"
  have m: "101 \<notin> set (take 1 (dec d) @ 46 # drop 1 (dec d))" "46 \<notin> set (take 1 (dec d))"
    using dec_no_mark [of d] by (auto dest: in_set_takeD in_set_dropD)
  have "take 1 (dec d) @ 46 # drop 1 (dec d) @ 101 # r
      = (take 1 (dec d) @ 46 # drop 1 (dec d)) @ 101 # r" for r by simp
  then have "read_abs (layout d e)
      = strip_zeros (undec (take 1 (dec d) @ drop 1 (dec d))) (?x - int (length (drop 1 (dec d))))"
    unfolding 5(2) using m
    by (simp only: read_abs_exp read_exp_signed read_mant_point not_False_eq_True)
  moreover obtain c r where "dec d = c # r" by (cases "dec d") auto
  then have "?x - int (length (drop 1 (dec d))) = e" by simp
  ultimately show ?thesis using strip_zeros_shift [OF d, of 0] by simp
qed

lemma layout_head: "\<exists>c r. layout d e = c # r \<and> c \<noteq> 45"
proof -
  obtain c r where c: "dec d = c # r" by (cases "dec d") auto
  with dec_no_mark(3) [of d] have "c \<noteq> 45" by auto
  with c show ?thesis
    by (cases d e rule: layout_cases) (auto simp: take_Cons split: nat.splits)
qed

text \<open>The text of a finite number determines it, up to the sign of zero.\<close>

lemma read_num_text:
  assumes "wf_num x" "finite_num x" "x \<noteq> Finite True 0 0"
  shows "read_num (num_text x) = x"
proof -
  obtain s d e where x: "x = Finite s d e" using assms by (cases x) (auto simp: finite_num_def)
  show ?thesis
  proof (cases "d = 0")
    case True
    with x assms show ?thesis
      by (auto simp: wf_num_def num_text_def read_num_abs read_abs_plain read_mant_int undec_def
          digit_val_def strip_zeros.simps)
  next
    case False
    with x assms have "read_abs (layout d e) = (d, e)" by (intro read_abs_layout) (simp add: wf_num_def)
    then show ?thesis using False x layout_head [of d e]
      by (auto simp: num_text_def read_num_abs sign_text_def)
  qed
qed


section \<open>Strings as text\<close>

definition hex4 :: "nat \<Rightarrow> jstring" where
  "hex4 n = [hex_lower (n div 4096 mod 16), hex_lower (n div 256 mod 16),
             hex_lower (n div 16 mod 16), hex_lower (n mod 16)]"

text \<open>
  One code point inside a JSON string literal: the short escapes, \<open>\u00xx\<close> for the other
  control characters, \<open>\udxxx\<close> for a lone surrogate, itself otherwise.
\<close>

definition esc_cp :: "nat \<Rightarrow> jstring" where
  "esc_cp n =
    (if n = 8 then [92, 98] else if n = 9 then [92, 116] else if n = 10 then [92, 110]
     else if n = 12 then [92, 102] else if n = 13 then [92, 114]
     else if n = 34 then [92, 34] else if n = 92 then [92, 92]
     else if n < 32 \<or> (0xD800 \<le> n \<and> n \<le> 0xDFFF) then 92 # 117 # hex4 n
     else utf16 n)"

definition json_quote :: "jstring \<Rightarrow> jstring" where
  "json_quote s = 34 # concat (map esc_cp (code_points s)) @ [34]"

text \<open>Reading one escaped code point back, the inverse the injectivity proofs use.\<close>

definition unhex4 :: "code_unit \<Rightarrow> code_unit \<Rightarrow> code_unit \<Rightarrow> code_unit \<Rightarrow> nat" where
  "unhex4 a b c d = the (hex_val a) * 4096 + the (hex_val b) * 256 + the (hex_val c) * 16
                    + the (hex_val d)"

definition unesc :: "jstring \<Rightarrow> (nat \<times> jstring) option" where
  "unesc t = (case t of
      [] \<Rightarrow> None
    | c # r \<Rightarrow>
        if c = 34 then None
        else if c = 92 then
          (case r of
             [] \<Rightarrow> None
           | x # r' \<Rightarrow>
               if x = 117 then
                 (case r' of a # b # c # d # r'' \<Rightarrow> Some (unhex4 a b c d, r'') | _ \<Rightarrow> None)
               else Some (if x = 98 then 8 else if x = 116 then 9 else if x = 110 then 10
                          else if x = 102 then 12 else if x = 114 then 13 else unat x, r'))
        else (case r of
            d # r' \<Rightarrow> if is_high c \<and> is_low d then Some (pair_cp c d, r') else Some (unat c, r)
          | [] \<Rightarrow> Some (unat c, r)))"

lemma unhex4_hex4: "n < 0x10000 \<Longrightarrow> hex4 n = [a, b, c, d] \<Longrightarrow> unhex4 a b c d = n"
proof -
  assume n: "n < 0x10000" and h: "hex4 n = [a, b, c, d]"
  have "unhex4 a b c d = n div 4096 mod 16 * 4096 + n div 256 mod 16 * 256 + n div 16 mod 16 * 16
      + n mod 16" using h by (auto simp: hex4_def unhex4_def)
  also have "\<dots> = n"
  proof -
    have "n div 16 div 16 = n div 256" "n div 256 div 16 = n div 4096"
      by (simp_all add: div_mult2_eq [symmetric])
    then have "n = n div 16 * 16 + n mod 16" "n div 16 = n div 256 * 16 + n div 16 mod 16"
      "n div 256 = n div 4096 * 16 + n div 256 mod 16"
      by (metis div_mult_mod_eq)+
    moreover have "n div 4096 mod 16 = n div 4096" using n by simp
    ultimately show ?thesis by linarith
  qed
  finally show ?thesis .
qed

lemma code_points_bound: "n \<in> set (code_points s) \<Longrightarrow> n < 0x110000"
proof (induction s rule: code_points.induct)
  case (2 c)
  then show ?case using unat_code_unit [of c] by simp
next
  case (3 c d s)
  have "pair_cp c d < 0x110000" if "is_high c" "is_low d"
    using that by (auto simp: pair_cp_def surrogate_defs)
  with 3 show ?case using unat_code_unit [of c] by (auto split: if_splits)
qed simp

lemma utf16_pair:
  assumes "0x10000 \<le> n" "n < 0x110000"
  obtains h l where "utf16 n = [h, l]" "is_high h" "is_low l" "pair_cp h l = n"
proof -
  have sc: "scalar n" using assms by (simp add: scalar_def)
  obtain h l where u: "utf16 n = [h, l]" using assms by (simp add: utf16_def)
  have "code_points (utf16 n @ []) = [n]" using code_points_utf16 [OF sc, of "[]"] by simp
  with u have "code_points [h, l] = [n]" by simp
  then have "is_high h \<and> is_low l" "pair_cp h l = n" by (auto split: if_splits)
  with u that show thesis by blast
qed

lemma unat_cu: "n < 0x10000 \<Longrightarrow> unat (of_nat n :: code_unit) = n"
  by (simp add: unat_of_nat)

lemma unesc_esc_cp:
  assumes "n < 0x110000"
  shows "unesc (esc_cp n @ r) = Some (n, r)"
proof -
  consider (short) "n \<in> {8, 9, 10, 12, 13, 34, 92}"
    | (hex) "n \<notin> {8, 9, 10, 12, 13, 34, 92}" "n < 32 \<or> (0xD800 \<le> n \<and> n \<le> 0xDFFF)"
    | (one) "n \<notin> {34, 92}" "32 \<le> n" "n < 0xD800 \<or> 0xDFFF < n" "n < 0x10000"
    | (two) "0x10000 \<le> n"
    by force
  then show ?thesis
  proof cases
    case short
    then show ?thesis by (auto simp: esc_cp_def unesc_def)
  next
    case hex
    obtain a b c d where h: "hex4 n = [a, b, c, d]" by (simp add: hex4_def)
    from hex have n: "n < 0x10000" by auto
    from hex h have "esc_cp n = [92, 117, a, b, c, d]" by (simp add: esc_cp_def)
    with unhex4_hex4 [OF n h] show ?thesis by (simp add: unesc_def)
  next
    case one
    then have e: "esc_cp n = [of_nat n]" by (auto simp: esc_cp_def utf16_def)
    have "\<not> is_high (of_nat n)" using one by (auto simp: surrogate_defs unat_cu)
    moreover have "(of_nat n :: code_unit) \<noteq> 34" "(of_nat n :: code_unit) \<noteq> 92"
      using one by (auto simp: word_eq_unat unat_cu)
    ultimately show ?thesis using one unfolding e
      by (auto simp: unesc_def unat_cu split: list.splits)
  next
    case two
    obtain h l where u: "utf16 n = [h, l]" "is_high h" "is_low l" "pair_cp h l = n"
      using utf16_pair [OF two assms] .
    from two u have "esc_cp n = [h, l]" by (simp add: esc_cp_def)
    moreover have "h \<noteq> 34" "h \<noteq> 92" using u(2) by (auto simp: surrogate_defs)
    ultimately show ?thesis using u by (simp add: unesc_def)
  qed
qed

lemma esc_list_inject:
  assumes "\<forall>n \<in> set ns. n < 0x110000" "\<forall>m \<in> set ms. m < 0x110000"
    and "concat (map esc_cp ns) @ 34 # x = concat (map esc_cp ms) @ 34 # y"
  shows "ns = ms \<and> x = y"
  using assms
proof (induction ns arbitrary: ms)
  case Nil
  then show ?case
  proof (cases ms)
    case (Cons m ms')
    with Nil have "unesc (34 # x) = Some (m, concat (map esc_cp ms') @ 34 # y)"
      by (simp add: unesc_esc_cp)
    then show ?thesis by (simp add: unesc_def)
  qed simp
next
  case (Cons n ns)
  have n: "unesc (concat (map esc_cp (n # ns)) @ 34 # x) = Some (n, concat (map esc_cp ns) @ 34 # x)"
    using Cons.prems(1) by (simp add: unesc_esc_cp)
  show ?case
  proof (cases ms)
    case Nil
    with Cons.prems n show ?thesis by (simp add: unesc_def)
  next
    case ms: (Cons m ms')
    with Cons.prems n have "n = m" "concat (map esc_cp ns) @ 34 # x = concat (map esc_cp ms') @ 34 # y"
      by (simp_all add: unesc_esc_cp)
    with Cons.IH [of ms'] Cons.prems ms show ?thesis by simp
  qed
qed

lemma json_quote_prefix:
  "json_quote s @ x = json_quote t @ y \<Longrightarrow> s = t \<and> x = y"
  using esc_list_inject [of "code_points s" "code_points t" x y] code_points_bound
  by (auto simp: json_quote_def code_points_inject)


section \<open>The canonical form\<close>

text \<open>Property values \<open>JSON.stringify\<close> and \<open>canonicalize\<close> leave out of an object.\<close>

definition omitted :: "jvalue \<Rightarrow> bool" where
  "omitted v = (case v of JUndefined \<Rightarrow> True | JFunction \<Rightarrow> True | JSymbol \<Rightarrow> True | _ \<Rightarrow> False)"

definition type_of :: "jvalue \<Rightarrow> jstring" where
  "type_of v = (case v of JUndefined \<Rightarrow> js ''undefined'' | JFunction \<Rightarrow> js ''function''
     | JSymbol \<Rightarrow> js ''symbol'' | JBool _ \<Rightarrow> js ''boolean'' | JNumber _ \<Rightarrow> js ''number''
     | JString _ \<Rightarrow> js ''string'' | JBigInt _ \<Rightarrow> js ''bigint'' | _ \<Rightarrow> js ''object'')"

text \<open>\<open>value === 0 ? 0 : value\<close>.\<close>

definition plus_zero :: "jnum \<Rightarrow> jnum" where
  "plus_zero x = (if x = Finite True 0 0 then Finite False 0 0 else x)"

definition bracketed :: "code_unit \<Rightarrow> jstring list \<Rightarrow> code_unit \<Rightarrow> jstring" where
  "bracketed l ps r = l # join_with [44] ps @ [r]"

text \<open>The branches of \<open>writeValue\<close> for everything but objects and arrays.\<close>

fun write_prim :: "jvalue \<Rightarrow> exn + jstring" where
  "write_prim JNull = Inr (js ''null'')"
| "write_prim (JBool b) = Inr (if b then js ''true'' else js ''false'')"
| "write_prim (JNumber x) =
     (if \<not> finite_num x
      then Inl (CanonicalizationError (js ''non-finite number cannot be canonicalised: '' @ num_text x))
      else Inr (num_text (plus_zero x)))"
| "write_prim (JString s) = Inr (json_quote s)"
| "write_prim (JBigInt _) =
     Inl (CanonicalizationError (js ''bigint cannot be canonicalised; convert to string first''))"
| "write_prim v =
     Inl (CanonicalizationError (type_of v @ js '' cannot appear as a canonical JSON value''))"

lemma size_prop: "(k, x) \<in> set ps \<Longrightarrow> size x < Suc (size_list (size_prod (\<lambda>_. 0) size) ps)"
  by (induction ps) auto

function canonicalize :: "jvalue \<Rightarrow> exn + jstring" where
  "canonicalize (JArray xs) =
     bind_r (map_r (\<lambda>x. if omitted x then Inr (js ''null'') else canonicalize x) xs)
       (\<lambda>ps. Inr (bracketed 91 ps 93))"
| "canonicalize (JObject kvs) =
     bind_r (map_r (\<lambda>(k, x). bind_r (canonicalize x) (\<lambda>t. Inr (json_quote k @ 58 # t)))
               (filter (\<lambda>(k, x). \<not> omitted x) (sort_key fst kvs)))
       (\<lambda>ps. Inr (bracketed 123 ps 125))"
| "canonicalize JNull = write_prim JNull"
| "canonicalize (JBool b) = write_prim (JBool b)"
| "canonicalize (JNumber x) = write_prim (JNumber x)"
| "canonicalize (JString s) = write_prim (JString s)"
| "canonicalize (JBigInt i) = write_prim (JBigInt i)"
| "canonicalize JUndefined = write_prim JUndefined"
| "canonicalize JFunction = write_prim JFunction"
| "canonicalize JSymbol = write_prim JSymbol"
  by pat_completeness auto
termination
  by (relation "measure size") (auto simp: size_prop less_Suc_eq_le size_list_estimation')

text \<open>
  The normal form of a value: what two values with the same canonical text agree on. Keys are
  sorted, omitted properties are gone, omitted elements are \<open>null\<close>, \<open>-0\<close> is \<open>0\<close>.
\<close>

function normal :: "jvalue \<Rightarrow> jvalue" where
  "normal (JArray xs) = JArray (map (\<lambda>x. if omitted x then JNull else normal x) xs)"
| "normal (JObject kvs) =
     JObject (map (\<lambda>(k, x). (k, normal x)) (filter (\<lambda>(k, x). \<not> omitted x) (sort_key fst kvs)))"
| "normal (JNumber x) = JNumber (plus_zero x)"
| "normal JNull = JNull"
| "normal (JBool b) = JBool b"
| "normal (JString s) = JString s"
| "normal (JBigInt i) = JBigInt i"
| "normal JUndefined = JUndefined"
| "normal JFunction = JFunction"
| "normal JSymbol = JSymbol"
  by pat_completeness auto
termination
  by (relation "measure size") (auto simp: size_prop less_Suc_eq_le size_list_estimation')

text \<open>Values with a canonical form: no bigint, no non-finite number, nothing omitted at the top.\<close>

function canonical_ok :: "jvalue \<Rightarrow> bool" where
  "canonical_ok (JArray xs) = list_all (\<lambda>x. omitted x \<or> canonical_ok x) xs"
| "canonical_ok (JObject kvs) = list_all (\<lambda>(k, x). omitted x \<or> canonical_ok x) kvs"
| "canonical_ok (JNumber x) = finite_num x"
| "canonical_ok JNull = True"
| "canonical_ok (JBool b) = True"
| "canonical_ok (JString s) = True"
| "canonical_ok (JBigInt i) = False"
| "canonical_ok JUndefined = False"
| "canonical_ok JFunction = False"
| "canonical_ok JSymbol = False"
  by pat_completeness auto
termination
  by (relation "measure size") (auto simp: size_prop less_Suc_eq_le size_list_estimation')

text \<open>The text of a value in normal form.\<close>

fun ser :: "jvalue \<Rightarrow> jstring" where
  "ser (JArray xs) = bracketed 91 (map ser xs) 93"
| "ser (JObject kvs) = bracketed 123 (map (\<lambda>(k, x). json_quote k @ 58 # ser x) kvs) 125"
| "ser JNull = js ''null''"
| "ser (JBool b) = (if b then js ''true'' else js ''false'')"
| "ser (JNumber x) = num_text x"
| "ser (JString s) = json_quote s"
| "ser _ = []"


lemma map_r_map: "(\<And>x. x \<in> set xs \<Longrightarrow> f x = Inr (g x)) \<Longrightarrow> map_r f xs = Inr (map g xs)"
  by (induction xs) auto

lemma map_r_fails:
  assumes "\<And>x e. x \<in> set xs \<Longrightarrow> f x = Inl e \<Longrightarrow> P e" "x \<in> set xs" "f x = Inl e0"
  shows "\<exists>e. map_r f xs = Inl e \<and> P e"
  using assms
proof (induction xs)
  case (Cons y ys)
  show ?case
  proof (cases "f y")
    case (Inl e)
    with Cons.prems(1) [of y e] show ?thesis by simp
  next
    case (Inr z)
    with Cons.prems have "x \<in> set ys" by auto
    with Cons obtain e where "map_r f ys = Inl e \<and> P e" by auto
    with Inr show ?thesis by simp
  qed
qed simp

definition is_canon_error :: "exn \<Rightarrow> bool" where
  "is_canon_error e = (case e of CanonicalizationError _ \<Rightarrow> True | _ \<Rightarrow> False)"

lemma canonicalize_Inr: "canonical_ok v \<Longrightarrow> canonicalize v = Inr (ser (normal v))"
proof (induction v rule: canonicalize.induct)
  case (1 xs)
  then have "map_r (\<lambda>x. if omitted x then Inr (js ''null'') else canonicalize x) xs
      = Inr (map (\<lambda>x. ser (if omitted x then JNull else normal x)) xs)"
    by (intro map_r_map) (auto simp: list_all_iff)
  then show ?case by (simp add: comp_def)
next
  case (2 kvs)
  let ?f = "filter (\<lambda>(k, x). \<not> omitted x) (sort_key fst kvs)"
  from 2 have "map_r (\<lambda>(k, x). bind_r (canonicalize x) (\<lambda>t. Inr (json_quote k @ 58 # t))) ?f
      = Inr (map (\<lambda>(k, x). json_quote k @ 58 # ser (normal x)) ?f)"
    by (intro map_r_map) (force simp: list_all_iff)
  then show ?case by (simp add: comp_def case_prod_unfold)
qed simp_all

lemma canonicalize_Inl: "\<not> canonical_ok v \<Longrightarrow> \<exists>e. canonicalize v = Inl e \<and> is_canon_error e"
proof (induction v rule: canonicalize.induct)
  case (1 xs)
  let ?f = "\<lambda>x. if omitted x then Inr (js ''null'') else canonicalize x"
  from 1(2) obtain x where x: "x \<in> set xs" "\<not> omitted x" "\<not> canonical_ok x"
    by (auto simp: list_all_iff)
  with 1(1) obtain e where e: "?f x = Inl e" by force
  have "\<exists>e. map_r ?f xs = Inl e \<and> is_canon_error e"
  proof (rule map_r_fails [where f = ?f and x = x, OF _ x(1) e])
    fix y e assume y: "y \<in> set xs" "?f y = Inl e"
    then have "\<not> omitted y" by auto
    moreover from y this have "\<not> canonical_ok y" using canonicalize_Inr by force
    ultimately show "is_canon_error e" using 1(1) [of y] y by auto
  qed
  then show ?case by auto
next
  case (2 kvs)
  let ?g = "\<lambda>(k, x). bind_r (canonicalize x) (\<lambda>t. Inr (json_quote k @ 58 # t))"
  let ?s = "filter (\<lambda>(k, x). \<not> omitted x) (sort_key fst kvs)"
  from 2(2) obtain k x where x: "(k, x) \<in> set ?s" "\<not> canonical_ok x"
    by (auto simp: list_all_iff)
  with 2(1) obtain e where e: "?g (k, x) = Inl e" by force
  have "\<exists>e. map_r ?g ?s = Inl e \<and> is_canon_error e"
  proof (rule map_r_fails [where f = ?g and x = "(k, x)", OF _ x(1) e])
    fix y e assume y: "y \<in> set ?s" "?g y = Inl e"
    obtain j z where yz: "y = (j, z)" by (cases y)
    with y have z: "y = (j, z)" "canonicalize z = Inl e" by (simp_all add: bind_r_Inl_iff)
    then have "\<not> canonical_ok z" using canonicalize_Inr by force
    with 2(1) y z show "is_canon_error e" by force
  qed
  then show ?case by auto
qed (auto simp: is_canon_error_def)

lemma canonicalize_Inr_iff: "canonicalize v = Inr t \<longleftrightarrow> canonical_ok v \<and> t = ser (normal v)"
  using canonicalize_Inr [of v] canonicalize_Inl [of v] by (cases "canonical_ok v") auto

subsection \<open>The text determines the normal form\<close>

definition delim :: "jstring \<Rightarrow> bool" where
  "delim x = (x = [] \<or> hd x \<in> {44, 93, 125})"

lemma delim_simps [simp]: "delim []" "delim (c # r) \<longleftrightarrow> c \<in> {44, 93, 125}"
  by (auto simp: delim_def)

definition num_char :: "code_unit \<Rightarrow> bool" where
  "num_char c = (is_digit c \<or> c \<in> {43, 45, 46, 101})"

lemma num_char_delim: "num_char c \<Longrightarrow> c \<notin> {44, 93, 125}"
  by (auto simp: num_char_def is_digit_def)

lemma layout_chars: "c \<in> set (layout d e) \<Longrightarrow> num_char c"
  by (cases d e rule: layout_cases)
     (auto simp: num_char_def is_digit_def [of 48] dest: dec_digits in_set_takeD in_set_dropD
       split: if_splits)

lemma num_text_chars: "finite_num x \<Longrightarrow> c \<in> set (num_text x) \<Longrightarrow> num_char c"
  by (cases x)
     (auto simp: finite_num_def num_text_def sign_text_def num_char_def [of 45] num_char_def [of 48]
       is_digit_def [of 48] dest: layout_chars split: if_splits)

lemma num_text_not_Nil: "num_text x \<noteq> []"
proof (cases x)
  case (Finite s d e)
  obtain c r where "layout d e = c # r" using layout_head by blast
  with Finite show ?thesis by (simp add: num_text_def)
qed (simp_all add: num_text_def)

lemma num_text_prefix:
  assumes "finite_num a" "wf_num a" "a \<noteq> Finite True 0 0" "delim x"
    and "finite_num b" "wf_num b" "b \<noteq> Finite True 0 0" "delim y"
    and eq: "num_text a @ x = num_text b @ y"
  shows "a = b \<and> x = y"
proof -
  have tw: "takeWhile (\<lambda>c. c \<notin> {44, 93, 125}) (num_text n @ z) = num_text n"
    if "finite_num n" "delim z" for n z
  proof -
    have "\<forall>c \<in> set (num_text n). c \<notin> {44, 93, 125}"
      using num_text_chars [OF that(1)] num_char_delim by blast
    moreover have "takeWhile (\<lambda>c. c \<notin> {44, 93, 125}) z = []"
      using that(2) by (cases z) auto
    ultimately show ?thesis by (subst takeWhile_append2) auto
  qed
  from tw [of a x] tw [of b y] assms have "num_text a = num_text b" by metis
  with eq read_num_text assms show ?thesis by (metis same_append_eq)
qed

lemma join_with_Cons: "join_with s (p # ps) = p @ concat (map (\<lambda>q. s @ q) ps)"
  by (induction ps arbitrary: p) auto

lemma delim_tail: "r \<in> {93, 125} \<Longrightarrow> delim (concat (map (\<lambda>q. 44 # f q) ws) @ r # z)"
  by (cases ws) auto

lemma join_prefix:
  assumes inj: "\<And>a b x y. a \<in> set as \<Longrightarrow> b \<in> set bs \<Longrightarrow> delim x \<Longrightarrow> delim y \<Longrightarrow>
      f a @ x = f b @ y \<Longrightarrow> a = b \<and> x = y"
    and hd: "\<And>a. a \<in> set as \<union> set bs \<Longrightarrow> f a \<noteq> [] \<and> \<not> delim (f a)"
    and r: "r \<in> {93, 125}"
    and eq: "join_with [44] (map f as) @ r # x = join_with [44] (map f bs) @ r # y"
  shows "as = bs \<and> x = y"
proof -
  have tl: "us = vs \<and> x = y"
    if "set us \<subseteq> set as" "set vs \<subseteq> set bs"
      "concat (map (\<lambda>q. 44 # f q) us) @ r # x = concat (map (\<lambda>q. 44 # f q) vs) @ r # y"
    for us vs
    using that
  proof (induction us arbitrary: vs)
    case Nil
    then show ?case using r by (cases vs) auto
  next
    case (Cons u us)
    from Cons.prems(3) r obtain v vs' where vs: "vs = v # vs'" by (cases vs) auto
    have e: "f u @ concat (map (\<lambda>q. 44 # f q) us) @ r # x
        = f v @ concat (map (\<lambda>q. 44 # f q) vs') @ r # y"
      using Cons.prems(3) vs by simp
    have "u = v \<and> concat (map (\<lambda>q. 44 # f q) us) @ r # x
        = concat (map (\<lambda>q. 44 # f q) vs') @ r # y"
      by (rule inj [OF _ _ delim_tail [OF r] delim_tail [OF r] e]) (use Cons.prems vs in auto)
    with Cons.IH [of vs'] Cons.prems vs show ?case by simp
  qed
  have ne: "f a @ z \<noteq> r # w" if "a \<in> set as \<union> set bs" for a z w
    using hd [OF that] r by (cases "f a") auto
  show ?thesis
  proof (cases as)
    case Nil
    with eq ne [of "hd bs"] show ?thesis
      by (cases bs) (auto simp: join_with_Cons, metis)
  next
    case as: (Cons a as')
    show ?thesis
    proof (cases bs)
      case Nil
      with eq ne [of a] as show ?thesis by (auto simp: join_with_Cons)
    next
      case bs: (Cons b bs')
      from eq as bs have e: "f a @ concat (map (\<lambda>q. 44 # f q) as') @ r # x
          = f b @ concat (map (\<lambda>q. 44 # f q) bs') @ r # y"
        by (simp add: join_with_Cons comp_def)
      have "a = b \<and> concat (map (\<lambda>q. 44 # f q) as') @ r # x
          = concat (map (\<lambda>q. 44 # f q) bs') @ r # y"
        by (rule inj [OF _ _ delim_tail [OF r] delim_tail [OF r] e]) (use as bs in auto)
      with tl [of as' bs'] as bs show ?thesis by auto
    qed
  qed
qed


text \<open>Normal forms of serialisable values, with well-formed numbers and distinct keys.\<close>

fun nf :: "jvalue \<Rightarrow> bool" where
  "nf (JArray xs) = list_all nf xs"
| "nf (JObject kvs) = list_all (\<lambda>(k, x). nf x) kvs"
| "nf (JNumber x) = (wf_num x \<and> finite_num x \<and> x \<noteq> Finite True 0 0)"
| "nf JNull = True"
| "nf (JBool b) = True"
| "nf (JString s) = True"
| "nf _ = False"

text \<open>The character a text starts with tells the kind of the value.\<close>

definition opens :: "jvalue \<Rightarrow> code_unit \<Rightarrow> bool" where
  "opens v c = (case v of JArray _ \<Rightarrow> c = 91 | JObject _ \<Rightarrow> c = 123 | JNumber _ \<Rightarrow> num_char c
     | JNull \<Rightarrow> c = 110 | JBool b \<Rightarrow> c = (if b then 116 else 102) | _ \<Rightarrow> c = 34)"

lemma ser_opens: "nf v \<Longrightarrow> \<exists>c r. ser v = c # r \<and> opens v c"
proof (cases v)
  case (JNumber x)
  assume "nf v"
  with JNumber have "finite_num x" by simp
  moreover obtain c r where "num_text x = c # r" using num_text_not_Nil [of x] by (cases "num_text x") auto
  ultimately show ?thesis using JNumber num_text_chars [of x c] by (simp add: opens_def)
qed (auto simp: opens_def bracketed_def json_quote_def js_def)

lemma opens_not_delim: "opens v c \<Longrightarrow> c \<notin> {44, 93, 125}"
  by (auto simp: opens_def num_char_def is_digit_def split: jvalue.splits if_splits)

lemma not_num_char [simp]:
  "\<not> num_char 91" "\<not> num_char 123" "\<not> num_char 110" "\<not> num_char 116" "\<not> num_char 102" "\<not> num_char 34"
  by (simp_all add: num_char_def is_digit_def)

lemma ser_not_delim: "nf v \<Longrightarrow> ser v \<noteq> [] \<and> \<not> delim (ser v)"
  using ser_opens [of v] opens_not_delim by fastforce

lemma ser_same_kind:
  assumes "nf v" "nf w" "ser v @ x = ser w @ y"
  obtains c where "opens v c" "opens w c"
  using assms ser_opens [of v] ser_opens [of w] by fastforce

lemma ser_prefix:
  "nf v \<Longrightarrow> nf w \<Longrightarrow> delim x \<Longrightarrow> delim y \<Longrightarrow> ser v @ x = ser w @ y \<Longrightarrow> v = w \<and> x = y"
proof (induction v arbitrary: w x y)
  case (JArray vs)
  obtain c where "opens (JArray vs) c" "opens w c"
    using ser_same_kind [OF JArray.prems(1,2,5)] .
  with JArray.prems(2) obtain ws where w: "w = JArray ws"
    by (cases w) (auto simp: opens_def split: if_splits)
  have "vs = ws \<and> x = y"
  proof (rule join_prefix [where f = ser and r = 93])
    show "a = b \<and> x' = y'" if "a \<in> set vs" "b \<in> set ws" "delim x'" "delim y'"
      "ser a @ x' = ser b @ y'" for a b x' y'
      using JArray.IH [OF that(1) _ _ that(3-5)] that(1,2) JArray.prems(1,2) w
      by (auto simp: list_all_iff)
    show "ser a \<noteq> [] \<and> \<not> delim (ser a)" if "a \<in> set vs \<union> set ws" for a
      using that JArray.prems(1,2) w by (intro ser_not_delim) (auto simp: list_all_iff)
  qed (use JArray.prems(5) w in \<open>auto simp: bracketed_def\<close>)
  with w show ?case by simp
next
  case (JObject vs)
  let ?f = "\<lambda>(k, x). json_quote k @ 58 # ser x"
  obtain c where "opens (JObject vs) c" "opens w c"
    using ser_same_kind [OF JObject.prems(1,2,5)] .
  with JObject.prems(2) obtain ws where w: "w = JObject ws"
    by (cases w) (auto simp: opens_def split: if_splits)
  have "vs = ws \<and> x = y"
  proof (rule join_prefix [where f = ?f and r = 125])
    show "a = b \<and> x' = y'" if "a \<in> set vs" "b \<in> set ws" "delim x'" "delim y'"
      "?f a @ x' = ?f b @ y'" for a b x' y'
    proof -
      obtain j u k v where ab: "a = (j, u)" "b = (k, v)" by (cases a, cases b)
      with that(5) have "json_quote j @ (58 # ser u @ x') = json_quote k @ (58 # ser v @ y')" by simp
      from json_quote_prefix [OF this] have e: "j = k" "ser u @ x' = ser v @ y'" by simp_all
      from that(1,2) ab JObject.prems(1,2) w have "nf u" "nf v" by (auto simp: list_all_iff)
      with JObject.IH [of a u v x' y'] e that ab show ?thesis by simp
    qed
    show "?f a \<noteq> [] \<and> \<not> delim (?f a)" if "a \<in> set vs \<union> set ws" for a
      by (cases a) (simp add: json_quote_def)
  qed (use JObject.prems(5) w in \<open>auto simp: bracketed_def\<close>)
  with w show ?case by simp
next
  case (JString s)
  obtain c where "opens (JString s) c" "opens w c" using ser_same_kind [OF JString.prems(1,2,5)] .
  with JString.prems(2) obtain t where w: "w = JString t"
    by (cases w) (auto simp: opens_def split: if_splits)
  with JString.prems(5) have "json_quote s @ x = json_quote t @ y" by simp
  from json_quote_prefix [OF this] w show ?case by simp
next
  case (JNumber n)
  obtain c where "opens (JNumber n) c" "opens w c" using ser_same_kind [OF JNumber.prems(1,2,5)] .
  with JNumber.prems(2) obtain m where w: "w = JNumber m"
    by (cases w) (auto simp: opens_def split: if_splits)
  with JNumber.prems num_text_prefix [of n x m y] show ?case by simp
next
  case JNull
  obtain c where "opens JNull c" "opens w c" using ser_same_kind [OF JNull.prems(1,2,5)] .
  with JNull.prems show ?case
    by (cases w) (auto simp: opens_def split: if_splits)
next
  case (JBool b)
  obtain c where "opens (JBool b) c" "opens w c" using ser_same_kind [OF JBool.prems(1,2,5)] .
  with JBool.prems show ?case
    by (cases w) (auto simp: opens_def split: if_splits)
qed simp_all


subsection \<open>Equality of canonical texts\<close>

text \<open>Numbers are in shortest form, and objects have distinct keys.\<close>

fun wf_value :: "jvalue \<Rightarrow> bool" where
  "wf_value (JArray xs) = list_all wf_value xs"
| "wf_value (JObject kvs) = (wf_props kvs \<and> list_all (\<lambda>(k, x). wf_value x) kvs)"
| "wf_value (JNumber x) = wf_num x"
| "wf_value _ = True"

lemma nf_normal: "canonical_ok v \<Longrightarrow> wf_value v \<Longrightarrow> nf (normal v)"
proof (induction v rule: canonical_ok.induct)
  case (2 kvs)
  then show ?case by (fastforce simp: list_all_iff)
qed (auto simp: list_all_iff plus_zero_def wf_num_def finite_num_def)

lemma canonicalize_normal:
  assumes "wf_value v" "wf_value w" "canonicalize v = Inr t" "canonicalize w = Inr t'"
  shows "t = t' \<longleftrightarrow> normal v = normal w"
  using ser_prefix [of "normal v" "normal w" "[]" "[]"] nf_normal assms
  by (auto simp: canonicalize_Inr_iff)

definition kept_props :: "jvalue props \<Rightarrow> jvalue props" where
  "kept_props kvs = filter (\<lambda>(k, x). \<not> omitted x) kvs"

lemma sort_key_map_snd: "sort_key fst (map (\<lambda>(k, x). (k, f x)) kvs) = map (\<lambda>(k, x). (k, f x)) (sort_key fst kvs)"
proof -
  have "map (\<lambda>(k, x). (k, f x)) (insort_key fst p xs)
      = insort_key fst ((\<lambda>(k, x). (k, f x)) p) (map (\<lambda>(k, x). (k, f x)) xs)" for p xs
    by (induction xs) (auto split: prod.splits)
  note ins = this
  show ?thesis by (induction kvs) (simp_all add: ins)
qed

lemma normal_object: "normal (JObject kvs) = JObject (sort_key fst (map (\<lambda>(k, x). (k, normal x)) (kept_props kvs)))"
  by (simp add: sort_key_map_snd kept_props_def filter_sort)

lemma normal_object_eq_iff:
  assumes "wf_props kvs" "wf_props kvs'"
  shows "normal (JObject kvs) = normal (JObject kvs') \<longleftrightarrow>
    mset (map (\<lambda>(k, x). (k, normal x)) (kept_props kvs)) = mset (map (\<lambda>(k, x). (k, normal x)) (kept_props kvs'))"
    (is "_ \<longleftrightarrow> mset ?a = mset ?b")
proof
  assume "normal (JObject kvs) = normal (JObject kvs')"
  then have "sort_key fst ?a = sort_key fst ?b" by (simp only: normal_object jvalue.inject)
  then show "mset ?a = mset ?b" by (metis mset_sort)
next
  assume m: "mset ?a = mset ?b"
  have "map fst ?a = map fst (kept_props kvs)" by (simp add: comp_def case_prod_unfold)
  moreover have "distinct (map fst (kept_props kvs))"
    using assms(1) by (simp add: wf_props_def kept_props_def distinct_map_filter)
  ultimately have "inj_on fst (set ?a)" by (metis distinct_map)
  with m have "sort_key fst ?a = sort_key fst ?b" by (rule sort_key_eq_sort_key)
  then show "normal (JObject kvs) = normal (JObject kvs')" by (simp only: normal_object)
qed


section \<open>The writer over shared objects\<close>

text \<open>
  \<open>writeValue\<close> walks references and keeps the set of objects it is inside. A heap is a list of
  objects, a reference an index; the measure is the number of objects not yet entered.
\<close>

datatype hval = HPrim jvalue | HRef nat
datatype hobj = HArray "hval list" | HObject "hval props"

definition h_omitted :: "hval \<Rightarrow> bool" where
  "h_omitted x = (case x of HPrim v \<Rightarrow> omitted v | HRef _ \<Rightarrow> False)"

definition circular :: exn where
  "circular = CanonicalizationError (js ''cannot canonicalise a circular structure'')"

function write_value :: "hobj list \<Rightarrow> nat set \<Rightarrow> hval \<Rightarrow> exn + jstring" where
  "write_value h seen (HPrim v) = write_prim v"
| "write_value h seen (HRef r) =
     (if \<not> r < length h then Inl TypeError
      else if r \<in> seen then Inl circular
      else case h ! r of
        HArray xs \<Rightarrow>
          bind_r (map_r (\<lambda>x. if h_omitted x then Inr (js ''null'')
                             else write_value h (insert r seen) x) xs)
            (\<lambda>ps. Inr (bracketed 91 ps 93))
      | HObject kvs \<Rightarrow>
          bind_r (map_r (\<lambda>(k, x). bind_r (write_value h (insert r seen) x)
                                    (\<lambda>t. Inr (json_quote k @ 58 # t)))
                    (filter (\<lambda>(k, x). \<not> h_omitted x) (sort_key fst kvs)))
            (\<lambda>ps. Inr (bracketed 123 ps 125)))"
  by pat_completeness auto
termination
proof (relation "measure (\<lambda>(h, seen, v). card ({..<length h} - seen))", goal_cases)
  case (2 h seen r xs x)
  then have "{..<length h} - insert r seen \<subset> {..<length h} - seen" by auto
  then show ?case by (simp add: psubset_card_mono)
next
  case (3 h seen r kvs p k x)
  then have "{..<length h} - insert r seen \<subset> {..<length h} - seen" by auto
  then show ?case by (simp add: psubset_card_mono)
qed simp

declare write_value.simps(2) [simp del]

fun prim :: "jvalue \<Rightarrow> bool" where
  "prim (JArray _) = False"
| "prim (JObject _) = False"
| "prim _ = True"

text \<open>The tree a heap value stands for; a cyclic value stands for none.\<close>

inductive repr :: "hobj list \<Rightarrow> hval \<Rightarrow> jvalue \<Rightarrow> bool" for h where
  prim: "prim v \<Longrightarrow> repr h (HPrim v) v"
| array: "r < length h \<Longrightarrow> h ! r = HArray xs \<Longrightarrow> list_all2 (repr h) xs ts \<Longrightarrow>
    repr h (HRef r) (JArray ts)"
| object: "r < length h \<Longrightarrow> h ! r = HObject kvs \<Longrightarrow>
    list_all2 (\<lambda>p q. fst p = fst q \<and> repr h (snd p) (snd q)) kvs kts \<Longrightarrow>
    repr h (HRef r) (JObject kts)"

inductive_cases repr_PrimE: "repr h (HPrim v) t"
inductive_cases repr_RefE: "repr h (HRef r) t"

lemma list_all2_unique:
  "list_all2 (\<lambda>x y. \<forall>z. R x z \<longrightarrow> y = z) xs ys \<Longrightarrow> list_all2 R xs zs \<Longrightarrow> ys = zs"
  by (induction xs arbitrary: ys zs) (auto simp: list_all2_Cons1)

lemma repr_unique: "repr h v t \<Longrightarrow> repr h v u \<Longrightarrow> t = u"
proof (induction v t arbitrary: u rule: repr.induct)
  case (array r xs ts)
  from array.prems array.hyps obtain us where u: "u = JArray us" "list_all2 (repr h) xs us"
    by (auto elim: repr_RefE)
  have "list_all2 (\<lambda>x y. \<forall>z. repr h x z \<longrightarrow> y = z) xs ts"
    by (rule list_all2_mono [OF array.IH]) blast
  from list_all2_unique [OF this u(2)] u show ?case by simp
next
  case (object r kvs kts)
  let ?R = "\<lambda>p q. fst p = fst q \<and> repr h (snd p) (snd q)"
  from object.prems object.hyps obtain us where u: "u = JObject us" "list_all2 ?R kvs us"
    by (auto elim: repr_RefE)
  have "list_all2 (\<lambda>x y. \<forall>z. ?R x z \<longrightarrow> y = z) kvs kts"
    by (rule list_all2_mono [OF object.IH]) (auto simp: prod_eq_iff)
  from list_all2_unique [OF this u(2)] u show ?case by simp
qed (auto elim: repr_PrimE)

lemma repr_omitted: "repr h v t \<Longrightarrow> h_omitted v \<longleftrightarrow> omitted t"
  by (auto simp: h_omitted_def omitted_def elim: repr.cases)

lemma list_all2_insort:
  assumes "\<And>a b. R a b \<Longrightarrow> fst a = fst b"
  shows "R p q \<Longrightarrow> list_all2 R xs ys \<Longrightarrow> list_all2 R (insort_key fst p xs) (insort_key fst q ys)"
proof (induction xs arbitrary: ys)
  case (Cons x xs)
  then obtain y ys' where "ys = y # ys'" "R x y" "list_all2 R xs ys'" by (auto simp: list_all2_Cons1)
  with Cons assms [of x y] assms [of p q] show ?case by simp
qed simp

lemma list_all2_sort:
  assumes "\<And>a b. R a b \<Longrightarrow> fst a = fst b" "list_all2 R xs ys"
  shows "list_all2 R (sort_key fst xs) (sort_key fst ys)"
  using assms(2) list_all2_insort [OF assms(1)]
  by (induction xs ys rule: list_all2_induct) (auto simp: sort_key_def)

lemma list_all2_filter:
  "list_all2 R xs ys \<Longrightarrow> (\<And>a b. R a b \<Longrightarrow> P a = Q b) \<Longrightarrow> list_all2 R (filter P xs) (filter Q ys)"
  by (induction xs ys rule: list_all2_induct) auto

lemma map_r_all2: "list_all2 (\<lambda>x y. f x = g y) xs ys \<Longrightarrow> map_r f xs = map_r g ys"
  by (induction xs ys rule: list_all2_induct) auto

lemma list_all2_mono_set:
  "list_all2 R xs ys \<Longrightarrow> (\<And>x y. x \<in> set xs \<Longrightarrow> y \<in> set ys \<Longrightarrow> R x y \<Longrightarrow> S x y) \<Longrightarrow> list_all2 S xs ys"
  by (induction xs ys rule: list_all2_induct) auto

lemma list_all2_ex: "(\<And>x. x \<in> set xs \<Longrightarrow> \<exists>y. R x y) \<Longrightarrow> \<exists>ys. list_all2 R xs ys"
proof (induction xs)
  case (Cons x xs)
  from Cons.prems obtain y where "R x y" by (meson list.set_intros(1))
  moreover from Cons obtain ys where "list_all2 R xs ys" by auto
  ultimately show ?case by (intro exI [of _ "y # ys"]) simp
qed auto

lemma list_all2_left: "list_all2 R xs ys \<Longrightarrow> x \<in> set xs \<Longrightarrow> \<exists>y. R x y"
  by (induction xs ys rule: list_all2_induct) auto


lemma size_array_elem: "t \<in> set ts \<Longrightarrow> size t < size (JArray ts)"
  by (simp add: less_Suc_eq_le size_list_estimation')

text \<open>Every object the walk is inside stands for a larger tree.\<close>

definition inside :: "hobj list \<Rightarrow> jvalue \<Rightarrow> nat set \<Rightarrow> bool" where
  "inside h t seen = (\<forall>r \<in> seen. \<forall>u. repr h (HRef r) u \<longrightarrow> size t < size u)"

lemma inside_self: "repr h (HRef r) t \<Longrightarrow> inside h t seen \<Longrightarrow> r \<notin> seen"
  by (auto simp: inside_def)

lemma inside_insert:
  "repr h (HRef r) t \<Longrightarrow> inside h t seen \<Longrightarrow> size u < size t \<Longrightarrow> inside h u (insert r seen)"
  unfolding inside_def by (metis insert_iff order.strict_trans repr_unique)

lemma write_value_repr:
  "repr h v t \<Longrightarrow> \<forall>seen. inside h t seen \<longrightarrow> write_value h seen v = canonicalize t"
proof (induction v t rule: repr.induct)
  case (prim v)
  then show ?case by (cases v) auto
next
  case (array r xs ts)
  have rep: "repr h (HRef r) (JArray ts)"
    using array.hyps array.IH by (intro repr.array) (auto elim: list_all2_mono)
  show ?case
  proof (intro allI impI)
    fix seen assume ins: "inside h (JArray ts) seen"
    have "map_r (\<lambda>x. if h_omitted x then Inr (js ''null'') else write_value h (insert r seen) x) xs
        = map_r (\<lambda>x. if omitted x then Inr (js ''null'') else canonicalize x) ts"
      by (rule map_r_all2, rule list_all2_mono_set [OF array.IH])
         (use inside_insert [OF rep ins] size_array_elem repr_omitted in auto)
    then show "write_value h seen (HRef r) = canonicalize (JArray ts)"
      using array.hyps inside_self [OF rep ins] by (simp add: write_value.simps(2))
  qed
next
  case (object r kvs kts)
  have rep: "repr h (HRef r) (JObject kts)"
    using object.hyps object.IH by (intro repr.object) (auto elim: list_all2_mono)
  show ?case
  proof (intro allI impI)
    fix seen assume ins: "inside h (JObject kts) seen"
    let ?S = "\<lambda>p q. fst p = fst q \<and> repr h (snd p) (snd q)
        \<and> write_value h (insert r seen) (snd p) = canonicalize (snd q)"
    have sz: "size (snd q) < size (JObject kts)" if "q \<in> set kts" for q
      using size_prop [of "fst q" "snd q" kts] that by simp
    have "list_all2 ?S kvs kts"
      by (rule list_all2_mono_set [OF object.IH]) (use inside_insert [OF rep ins sz] in auto)
    then have "list_all2 ?S (sort_key fst kvs) (sort_key fst kts)"
      by (rule list_all2_sort [rotated]) simp
    then have "list_all2 ?S (filter (\<lambda>(k, x). \<not> h_omitted x) (sort_key fst kvs))
        (filter (\<lambda>(k, x). \<not> omitted x) (sort_key fst kts))"
      by (rule list_all2_filter) (use repr_omitted in \<open>auto simp: case_prod_unfold\<close>)
    then have "map_r (\<lambda>(k, x). bind_r (write_value h (insert r seen) x) (\<lambda>t. Inr (json_quote k @ 58 # t)))
          (filter (\<lambda>(k, x). \<not> h_omitted x) (sort_key fst kvs))
        = map_r (\<lambda>(k, x). bind_r (canonicalize x) (\<lambda>t. Inr (json_quote k @ 58 # t)))
          (filter (\<lambda>(k, x). \<not> omitted x) (sort_key fst kts))"
      by (intro map_r_all2) (erule list_all2_mono, auto simp: case_prod_unfold)
    then show "write_value h seen (HRef r) = canonicalize (JObject kts)"
      using object.hyps inside_self [OF rep ins] by (simp add: write_value.simps(2))
  qed
qed

lemma write_value_tree: "write_value h seen v = Inr s \<Longrightarrow> \<exists>t. repr h v t"
proof (induction h seen v arbitrary: s rule: write_value.induct)
  case (1 h seen v)
  then have "prim v" by (cases v) auto
  then show ?case by (blast intro: repr.prim)
next
  case (2 h seen r)
  from 2(3) have r: "r < length h" "r \<notin> seen" by (auto simp: write_value.simps(2) split: if_splits)
  have om: "\<exists>t. repr h x t" if "h_omitted x" for x
  proof -
    from that obtain v where "x = HPrim v" "prim v"
      by (cases x) (auto simp: h_omitted_def omitted_def split: jvalue.splits)
    then show ?thesis by (blast intro: repr.prim)
  qed
  show ?case
  proof (cases "h ! r")
    case (HArray xs)
    let ?f = "\<lambda>x. if h_omitted x then Inr (js ''null'') else write_value h (insert r seen) x"
    from 2(3) HArray r obtain ps where "map_r ?f xs = Inr ps"
      by (auto simp: write_value.simps(2) bind_r_Inr_iff)
    then have all: "list_all2 (\<lambda>x y. ?f x = Inr y) xs ps" by (simp add: map_r_Inr_iff)
    have "\<exists>t. repr h x t" if "x \<in> set xs" for x
    proof (cases "h_omitted x")
      case False
      from list_all2_left [OF all that] obtain y where "?f x = Inr y" by blast
      with False 2(1) [OF _ _ HArray that False] r show ?thesis by auto
    qed (rule om)
    then obtain ts where "list_all2 (repr h) xs ts" using list_all2_ex [of xs "repr h"] by auto
    with r HArray show ?thesis by (blast intro: repr.array)
  next
    case (HObject kvs)
    let ?g = "\<lambda>(k, x). bind_r (write_value h (insert r seen) x) (\<lambda>t. Inr (json_quote k @ 58 # t))"
    let ?xs = "filter (\<lambda>(k, x). \<not> h_omitted x) (sort_key fst kvs)"
    from 2(3) HObject r obtain ps where "map_r ?g ?xs = Inr ps"
      by (auto simp: write_value.simps(2) bind_r_Inr_iff)
    then have all: "list_all2 (\<lambda>x y. ?g x = Inr y) ?xs ps" by (simp add: map_r_Inr_iff)
    have "\<exists>q. fst p = fst q \<and> repr h (snd p) (snd q)" if "p \<in> set kvs" for p
    proof -
      obtain k x where p: "p = (k, x)" by (cases p)
      have "\<exists>t. repr h x t"
      proof (cases "h_omitted x")
        case False
        with that p have x: "(k, x) \<in> set ?xs" by simp
        from list_all2_left [OF all x] obtain y where "?g (k, x) = Inr y" by blast
        with 2(2) [OF _ _ HObject x] r show ?thesis by (auto simp: bind_r_Inr_iff)
      qed (rule om)
      with p show ?thesis by auto
    qed
    then obtain ts where "list_all2 (\<lambda>p q. fst p = fst q \<and> repr h (snd p) (snd q)) kvs ts"
      using list_all2_ex [of kvs "\<lambda>p q. fst p = fst q \<and> repr h (snd p) (snd q)"] by auto
    with r HObject show ?thesis by (blast intro: repr.object)
  qed
qed


section \<open>\<open>JSON.stringify\<close>\<close>

text \<open>Insertion order, \<open>null\<close> for non-finite numbers; \<open>None\<close> is the result \<open>undefined\<close>.\<close>

function stringify :: "jvalue \<Rightarrow> exn + jstring option" where
  "stringify (JArray xs) =
     bind_r (map_r stringify xs)
       (\<lambda>ps. Inr (Some (bracketed 91 (map (\<lambda>p. case p of None \<Rightarrow> js ''null'' | Some t \<Rightarrow> t) ps) 93)))"
| "stringify (JObject kvs) =
     bind_r (map_r (\<lambda>(k, x). bind_r (stringify x) (\<lambda>p. Inr (k, p))) kvs)
       (\<lambda>ps. Inr (Some (bracketed 123
          (concat (map (\<lambda>(k, p). case p of None \<Rightarrow> [] | Some t \<Rightarrow> [json_quote k @ 58 # t]) ps)) 125)))"
| "stringify (JNumber x) = Inr (Some (if finite_num x then num_text (plus_zero x) else js ''null''))"
| "stringify JNull = Inr (Some (js ''null''))"
| "stringify (JBool b) = Inr (Some (if b then js ''true'' else js ''false''))"
| "stringify (JString s) = Inr (Some (json_quote s))"
| "stringify (JBigInt i) = Inl TypeError"
| "stringify JUndefined = Inr None"
| "stringify JFunction = Inr None"
| "stringify JSymbol = Inr None"
  by pat_completeness auto
termination
  by (relation "measure size") (auto simp: size_prop less_Suc_eq_le size_list_estimation')

section \<open>Digests\<close>

text \<open>
  SHA-256 itself is OpenSSL's: a function from bytes to bytes, a parameter of every definition
  that hashes. Statements about hashes name the collision they would need.
\<close>

type_synonym hash_fun = "byte list \<Rightarrow> byte list"

definition sha256_hex :: "hash_fun \<Rightarrow> jstring \<Rightarrow> jstring" where
  "sha256_hex sha s = to_hex (sha (utf8 s))"

definition digest_of :: "hash_fun \<Rightarrow> jvalue \<Rightarrow> exn + jstring" where
  "digest_of sha v = bind_r (canonicalize v) (\<lambda>t. Inr (sha256_hex sha t))"

definition genesis_hash :: jstring where
  "genesis_hash = replicate 64 48"

text \<open>\<open>timingSafeEqual\<close> throws when the byte lengths differ.\<close>

definition hashes_equal :: "jstring \<Rightarrow> jstring \<Rightarrow> exn + bool" where
  "hashes_equal a b =
    (if length a \<noteq> length b then Inr False
     else if length (utf8 a) \<noteq> length (utf8 b) then Inl RangeError
     else Inr (utf8 a = utf8 b))"

definition collision :: "hash_fun \<Rightarrow> byte list \<Rightarrow> byte list \<Rightarrow> bool" where
  "collision sha a b = (a \<noteq> b \<and> sha a = sha b)"

subsection \<open>The canonical text is well-formed UTF-16\<close>

lemma well_formed_iff: "well_formed s \<longleftrightarrow> (\<exists>ns. list_all scalar ns \<and> s = of_code_points ns)"
  by (metis of_code_points_code_points well_formed_def well_formed_of_code_points)

lemma well_formed_append: "well_formed a \<Longrightarrow> well_formed b \<Longrightarrow> well_formed (a @ b)"
  unfolding well_formed_iff of_code_points_def by (metis concat_append list_all_append map_append)

lemma well_formed_Nil [simp]: "well_formed []"
  by (simp add: well_formed_def)

lemma well_formed_one: "c < 128 \<Longrightarrow> well_formed [c]"
  by (rule well_formed_ascii) simp

lemma well_formed_Cons: "c < 128 \<Longrightarrow> well_formed s \<Longrightarrow> well_formed (c # s)"
  using well_formed_append [OF well_formed_one] by fastforce

lemma well_formed_concat: "(\<And>x. x \<in> set xs \<Longrightarrow> well_formed x) \<Longrightarrow> well_formed (concat xs)"
  by (induction xs) (simp_all add: well_formed_append)

lemma hex_lower_ascii: "d < 16 \<Longrightarrow> hex_lower d < 128"
  by (simp add: hex_lower_def word_less_nat_alt unat_of_nat del: of_nat_add)

lemma well_formed_esc: "n < 0x110000 \<Longrightarrow> well_formed (esc_cp n)"
proof -
  assume n: "n < 0x110000"
  have u: "well_formed (utf16 n)" if "scalar n"
    unfolding well_formed_iff by (rule exI [of _ "[n]"]) (simp add: that of_code_points_def)
  have "well_formed (92 # 117 # hex4 n)"
    by (rule well_formed_ascii) (auto simp: hex4_def hex_lower_ascii)
  with u n show ?thesis
    by (auto simp: esc_cp_def scalar_def intro!: well_formed_Cons)
qed

lemma well_formed_quote: "well_formed (json_quote s)"
  unfolding json_quote_def
  by (auto intro!: well_formed_Cons well_formed_append well_formed_concat well_formed_esc
      dest: code_points_bound)

lemma well_formed_num: "finite_num x \<Longrightarrow> well_formed (num_text x)"
  by (rule well_formed_ascii)
     (auto dest!: num_text_chars simp: num_char_def is_digit_def word_less_nat_alt word_le_nat_alt)

lemma well_formed_join:
  "(\<And>p. p \<in> set ps \<Longrightarrow> well_formed p) \<Longrightarrow> l < 128 \<Longrightarrow> r < 128 \<Longrightarrow> well_formed (bracketed l ps r)"
  by (cases ps)
     (auto simp: bracketed_def join_with_Cons
       intro!: well_formed_Cons well_formed_append well_formed_concat)

lemma well_formed_null: "well_formed (js ''null'')"
  by (rule well_formed_ascii) (auto simp: js_def word_less_nat_alt)

lemma well_formed_ser: "canonical_ok v \<Longrightarrow> well_formed (ser (normal v))"
proof (induction v rule: canonical_ok.induct)
  case (1 xs)
  have "well_formed (ser (if omitted x then JNull else normal x))" if "x \<in> set xs" for x
    using 1 that well_formed_null by (auto simp: list_all_iff)
  then show ?case unfolding normal.simps ser.simps by (intro well_formed_join) auto
next
  case (2 kvs)
  show ?case unfolding normal.simps ser.simps
  proof (rule well_formed_join)
    fix p assume "p \<in> set (map (\<lambda>(k, x). json_quote k @ 58 # ser x) (map (\<lambda>(k, x). (k, normal x))
        (filter (\<lambda>(k, x). \<not> omitted x) (sort_key fst kvs))))"
    then obtain k x where p: "p = json_quote k @ 58 # ser (normal x)" "(k, x) \<in> set kvs" "\<not> omitted x"
      by auto
    with 2 have "well_formed (ser (normal x))" by (auto simp: list_all_iff)
    then show "well_formed p" unfolding p
      by (auto intro!: well_formed_append well_formed_Cons well_formed_quote)
  qed simp_all
next
  case (3 x)
  then have "finite_num (plus_zero x)" by (simp add: plus_zero_def finite_num_def)
  then show ?case by (simp add: well_formed_num)
qed (auto simp: js_def word_less_nat_alt well_formed_quote intro!: well_formed_ascii)

lemma well_formed_canonical: "canonicalize v = Inr t \<Longrightarrow> well_formed t"
  by (auto simp: canonicalize_Inr_iff intro: well_formed_ser)

lemma sha256_hex_inject:
  "well_formed s \<Longrightarrow> well_formed t \<Longrightarrow> sha256_hex sha s = sha256_hex sha t \<Longrightarrow>
    s = t \<or> collision sha (utf8 s) (utf8 t)"
  using utf8_inject [of s t] by (auto simp: sha256_hex_def to_hex_inject collision_def)


section \<open>Properties\<close>

text \<open>
  C39: the canonical text of a value determines it. Two values with well-formed numbers and
  distinct keys have the same canonical text exactly when they have the same normal form: the same
  data up to the order of keys, omitted properties and the sign of zero, at every depth.
\<close>

theorem canonical_text_determines_value:
  assumes "wf_value v" "wf_value w" "canonicalize v = Inr t" "canonicalize w = Inr u"
  shows "t = u \<longleftrightarrow> normal v = normal w"
  using canonicalize_normal [OF assms] .

lemma canonical_text_determines_value_witness:
  defines "v \<equiv> JObject [(js ''b'', JBool True), (js ''a'', JNull)]"
    and "w \<equiv> JObject [(js ''a'', JNull), (js ''c'', JUndefined), (js ''b'', JBool True)]"
  shows "wf_value v \<and> wf_value w \<and> canonicalize v = canonicalize w \<and> normal v = normal w"
proof -
  have ab: "js ''a'' < js ''b''" "js ''b'' < js ''c''" "js ''a'' < js ''c''"
    by (simp_all add: js_def word_less_nat_alt)
  have wf: "wf_value v" "wf_value w" using ab
    by (simp_all add: v_def w_def wf_props_def js_def)
  have n: "normal v = normal w"
    by (simp add: v_def w_def omitted_def js_def word_less_nat_alt word_le_nat_alt)
  have "canonicalize v = Inr (ser (normal v))" "canonicalize w = Inr (ser (normal w))"
    by (simp_all add: canonicalize_Inr_iff v_def w_def omitted_def)
  from canonical_text_determines_value [OF wf this] wf n this show ?thesis by simp
qed

text \<open>
  Canonicalisation ignores the insertion order of keys and nothing else: two objects have the
  same canonical text exactly when they have the same multiset of keys with normalised values,
  omitted properties aside.
\<close>

theorem canonical_objects_equal_iff:
  assumes "wf_value (JObject kvs)" "wf_value (JObject kvs')"
    and "canonical_ok (JObject kvs)" "canonical_ok (JObject kvs')"
  shows "canonicalize (JObject kvs) = canonicalize (JObject kvs') \<longleftrightarrow>
    mset (map (\<lambda>(k, x). (k, normal x)) (kept_props kvs)) = mset (map (\<lambda>(k, x). (k, normal x)) (kept_props kvs'))"
  using canonicalize_normal [OF assms(1,2) canonicalize_Inr [OF assms(3)] canonicalize_Inr [OF assms(4)]]
    normal_object_eq_iff [of kvs kvs'] canonicalize_Inr [OF assms(3)] canonicalize_Inr [OF assms(4)]
    assms(1,2)
  by simp

lemma canonical_objects_equal_iff_witness:
  "canonicalize (JObject [(js ''b'', JNull), (js ''a'', JBool True)])
   = canonicalize (JObject [(js ''a'', JBool True), (js ''z'', JFunction), (js ''b'', JNull)])"
  by (subst canonical_objects_equal_iff)
     (simp_all add: wf_props_def kept_props_def omitted_def js_def add_mset_commute)

text \<open>
  C40: the writer over shared objects with its set of enclosing objects succeeds exactly on the
  values that unfold to a finite tree, and then writes the canonical text of that tree; sharing
  without a cycle is accepted.
\<close>

theorem write_value_succeeds_iff:
  "write_value h {} v = Inr s \<longleftrightarrow> (\<exists>t. repr h v t \<and> canonicalize t = Inr s)"
proof -
  have "write_value h {} v = canonicalize t" if "repr h v t" for t
    using write_value_repr [OF that] by (simp add: inside_def)
  then show ?thesis using write_value_tree [of h "{}" v s] by fastforce
qed

text \<open>
  Equal argument digests mean equal arguments. If two values have the same digest, they have
  the same normal form, or their canonical texts are an explicit collision of the hash function.
\<close>

theorem digest_binds_value:
  assumes "wf_value v" "wf_value w" "digest_of sha v = Inr d" "digest_of sha w = Inr d"
  shows "normal v = normal w \<or>
    (\<exists>t u. canonicalize v = Inr t \<and> canonicalize w = Inr u \<and> collision sha (utf8 t) (utf8 u))"
proof -
  obtain t u where tu: "canonicalize v = Inr t" "canonicalize w = Inr u"
    "sha256_hex sha t = sha256_hex sha u"
    using assms(3,4) by (auto simp: digest_of_def bind_r_Inr_iff)
  with sha256_hex_inject well_formed_canonical have "t = u \<or> collision sha (utf8 t) (utf8 u)"
    by blast
  with tu canonicalize_normal [OF assms(1,2) tu(1,2)] show ?thesis by auto
qed

lemma digest_binds_value_witness:
  "normal (JArray [JNull]) = normal (JArray [JUndefined]) \<or>
    (\<exists>t u. canonicalize (JArray [JNull]) = Inr t \<and> canonicalize (JArray [JUndefined]) = Inr u
       \<and> collision (take 2) (utf8 t) (utf8 u))"
  by (rule digest_binds_value [of _ _ "take 2" "to_hex [91, 110]"])
     (simp_all add: digest_of_def omitted_def bracketed_def sha256_hex_def js_def utf8_def
       scalar_def utf8_cp_def surrogate_defs)


end
