(* ===== verification/CoreTypes.thy ===== *)
theory CoreTypes
  imports Json
begin

text \<open>
  The shared vocabulary of \<open>packages/mcp-core/src/types.ts\<close> and the error hierarchy of
  \<open>packages/mcp-core/src/errors.ts\<close>: domain records, the strictness order on obligations and its
  combination, and every error the gateway turns into a JSON-RPC response.
\<close>

section \<open>Choosing the strongest of several\<close>

text \<open>
  Obligations and severities are combined by the same loop: keep the running winner unless the
  candidate ranks strictly higher. The interface is a rank; the client is the loop.
\<close>

locale ranked =
  fixes rank :: "'a \<Rightarrow> nat" and bottom :: 'a
  assumes rank_inject: "rank a = rank b \<Longrightarrow> a = b"
    and rank_bottom: "rank bottom = 0"
begin

definition better :: "'a \<Rightarrow> 'a \<Rightarrow> 'a" where
  "better winner cand = (if rank winner < rank cand then cand else winner)"

definition winner_of :: "'a list \<Rightarrow> 'a" where
  "winner_of cands = fold (\<lambda>c w. better w c) cands bottom"

lemma rank_fold: "rank (fold (\<lambda>c w. better w c) cands w) = fold max (map rank cands) (rank w)"
  by (induction cands arbitrary: w) (auto simp: better_def max_def)

lemma rank_winner: "rank (winner_of cands) = Max (insert 0 (rank ` set cands))"
  unfolding winner_of_def rank_fold rank_bottom by (simp add: Max.set_eq_fold [symmetric])

lemma winner_ge: "c \<in> set cands \<Longrightarrow> rank c \<le> rank (winner_of cands)"
  unfolding rank_winner by (rule Max_ge) auto

lemma fold_member: "fold (\<lambda>c w. better w c) cands w \<in> insert w (set cands)"
  by (induction cands arbitrary: w) (auto simp: better_def)

lemma winner_member: "winner_of cands \<in> insert bottom (set cands)"
  unfolding winner_of_def by (rule fold_member)

lemma winner_set: "set cands = set cands' \<Longrightarrow> winner_of cands = winner_of cands'"
  by (rule rank_inject) (simp add: rank_winner)

lemma winner_append:
  "rank (winner_of (a @ b)) = max (rank (winner_of a)) (rank (winner_of b))"
  unfolding rank_winner set_append image_Un
  by (subst Max_Un [symmetric]) (auto intro: arg_cong [where f = Max])

end

section \<open>Obligations, verdicts, identities\<close>

datatype obligation = Allow | Review | Approve

definition obligation_rank :: "obligation \<Rightarrow> nat" where
  "obligation_rank w = (case w of Allow \<Rightarrow> 0 | Review \<Rightarrow> 1 | Approve \<Rightarrow> 2)"

instantiation obligation :: linorder
begin

definition less_eq_obligation :: "obligation \<Rightarrow> obligation \<Rightarrow> bool" where
  "less_eq_obligation a b = (obligation_rank a \<le> obligation_rank b)"

definition less_obligation :: "obligation \<Rightarrow> obligation \<Rightarrow> bool" where
  "less_obligation a b = (obligation_rank a < obligation_rank b)"

instance
  by standard (auto simp: less_eq_obligation_def less_obligation_def obligation_rank_def
      split: obligation.splits)

end

text \<open>\<open>strongestObligation\<close>: the loop, starting from \<open>allow\<close>.\<close>

fun strongest_from :: "obligation \<Rightarrow> obligation list \<Rightarrow> obligation" where
  "strongest_from winner [] = winner"
| "strongest_from winner (candidate # r) =
     strongest_from (if obligation_rank candidate > obligation_rank winner then candidate else winner) r"

definition strongest_obligation :: "obligation list \<Rightarrow> obligation" where
  "strongest_obligation obligations = strongest_from Allow obligations"

interpretation ob: ranked obligation_rank Allow
  by unfold_locales (auto simp: obligation_rank_def split: obligation.splits)

lemma strongest_winner: "strongest_obligation os = ob.winner_of os"
proof -
  have "strongest_from w os = fold (\<lambda>c w. ob.better w c) os w" for w
    by (induction os arbitrary: w) (auto simp: ob.better_def)
  then show ?thesis by (simp add: strongest_obligation_def ob.winner_of_def)
qed

definition obligation_text :: "obligation \<Rightarrow> jstring" where
  "obligation_text w = (case w of Allow \<Rightarrow> js ''allow'' | Review \<Rightarrow> js ''review''
     | Approve \<Rightarrow> js ''approve'')"

datatype verdict = VAllow | VDeny | VPending

definition verdict_text :: "verdict \<Rightarrow> jstring" where
  "verdict_text v = (case v of VAllow \<Rightarrow> js ''allow'' | VDeny \<Rightarrow> js ''deny''
     | VPending \<Rightarrow> js ''pending_approval'')"

datatype trust_tier = TierTrusted | TierStandard | TierUntrusted

definition trust_tier_text :: "trust_tier \<Rightarrow> jstring" where
  "trust_tier_text t = (case t of TierTrusted \<Rightarrow> js ''trusted'' | TierStandard \<Rightarrow> js ''standard''
     | TierUntrusted \<Rightarrow> js ''untrusted'')"

text \<open>The type is structural: \<open>ag_extra\<close> holds the further properties of a larger value.\<close>

record agent_identity =
  ag_id :: jstring
  ag_name :: "jstring option"
  ag_version :: "jstring option"
  ag_trustTier :: trust_tier
  ag_authenticated :: bool
  ag_extra :: "jvalue props"

section \<open>Servers, catalog entries, scans\<close>

datatype upstream_transport =
    HttpTransport jstring "(jstring \<times> jstring) list"
  | StdioTransport jstring "jstring list" "(jstring \<times> jstring) list" "jstring option"

datatype server_trust = Trusted | Untrusted | Quarantined

record server_config =
  sv_id :: jstring
  sv_label :: jstring
  sv_transport :: upstream_transport
  sv_trust :: server_trust
  sv_allowTools :: "jstring list option"

datatype severity = Info | Low | Medium | High | Critical

definition severity_rank :: "severity \<Rightarrow> nat" where
  "severity_rank s = (case s of Info \<Rightarrow> 0 | Low \<Rightarrow> 1 | Medium \<Rightarrow> 2 | High \<Rightarrow> 3 | Critical \<Rightarrow> 4)"

interpretation sev: ranked severity_rank Info
  by unfold_locales (auto simp: severity_rank_def split: severity.splits)

definition severity_text :: "severity \<Rightarrow> jstring" where
  "severity_text s = (case s of Info \<Rightarrow> js ''info'' | Low \<Rightarrow> js ''low'' | Medium \<Rightarrow> js ''medium''
     | High \<Rightarrow> js ''high'' | Critical \<Rightarrow> js ''critical'')"

record scan_finding =
  sf_id :: jstring
  sf_detector :: jstring
  sf_severity :: severity
  sf_title :: jstring
  sf_detail :: jstring
  sf_location :: jstring
  sf_evidence :: "jstring option"

datatype scan_verdict = Clean | Suspicious | Malicious

record scan_summary =
  sc_verdict :: scan_verdict
  sc_highestSeverity :: "severity option"
  sc_findings :: "scan_finding list"
  sc_scannedAt :: jstring

record policy_decision =
  pd_permit :: bool
  pd_obligation :: obligation
  pd_reasons :: "jstring list"
  pd_errors :: "jstring list"
  pd_defaultDeny :: bool

datatype risk_band = RLow | RMedium | RHigh | RCritical

definition risk_band_text :: "risk_band \<Rightarrow> jstring" where
  "risk_band_text b = (case b of RLow \<Rightarrow> js ''low'' | RMedium \<Rightarrow> js ''medium'' | RHigh \<Rightarrow> js ''high''
     | RCritical \<Rightarrow> js ''critical'')"

record risk_assessment =
  ra_score :: int
  ra_band :: risk_band
  ra_rationale :: jstring
  ra_signals :: "jstring list"
  ra_provider :: jstring
  ra_model :: jstring
  ra_cached :: bool
  ra_latencyMs :: jnum

section \<open>Decision records\<close>

datatype approval_state = Pending | Approved | Denied | Expired

definition approval_state_text :: "approval_state \<Rightarrow> jstring" where
  "approval_state_text s = (case s of Pending \<Rightarrow> js ''pending'' | Approved \<Rightarrow> js ''approved''
     | Denied \<Rightarrow> js ''denied'' | Expired \<Rightarrow> js ''expired'')"

record decision_record =
  dr_decisionId :: jstring
  dr_timestamp :: jstring
  dr_agent :: agent_identity
  dr_protocolVersion :: jstring
  dr_method :: jstring
  dr_qualifiedName :: "jstring option"
  dr_serverId :: "jstring option"
  dr_upstreamName :: "jstring option"
  dr_verdict :: verdict
  dr_obligation :: obligation
  dr_policy :: policy_decision
  dr_risk :: "risk_assessment option"
  dr_argsDigest :: jstring
  dr_resultDigest :: "jstring option"
  dr_latencyMs :: int
  dr_degraded :: bool

text \<open>
  The record as the JavaScript value \<open>append\<close> serialises: an absent optional field is an absent
  property. The gateway always writes \<open>redactionFindings: []\<close> and never sets \<open>approval\<close>,
  \<open>scan\<close>, \<open>argsRedacted\<close>, \<open>taskId\<close> or \<open>error\<close>.
\<close>

definition opt_prop :: "string \<Rightarrow> ('a \<Rightarrow> jvalue) \<Rightarrow> 'a option \<Rightarrow> jvalue props" where
  "opt_prop k f x = (case x of None \<Rightarrow> [] | Some v \<Rightarrow> [(js k, f v)])"

definition agent_value :: "agent_identity \<Rightarrow> jvalue" where
  "agent_value a = JObject ([(js ''id'', JString (ag_id a))]
     @ opt_prop ''name'' JString (ag_name a) @ opt_prop ''version'' JString (ag_version a)
     @ [(js ''trustTier'', JString (trust_tier_text (ag_trustTier a))),
        (js ''authenticated'', JBool (ag_authenticated a))] @ ag_extra a)"

definition policy_value :: "policy_decision \<Rightarrow> jvalue" where
  "policy_value p = JObject
     [(js ''effect'', JString (if pd_permit p then js ''permit'' else js ''forbid'')),
      (js ''obligation'', JString (obligation_text (pd_obligation p))),
      (js ''reasons'', JArray (map JString (pd_reasons p))),
      (js ''errors'', JArray (map JString (pd_errors p))),
      (js ''defaultDeny'', JBool (pd_defaultDeny p))]"

definition risk_value :: "risk_assessment \<Rightarrow> jvalue" where
  "risk_value r = JObject
     [(js ''score'', JNumber (num_of_int (ra_score r))),
      (js ''band'', JString (risk_band_text (ra_band r))),
      (js ''rationale'', JString (ra_rationale r)),
      (js ''signals'', JArray (map JString (ra_signals r))),
      (js ''provider'', JString (ra_provider r)),
      (js ''model'', JString (ra_model r)),
      (js ''cached'', JBool (ra_cached r)),
      (js ''latencyMs'', JNumber (ra_latencyMs r))]"

definition record_value :: "decision_record \<Rightarrow> jvalue" where
  "record_value r = JObject
     ([(js ''decisionId'', JString (dr_decisionId r)),
       (js ''timestamp'', JString (dr_timestamp r)),
       (js ''agent'', agent_value (dr_agent r)),
       (js ''protocolVersion'', JString (dr_protocolVersion r)),
       (js ''method'', JString (dr_method r))]
      @ opt_prop ''qualifiedName'' JString (dr_qualifiedName r)
      @ opt_prop ''serverId'' JString (dr_serverId r)
      @ opt_prop ''upstreamName'' JString (dr_upstreamName r)
      @ [(js ''verdict'', JString (verdict_text (dr_verdict r))),
         (js ''obligation'', JString (obligation_text (dr_obligation r))),
         (js ''policy'', policy_value (dr_policy r))]
      @ opt_prop ''risk'' risk_value (dr_risk r)
      @ [(js ''argsDigest'', JString (dr_argsDigest r)),
         (js ''redactionFindings'', JArray [])]
      @ opt_prop ''resultDigest'' JString (dr_resultDigest r)
      @ [(js ''latencyMs'', JNumber (num_of_int (dr_latencyMs r))),
         (js ''degraded'', JBool (dr_degraded r))])"

lemma finite_num_of_int [simp]: "finite_num (num_of_int i)"
  by (cases "strip_zeros (nat \<bar>i\<bar>) 0") (simp add: num_of_int_def finite_num_def)

lemma list_all_opt_prop [simp]:
  "list_all P (opt_prop k f x) = (case x of None \<Rightarrow> True | Some v \<Rightarrow> P (js k, f v))"
  by (simp add: opt_prop_def split: option.splits)

lemma list_all_strings [simp]: "list_all (\<lambda>x. omitted x \<or> canonical_ok x) (map JString xs)"
  by (simp add: list_all_iff)

text \<open>A record always has a canonical text; latencies are finite numbers.\<close>

definition record_ok :: "decision_record \<Rightarrow> bool" where
  "record_ok r = ((case dr_risk r of None \<Rightarrow> True | Some k \<Rightarrow> finite_num (ra_latencyMs k))
     \<and> list_all (\<lambda>(k, x). omitted x \<or> canonical_ok x) (ag_extra (dr_agent r)))"

lemma part_values_ok [simp]:
  "canonical_ok (agent_value a) \<longleftrightarrow> list_all (\<lambda>(k, x). omitted x \<or> canonical_ok x) (ag_extra a)"
  "canonical_ok (policy_value p)"
  "canonical_ok (risk_value k) \<longleftrightarrow> omitted (JNumber (ra_latencyMs k)) \<or> finite_num (ra_latencyMs k)"
  by (simp_all add: agent_value_def policy_value_def risk_value_def split: option.splits)

lemma record_value_ok: "record_ok r \<Longrightarrow> canonical_ok (record_value r)"
  unfolding record_value_def canonical_ok.simps list_all_append list_all_opt_prop
  by (simp add: record_ok_def split: option.splits)

lemma omitted_number [simp]: "\<not> omitted (JNumber x)"
  by (simp add: omitted_def)

section \<open>Errors\<close>

text \<open>\<open>JsonRpcErrorCode\<close>, \<open>McpErrorCode\<close> and \<open>SentinelErrorCode\<close>.\<close>

datatype error_code =
    ParseError | InvalidRequest | MethodNotFound | InvalidParams | InternalError
  | HeaderMismatch | MissingRequiredClientCapability | UnsupportedProtocolVersion
  | PolicyDenied | ApprovalRequired | ApprovalDenied | RiskThresholdExceeded
  | UpstreamUnavailable | ScannerQuarantine | RiskEngineUnavailable | UnknownTool
  | RequestTooLarge

definition code_value :: "error_code \<Rightarrow> int" where
  "code_value c = (case c of
      ParseError \<Rightarrow> -32700 | InvalidRequest \<Rightarrow> -32600 | MethodNotFound \<Rightarrow> -32601
    | InvalidParams \<Rightarrow> -32602 | InternalError \<Rightarrow> -32603
    | HeaderMismatch \<Rightarrow> -32020 | MissingRequiredClientCapability \<Rightarrow> -32021
    | UnsupportedProtocolVersion \<Rightarrow> -32022
    | PolicyDenied \<Rightarrow> -32000 | ApprovalRequired \<Rightarrow> -32001 | ApprovalDenied \<Rightarrow> -32002
    | RiskThresholdExceeded \<Rightarrow> -32003 | UpstreamUnavailable \<Rightarrow> -32004
    | ScannerQuarantine \<Rightarrow> -32005 | RiskEngineUnavailable \<Rightarrow> -32006 | UnknownTool \<Rightarrow> -32007
    | RequestTooLarge \<Rightarrow> -32008)"

definition sentinel_code :: "error_code \<Rightarrow> bool" where
  "sentinel_code c = (c \<in> {PolicyDenied, ApprovalRequired, ApprovalDenied, RiskThresholdExceeded,
     UpstreamUnavailable, ScannerQuarantine, RiskEngineUnavailable, UnknownTool, RequestTooLarge})"

lemma code_value_inject: "code_value a = code_value b \<longleftrightarrow> a = b"
  by (cases a; cases b) (simp_all add: code_value_def)

lemma sentinel_code_band: "sentinel_code c \<longleftrightarrow> code_value c \<in> {-32019..-32000}"
  by (cases c) (simp_all add: sentinel_code_def code_value_def)

text \<open>\<open>new SentinelError(code, message, options)\<close>: the status defaults to 200.\<close>

definition mk_error ::
    "string \<Rightarrow> error_code \<Rightarrow> jstring \<Rightarrow> nat option \<Rightarrow> jvalue props option \<Rightarrow> sentinel_error" where
  "mk_error name code message status data =
     \<lparr>se_name = js name, se_code = code_value code, se_message = message,
      se_status = (case status of None \<Rightarrow> 200 | Some n \<Rightarrow> n), se_data = data\<rparr>"

definition to_json_rpc_error :: "sentinel_error \<Rightarrow> jvalue props" where
  "to_json_rpc_error e =
     (case se_data e of
        None \<Rightarrow> [(js ''code'', JNumber (num_of_int (se_code e))), (js ''message'', JString (se_message e))]
      | Some d \<Rightarrow> [(js ''code'', JNumber (num_of_int (se_code e))),
                   (js ''message'', JString (se_message e)), (js ''data'', JObject d)])"

definition header_mismatch_error :: "jstring \<Rightarrow> jvalue props option \<Rightarrow> sentinel_error" where
  "header_mismatch_error message data =
     mk_error ''HeaderMismatchError'' HeaderMismatch (js ''Header mismatch: '' @ message) (Some 400) data"

definition method_not_found_error :: "jstring \<Rightarrow> sentinel_error" where
  "method_not_found_error meth =
     mk_error ''MethodNotFoundError'' MethodNotFound (js ''Method not found: '' @ meth) (Some 404)
       (Some [(js ''method'', JString meth)])"

definition policy_denied_error :: "jstring \<Rightarrow> jvalue props \<Rightarrow> sentinel_error" where
  "policy_denied_error message data = mk_error ''PolicyDeniedError'' PolicyDenied message None (Some data)"

definition approval_required_error :: "jstring \<Rightarrow> jvalue props option \<Rightarrow> sentinel_error" where
  "approval_required_error message data =
     mk_error ''ApprovalRequiredError'' ApprovalRequired message None data"

definition upstream_unavailable_error :: "jstring \<Rightarrow> jstring \<Rightarrow> sentinel_error" where
  "upstream_unavailable_error serverId reason =
     mk_error ''UpstreamUnavailableError'' UpstreamUnavailable
       (js ''Upstream \"'' @ serverId @ js ''\" is unavailable: '' @ reason) None
       (Some [(js ''serverId'', JString serverId), (js ''reason'', JString reason)])"

datatype name_kind = KTool | KResource | KPrompt

definition kind_text :: "name_kind \<Rightarrow> jstring" where
  "kind_text k = (case k of KTool \<Rightarrow> js ''tool'' | KResource \<Rightarrow> js ''resource'' | KPrompt \<Rightarrow> js ''prompt'')"

definition unknown_tool_error :: "jstring \<Rightarrow> name_kind \<Rightarrow> sentinel_error" where
  "unknown_tool_error qualifiedName kind =
     mk_error ''UnknownToolError'' UnknownTool
       (js ''Unknown '' @ kind_text kind @ js '': '' @ qualifiedName) None
       (Some [(js ''qualifiedName'', JString qualifiedName), (js ''kind'', JString (kind_text kind))])"

definition request_too_large_error :: "jstring \<Rightarrow> nat \<Rightarrow> nat \<Rightarrow> sentinel_error" where
  "request_too_large_error what bytes limit =
     mk_error ''RequestTooLargeError'' RequestTooLarge
       (what @ js '' is too large: '' @ dec bytes @ js '' bytes exceeds the '' @ dec limit
          @ js ''-byte limit'') (Some 413)
       (Some [(js ''bytes'', j_nat bytes), (js ''limit'', j_nat limit)])"

definition malformed_params_error :: "jstring \<Rightarrow> sentinel_error" where
  "malformed_params_error detail =
     mk_error ''MalformedParamsError'' InvalidParams (js ''Invalid params: '' @ detail) (Some 400) None"

lemmas error_defs =
  header_mismatch_error_def method_not_found_error_def policy_denied_error_def
  approval_required_error_def upstream_unavailable_error_def unknown_tool_error_def
  request_too_large_error_def malformed_params_error_def mk_error_def

section \<open>Properties\<close>

text \<open>
  \<open>strongestObligation\<close> is the least upper bound of the obligations of the matched policies,
  \<open>allow\<close> when there are none: it is one of them, none is stricter, and neither order nor
  repetition matters.
\<close>

theorem strongest_obligation_is_maximum:
  "strongest_obligation os = Max (insert Allow (set os))"
proof (rule Max_eqI [symmetric])
  show "strongest_obligation os \<in> insert Allow (set os)"
    unfolding strongest_winner by (rule ob.winner_member)
  fix y assume "y \<in> insert Allow (set os)"
  then show "y \<le> strongest_obligation os"
    unfolding strongest_winner less_eq_obligation_def using ob.winner_ge ob.rank_bottom by auto
qed simp


end
