(* ===== verification/Naming.thy ===== *)
theory Naming
  imports CoreTypes
begin

text \<open>
  The advertised names of \<open>packages/mcp-core/src/naming.ts\<close>: tool and prompt names joined with
  \<open>__\<close>, resource URIs wrapped as \<open>mcp-sentinel://<server>/<percent-encoded uri>\<close>. What makes the
  scheme a security boundary is that joining and splitting are inverse in both directions: no two
  pairs share a name and no name has a second spelling.
\<close>

section \<open>The contract of a naming scheme\<close>

locale name_codec =
  fixes qual :: "jstring \<Rightarrow> jstring \<Rightarrow> exn + jstring"
    and parse :: "jstring \<Rightarrow> exn + (jstring \<times> jstring) option"
  assumes parse_qual: "qual s n = Inr q \<Longrightarrow> parse q = Inr (Some (s, n))"
    and qual_parse: "parse q = Inr (Some (s, n)) \<Longrightarrow> qual s n = Inr q"
begin

lemma qual_parse_iff: "qual s n = Inr q \<longleftrightarrow> parse q = Inr (Some (s, n))"
  using parse_qual qual_parse by blast

lemma qual_inject: "qual s n = Inr q \<Longrightarrow> qual s' n' = Inr q \<Longrightarrow> s = s' \<and> n = n'"
  using parse_qual [of s n q] parse_qual [of s' n' q] by simp

lemma no_alias: "parse q = Inr (Some p) \<Longrightarrow> parse q' = Inr (Some p) \<Longrightarrow> q = q'"
  using qual_parse [of q "fst p" "snd p"] qual_parse [of q' "fst p" "snd p"] by simp

end

section \<open>Well-formed ids and names\<close>

definition namespace_separator :: jstring where
  "namespace_separator = js ''__''"

definition sentinel_server_id :: jstring where
  "sentinel_server_id = js ''sentinel''"

text \<open>\<open>/^[a-z0-9][a-z0-9-]{0,63}$/\<close> and \<open>/^[A-Za-z0-9_-]{1,128}$/\<close>.\<close>

definition is_valid_server_id :: "jstring \<Rightarrow> bool" where
  "is_valid_server_id s =
    (case s of [] \<Rightarrow> False
     | c # r \<Rightarrow> (is_lower c \<or> is_digit c) \<and> length r \<le> 63
                 \<and> list_all (\<lambda>c. is_lower c \<or> is_digit c \<or> c = 45) r)"

definition is_valid_tool_name :: "jstring \<Rightarrow> bool" where
  "is_valid_tool_name s =
    (1 \<le> length s \<and> length s \<le> 128
     \<and> list_all (\<lambda>c. is_upper c \<or> is_lower c \<or> is_digit c \<or> c = 95 \<or> c = 45) s)"

definition assert_valid_server_id :: "jstring \<Rightarrow> exn + unit" where
  "assert_valid_server_id s = guard_r (is_valid_server_id s) (NamingError
     (js ''invalid server id '' @ [39] @ s @ [39]
      @ js '': expected lowercase alphanumeric with dashes, no underscores (underscores are reserved for the namespace separator)''))"

definition qualify :: "name_kind \<Rightarrow> jstring \<Rightarrow> jstring \<Rightarrow> exn + jstring" where
  "qualify kind serverId name =
     bind_r (assert_valid_server_id serverId) (\<lambda>_.
     if \<not> is_valid_tool_name name
     then Inl (NamingError (js ''invalid '' @ kind_text kind @ js '' name '' @ [39] @ name @ [39]
                 @ js '' on server '' @ [39] @ serverId @ [39]))
     else Inr (serverId @ namespace_separator @ name))"

definition qualify_tool_name :: "jstring \<Rightarrow> jstring \<Rightarrow> exn + jstring" where
  "qualify_tool_name serverId toolName = qualify KTool serverId toolName"

definition parse_qualified_tool_name :: "jstring \<Rightarrow> (jstring \<times> jstring) option" where
  "parse_qualified_tool_name q =
     (case index_of namespace_separator q of
        None \<Rightarrow> None
      | Some i \<Rightarrow>
          if i = 0 then None
          else let serverId = take i q; toolName = drop (i + length namespace_separator) q in
            if \<not> is_valid_server_id serverId \<or> \<not> is_valid_tool_name toolName then None
            else Some (serverId, toolName))"

definition is_sentinel_tool_name :: "jstring \<Rightarrow> bool" where
  "is_sentinel_tool_name q = starts_with q (sentinel_server_id @ namespace_separator)"

definition qualify_prompt_name :: "jstring \<Rightarrow> jstring \<Rightarrow> exn + jstring" where
  "qualify_prompt_name serverId promptName = qualify KPrompt serverId promptName"

definition parse_qualified_prompt_name :: "jstring \<Rightarrow> (jstring \<times> jstring) option" where
  "parse_qualified_prompt_name q = (case parse_qualified_tool_name q of None \<Rightarrow> None
     | Some (serverId, toolName) \<Rightarrow> Some (serverId, toolName))"

lemma prompt_parse_is_tool_parse: "parse_qualified_prompt_name q = parse_qualified_tool_name q"
  by (simp add: parse_qualified_prompt_name_def split: option.splits)

lemma server_id_chars:
  "is_valid_server_id s \<Longrightarrow> c \<in> set s \<Longrightarrow> is_lower c \<or> is_digit c \<or> c = 45"
  by (cases s) (auto simp: is_valid_server_id_def list_all_iff)

lemma server_id_no_mark [name_rules]:
  "is_valid_server_id s \<Longrightarrow> 95 \<notin> set s" "is_valid_server_id s \<Longrightarrow> 47 \<notin> set s"
  using server_id_chars [of s 95] server_id_chars [of s 47] by (auto simp: char_class_defs word_le_nat_alt)

lemma server_id_not_Nil [name_rules]: "is_valid_server_id s \<Longrightarrow> s \<noteq> []"
  by (auto simp: is_valid_server_id_def)

lemma separator_eq: "namespace_separator = [95, 95]"
  by (simp add: namespace_separator_def js_def)

lemma index_of_separator:
  "95 \<notin> set a \<Longrightarrow> index_of [95, 95] (a @ 95 # 95 # r) = Some (length a)"
  by (induction a) (auto simp: starts_with_def)

lemma qualify_Inr_iff:
  "qualify k s n = Inr q \<longleftrightarrow> is_valid_server_id s \<and> is_valid_tool_name n \<and> q = s @ [95, 95] @ n"
  by (auto simp: qualify_def assert_valid_server_id_def bind_r_Inr_iff separator_eq)

lemma parse_tool_Some_iff:
  "parse_qualified_tool_name q = Some (s, n) \<longleftrightarrow>
    is_valid_server_id s \<and> is_valid_tool_name n \<and> q = s @ [95, 95] @ n"
proof
  assume p: "parse_qualified_tool_name q = Some (s, n)"
  then obtain i where i: "index_of [95, 95] q = Some i" "s = take i q" "n = drop (i + 2) q"
    "is_valid_server_id s" "is_valid_tool_name n"
    by (auto simp: parse_qualified_tool_name_def separator_eq Let_def split: option.splits if_splits)
  from index_of_SomeD [OF i(1)] have "q = take i q @ [95, 95] @ drop (i + 2) q" by simp
  with i show "is_valid_server_id s \<and> is_valid_tool_name n \<and> q = s @ [95, 95] @ n" by simp
next
  assume r: "is_valid_server_id s \<and> is_valid_tool_name n \<and> q = s @ [95, 95] @ n"
  with index_of_separator [of s n] name_rules have "index_of [95, 95] q = Some (length s)" by auto
  with r name_rules show "parse_qualified_tool_name q = Some (s, n)"
    by (auto simp: parse_qualified_tool_name_def separator_eq)
qed

interpretation tool_names: name_codec qualify_tool_name "\<lambda>q. Inr (parse_qualified_tool_name q)"
  by unfold_locales (simp_all add: qualify_tool_name_def qualify_Inr_iff parse_tool_Some_iff)

interpretation prompt_names: name_codec qualify_prompt_name "\<lambda>q. Inr (parse_qualified_prompt_name q)"
  by unfold_locales
     (simp_all add: qualify_prompt_name_def qualify_Inr_iff parse_tool_Some_iff
        prompt_parse_is_tool_parse)

lemma sentinel_id_valid: "is_valid_server_id sentinel_server_id"
  by (simp add: sentinel_server_id_def is_valid_server_id_def js_def char_class_defs)

lemma sentinel_tool_parse:
  "parse_qualified_tool_name q = Some (s, n) \<Longrightarrow> is_sentinel_tool_name q \<longleftrightarrow> s = sentinel_server_id"
proof
  assume p: "parse_qualified_tool_name q = Some (s, n)" and "is_sentinel_tool_name q"
  then obtain r where "q = sentinel_server_id @ [95, 95] @ r"
    by (auto simp: is_sentinel_tool_name_def starts_with_iff separator_eq)
  moreover from this have "index_of [95, 95] q = Some (length sentinel_server_id)"
    using index_of_separator [of sentinel_server_id r] server_id_no_mark(1) [OF sentinel_id_valid] by simp
  ultimately show "s = sentinel_server_id"
    using p by (auto simp: parse_qualified_tool_name_def separator_eq Let_def split: if_splits)
next
  assume "parse_qualified_tool_name q = Some (s, n)" "s = sentinel_server_id"
  then show "is_sentinel_tool_name q"
    by (auto simp: parse_tool_Some_iff is_sentinel_tool_name_def separator_eq starts_with_iff)
qed

section \<open>Resource URIs\<close>

definition resource_uri_prefix :: jstring where
  "resource_uri_prefix = js ''mcp-sentinel'' @ js ''://''"

definition encode_uri :: "jstring \<Rightarrow> exn + jstring" where
  "encode_uri s = (case encode_uri_component s of None \<Rightarrow> Inl URIError | Some t \<Rightarrow> Inr t)"

definition qualify_resource_uri :: "jstring \<Rightarrow> jstring \<Rightarrow> exn + jstring" where
  "qualify_resource_uri serverId uri =
     bind_r (assert_valid_server_id serverId) (\<lambda>_.
     if length uri = 0
     then Inl (NamingError (js ''empty resource uri on server '' @ [39] @ serverId @ [39]))
     else bind_r (encode_uri uri) (\<lambda>e. Inr (resource_uri_prefix @ serverId @ 47 # e)))"

text \<open>Decoding failures are caught; the re-encoding that follows is outside the \<open>try\<close>.\<close>

definition parse_qualified_resource_uri :: "jstring \<Rightarrow> exn + (jstring \<times> jstring) option" where
  "parse_qualified_resource_uri q =
     (if \<not> starts_with q resource_uri_prefix then Inr None
      else let rest = drop (length resource_uri_prefix) q in
        case index_of [47] rest of
          None \<Rightarrow> Inr None
        | Some slash \<Rightarrow>
            if slash = 0 then Inr None
            else let serverId = take slash rest in
              if \<not> is_valid_server_id serverId then Inr None
              else let encoded = drop (slash + 1) rest in
                if length encoded = 0 then Inr None
                else (case decode_uri_component encoded of
                        None \<Rightarrow> Inr None
                      | Some uri \<Rightarrow>
                          if length uri = 0 then Inr None
                          else bind_r (encode_uri uri) (\<lambda>e.
                            if resource_uri_prefix @ serverId @ 47 # e \<noteq> q then Inr None
                            else Inr (Some (serverId, uri)))))"

definition is_qualified_resource_uri :: "jstring \<Rightarrow> bool" where
  "is_qualified_resource_uri uri = starts_with uri resource_uri_prefix"

lemma qualify_resource_Inr_iff:
  "qualify_resource_uri s u = Inr q \<longleftrightarrow> is_valid_server_id s \<and> u \<noteq> [] \<and>
    (\<exists>e. encode_uri_component u = Some e \<and> q = resource_uri_prefix @ s @ 47 # e)"
  by (auto simp: qualify_resource_uri_def assert_valid_server_id_def bind_r_Inr_iff encode_uri_def
      split: option.splits)

lemma parse_resource_Some:
  "parse_qualified_resource_uri q = Inr (Some (s, u)) \<Longrightarrow> qualify_resource_uri s u = Inr q"
  unfolding qualify_resource_Inr_iff
  by (auto simp: parse_qualified_resource_uri_def Let_def bind_r_Inr_iff encode_uri_def
      split: if_splits option.splits)

lemma parse_resource_qualify:
  assumes "qualify_resource_uri s u = Inr q"
  shows "parse_qualified_resource_uri q = Inr (Some (s, u))"
proof -
  from assms obtain e where e: "is_valid_server_id s" "u \<noteq> []" "encode_uri_component u = Some e"
    "q = resource_uri_prefix @ s @ 47 # e" by (auto simp: qualify_resource_Inr_iff)
  from e have "index_of [47] (s @ 47 # e) = Some (length s)"
    by (intro index_of_single_append) (rule name_rules)
  moreover have "e \<noteq> []" using e(2) encode_uri_Nil [OF e(3)] by simp
  ultimately show ?thesis unfolding e(4)
    using e(1-3) server_id_not_Nil [OF e(1)] decode_encode_uri_component [OF e(3)]
    by (simp add: parse_qualified_resource_uri_def encode_uri_def)
qed

interpretation resource_uris: name_codec qualify_resource_uri parse_qualified_resource_uri
  by (unfold_locales; erule parse_resource_qualify parse_resource_Some)

lemma encode_uri_component_None: "encode_uri_component s = None \<longleftrightarrow> \<not> well_formed s"
  by (simp add: encode_uri_component_def)

section \<open>Properties\<close>

text \<open>
  Joining and splitting tool names are inverse in both directions. A name is the advertised
  name of a server id and a tool name exactly when it parses to them, so two servers never share
  a name and a name has one reading, whatever underscores the tool name has.
\<close>

theorem tool_name_codec:
  "qualify_tool_name s n = Inr q \<longleftrightarrow> parse_qualified_tool_name q = Some (s, n)"
  using tool_names.qual_parse_iff by simp

text \<open>
  Wrapping and unwrapping resource URIs are inverse in both directions: the upstream URI comes
  back unit for unit, and only the canonical percent-encoding of a URI is accepted, so no upstream
  resource has two spellings.
\<close>

theorem resource_uri_codec:
  "qualify_resource_uri s u = Inr q \<longleftrightarrow> parse_qualified_resource_uri q = Inr (Some (s, u))"
  by (rule resource_uris.qual_parse_iff)

text \<open>
  The wrapper accepts exactly the non-empty URIs without a lone surrogate; for the others
  \<open>encodeURIComponent\<close> throws. Unwrapping throws as well, instead of answering \<open>undefined\<close>, on a
  wrapped URI that carries a lone surrogate literally.
\<close>

theorem resource_uri_lone_surrogate:
  assumes "is_valid_server_id s" "u \<noteq> []"
  shows "((\<exists>q. qualify_resource_uri s u = Inr q) \<longleftrightarrow> well_formed u)
    \<and> (\<not> well_formed u \<longrightarrow> qualify_resource_uri s u = Inl URIError)
    \<and> parse_qualified_resource_uri (resource_uri_prefix @ s @ [47, 0xD800]) = Inl URIError"
proof (intro conjI impI)
  show "(\<exists>q. qualify_resource_uri s u = Inr q) \<longleftrightarrow> well_formed u"
    using assms by (auto simp: qualify_resource_Inr_iff encode_uri_component_def)
  assume "\<not> well_formed u"
  then show "qualify_resource_uri s u = Inl URIError"
    using assms by (simp add: qualify_resource_uri_def assert_valid_server_id_def encode_uri_def
        encode_uri_component_def)
next
  have "index_of [47] (s @ 47 # [0xD800]) = Some (length s)"
    using assms(1) by (intro index_of_single_append) (rule name_rules)
  moreover have "decode_uri_component [0xD800] = Some [0xD800]"
    by (simp add: decode_uri_component.simps)
  moreover have "encode_uri_component [0xD800] = None"
    by (simp add: encode_uri_component_None well_formed_def scalar_def)
  ultimately show "parse_qualified_resource_uri (resource_uri_prefix @ s @ [47, 0xD800]) = Inl URIError"
    using assms(1) server_id_not_Nil [OF assms(1)]
    by (simp add: parse_qualified_resource_uri_def Let_def encode_uri_def)
qed

lemma resource_uri_lone_surrogate_witness:
  "(\<exists>q. qualify_resource_uri (js ''files'') (js ''x'') = Inr q)
   \<and> qualify_resource_uri (js ''files'') [0xDC00] = Inl URIError"
  using resource_uri_lone_surrogate [of "js ''files''" "js ''x''"]
    resource_uri_lone_surrogate [of "js ''files''" "[0xDC00]"]
  by (simp add: is_valid_server_id_def js_def char_class_defs well_formed_def scalar_def surrogate_defs)

end
