(* ===== verification/Values.thy ===== *)
theory Values
  imports Json
begin

text \<open>
  Operations of the language on decoded JSON values that several components share: truthiness,
  conversion to a string, property access, and numbers read as integers.
\<close>

section \<open>Truthiness and numbers\<close>

definition truthy :: "jvalue \<Rightarrow> bool" where
  "truthy v = (case v of JNull \<Rightarrow> False | JUndefined \<Rightarrow> False | JBool b \<Rightarrow> b | JString s \<Rightarrow> s \<noteq> []
     | JBigInt i \<Rightarrow> i \<noteq> 0
     | JNumber x \<Rightarrow> (case x of NaN \<Rightarrow> False | Infinity _ \<Rightarrow> True | Finite _ d _ \<Rightarrow> d \<noteq> 0)
     | _ \<Rightarrow> True)"

text \<open>\<open>Number.isInteger(x)\<close>, and the integer: decimals are in lowest terms.\<close>

definition int_of_num :: "jnum \<Rightarrow> int option" where
  "int_of_num x = (case x of
      Finite s d e \<Rightarrow> if 0 \<le> e then Some ((if s then - 1 else 1) * int d * 10 ^ nat e) else None
    | _ \<Rightarrow> None)"

lemma strip_zeros_value:
  "strip_zeros m x = (d, e) \<Longrightarrow> x \<le> e \<and> m = d * 10 ^ nat (e - x)"
proof (induction m x rule: strip_zeros.induct)
  case (1 m x)
  show ?case
  proof (cases "m \<noteq> 0 \<and> m mod 10 = 0")
    case True
    with 1 have ih: "x + 1 \<le> e" "m div 10 = d * 10 ^ nat (e - (x + 1))"
      by (auto simp: strip_zeros.simps [of m x])
    have "nat (e - x) = Suc (nat (e - (x + 1)))" using ih(1) by linarith
    then have "d * 10 ^ nat (e - x) = 10 * (m div 10)" using ih(2) by simp
    also have "\<dots> = m" using True by (metis mult_div_mod_eq add_0_right)
    finally show ?thesis using ih(1) by simp
  next
    case False
    with 1 show ?thesis by (subst (asm) strip_zeros.simps [of m x]) auto
  qed
qed

lemma int_of_num_of_int [simp]: "int_of_num (num_of_int i) = Some i"
proof -
  obtain d e where de: "strip_zeros (nat \<bar>i\<bar>) 0 = (d, e)" by fastforce
  have v: "0 \<le> e" "nat \<bar>i\<bar> = d * 10 ^ nat e" using strip_zeros_value [OF de] by simp_all
  have "int d * 10 ^ nat e = int (nat \<bar>i\<bar>)" unfolding v(2) by simp
  then have "int d * 10 ^ nat e = \<bar>i\<bar>" by simp
  with de v(1) show ?thesis by (simp add: num_of_int_def int_of_num_def)
qed

section \<open>Conversion to a string\<close>

text \<open>
  \<open>String(v)\<close> on JSON values. An object with an own property \<open>toString\<close>, which JSON can only make
  a non-function, has no primitive form: the conversion throws. Decoded JSON holds no functions;
  one is given an empty text here.
\<close>

function js_string :: "jvalue \<Rightarrow> exn + jstring" where
  "js_string JNull = Inr (js ''null'')"
| "js_string JUndefined = Inr (js ''undefined'')"
| "js_string (JBool b) = Inr (if b then js ''true'' else js ''false'')"
| "js_string (JNumber x) = Inr (num_text x)"
| "js_string (JString s) = Inr s"
| "js_string (JBigInt i) = Inr (dec_int i)"
| "js_string JFunction = Inr []"
| "js_string JSymbol = Inr (js ''Symbol()'')"
| "js_string (JObject kvs) =
     (if get_prop kvs (js ''toString'') \<noteq> None then Inl TypeError else Inr (js ''[object Object]''))"
| "js_string (JArray xs) =
     bind_r (map_r (\<lambda>x. if x = JNull \<or> x = JUndefined then Inr []
                        else if x = JSymbol then Inl TypeError else js_string x) xs)
       (\<lambda>ps. Inr (join_with [44] ps))"
  by pat_completeness auto
termination
  by (relation "measure size") (auto simp: less_Suc_eq_le size_list_estimation')

section \<open>Property access\<close>

text \<open>
  \<open>v.k\<close> for a name no prototype defines: \<open>null\<close> and \<open>undefined\<close> throw, other values without the own
  property give \<open>undefined\<close>.
\<close>

definition js_get :: "jvalue \<Rightarrow> jstring \<Rightarrow> exn + jvalue" where
  "js_get v k = (case v of
      JNull \<Rightarrow> Inl TypeError
    | JUndefined \<Rightarrow> Inl TypeError
    | JObject kvs \<Rightarrow> Inr (case get_prop kvs k of None \<Rightarrow> JUndefined | Some x \<Rightarrow> x)
    | _ \<Rightarrow> Inr JUndefined)"

text \<open>\<open>v?.k\<close>.\<close>

definition js_opt_get :: "jvalue \<Rightarrow> jstring \<Rightarrow> jvalue" where
  "js_opt_get v k = (case js_get v k of Inl _ \<Rightarrow> JUndefined | Inr x \<Rightarrow> x)"

text \<open>\<open>v[0]\<close>.\<close>

definition js_first :: "jvalue \<Rightarrow> exn + jvalue" where
  "js_first v = (case v of
      JArray (x # _) \<Rightarrow> Inr x
    | JString (c # _) \<Rightarrow> Inr (JString [c])
    | _ \<Rightarrow> js_get v (js ''0''))"

text \<open>\<open>Object.values(v)\<close> on an object or an array.\<close>

definition js_values :: "jvalue \<Rightarrow> jvalue list" where
  "js_values v = (case v of JObject kvs \<Rightarrow> map snd kvs | JArray xs \<Rightarrow> xs | _ \<Rightarrow> [])"

text \<open>
  \<open>ob[key] = value\<close> on an ordinary object: the key \<open>__proto__\<close> runs the inherited setter and
  creates no own property.
\<close>

definition js_assign :: "jstring \<Rightarrow> 'v \<Rightarrow> 'v props \<Rightarrow> 'v props" where
  "js_assign k v ob = (if k = js ''__proto__'' then ob else put_prop k v ob)"

lemma put_new: "k \<notin> fst ` set ob \<Longrightarrow> put_prop k v ob = ob @ [(k, v)]"
  by (induction ob) auto

section \<open>White space\<close>

text \<open>The characters \<open>trim\<close>, \<open>parseInt\<close> and regular expressions take as white space.\<close>

definition js_space :: "code_unit \<Rightarrow> bool" where
  "js_space c = ((9 \<le> c \<and> c \<le> 13) \<or> c = 32 \<or> c = 0xA0 \<or> c = 0x1680 \<or> (0x2000 \<le> c \<and> c \<le> 0x200A)
     \<or> c = 0x2028 \<or> c = 0x2029 \<or> c = 0x202F \<or> c = 0x205F \<or> c = 0x3000 \<or> c = 0xFEFF)"

definition js_trim :: "jstring \<Rightarrow> jstring" where
  "js_trim s = rev (dropWhile js_space (rev (dropWhile js_space s)))"

end
