(* ===== verification/Paths.thy ===== *)
theory Paths
  imports Prelude
begin

text \<open>
  The functions of \<open>node:path\<close> the gateway uses, in their POSIX form: \<open>isAbsolute\<close> and
  \<open>resolve\<close>. The working directory is an argument; it is absolute on every POSIX system.
\<close>

definition is_absolute :: "jstring \<Rightarrow> bool" where
  "is_absolute p = (take 1 p = [47])"

text \<open>\<open>normalizeString\<close> on an absolute path: empty and \<open>.\<close> segments go, \<open>..\<close> drops the one before.\<close>

definition norm_step :: "jstring list \<Rightarrow> jstring \<Rightarrow> jstring list" where
  "norm_step out seg = (if seg = [] \<or> seg = [46] then out
     else if seg = [46, 46] then butlast out else out @ [seg])"

definition norm_segments :: "jstring \<Rightarrow> jstring list" where
  "norm_segments p = foldl norm_step [] (split_on 47 p)"

text \<open>The arguments from the last to the first, until the path is absolute.\<close>

fun join_right :: "jstring list \<Rightarrow> jstring \<Rightarrow> jstring" where
  "join_right [] acc = acc"
| "join_right (p # ps) acc =
     (if p = [] then join_right ps acc
      else if is_absolute p then p @ 47 # acc else join_right ps (p @ 47 # acc))"

definition resolved_segments :: "jstring \<Rightarrow> jstring list \<Rightarrow> jstring list" where
  "resolved_segments cwd args = norm_segments (join_right (rev args @ [cwd]) [])"

definition path_resolve :: "jstring \<Rightarrow> jstring list \<Rightarrow> jstring" where
  "path_resolve cwd args = 47 # join_with [47] (resolved_segments cwd args)"

section \<open>Lemmas\<close>

text \<open>A segment of a resolved path.\<close>

definition plain_segment :: "jstring \<Rightarrow> bool" where
  "plain_segment s = (s \<noteq> [] \<and> s \<noteq> [46] \<and> s \<noteq> [46, 46] \<and> 47 \<notin> set s)"

lemma norm_step_plain:
  "list_all plain_segment out \<Longrightarrow> 47 \<notin> set seg \<Longrightarrow> list_all plain_segment (norm_step out seg)"
  by (auto simp: norm_step_def plain_segment_def list_all_iff dest: in_set_butlastD)

lemma foldl_norm_plain:
  "list_all plain_segment out \<Longrightarrow> \<forall>s \<in> set segs. 47 \<notin> set s \<Longrightarrow>
     list_all plain_segment (foldl norm_step out segs)"
  by (induction segs arbitrary: out) (auto simp: norm_step_plain)

lemma norm_segments_plain: "list_all plain_segment (norm_segments p)"
  unfolding norm_segments_def by (rule foldl_norm_plain) (auto dest: split_on_parts)

lemma split_of_join: "segs \<noteq> [] \<Longrightarrow> \<forall>s \<in> set segs. c \<notin> set s \<Longrightarrow> split_on c (join_with [c] segs) = segs"
proof (induction segs rule: induct_list012)
  case (3 p q ps)
  then show ?case using split_on_append [of c p "join_with [c] (q # ps)"] by simp
qed (simp_all add: split_on_single)

lemma foldl_norm_id: "list_all plain_segment segs \<Longrightarrow> foldl norm_step out segs = out @ segs"
  by (induction segs arbitrary: out) (auto simp: norm_step_def plain_segment_def)

lemma norm_of_join:
  assumes "list_all plain_segment segs"
  shows "norm_segments (47 # join_with [47] segs) = segs"
proof (cases "segs = []")
  case False
  have "\<forall>s \<in> set segs. 47 \<notin> set s" using assms by (auto simp: list_all_iff plain_segment_def)
  from split_of_join [OF False this] have "split_on 47 (47 # join_with [47] segs) = [] # segs" by simp
  then show ?thesis using foldl_norm_id [OF assms, of "[]"] by (simp add: norm_segments_def norm_step_def)
qed (simp add: norm_segments_def norm_step_def)

lemma path_resolve_absolute [simp]: "is_absolute (path_resolve cwd args)"
  by (simp add: path_resolve_def is_absolute_def)

lemma norm_path_resolve: "norm_segments (path_resolve cwd args) = resolved_segments cwd args"
  unfolding path_resolve_def by (rule norm_of_join) (simp add: resolved_segments_def norm_segments_plain)

lemma path_resolve_inject:
  "path_resolve cwd a = path_resolve cwd' b \<longleftrightarrow> resolved_segments cwd a = resolved_segments cwd' b"
  by (metis norm_path_resolve path_resolve_def)

lemma norm_trailing_slash: "norm_segments (p @ [47]) = norm_segments p"
proof -
  have "split_on 47 (p @ [47]) = split_on 47 p @ [[]]"
    by (induction p) (auto split: list.splits)
  then show ?thesis by (simp add: norm_segments_def norm_step_def)
qed

text \<open>Resolving an absolute path ignores what comes before it.\<close>

lemma resolve_absolute: "is_absolute p \<Longrightarrow> resolved_segments cwd (args @ [p]) = norm_segments p"
  using norm_trailing_slash [of p] by (cases p) (simp_all add: resolved_segments_def is_absolute_def)

lemma resolve_idempotent:
  "path_resolve cwd [path_resolve cwd' args] = path_resolve cwd' args"
  using resolve_absolute [of "path_resolve cwd' args" cwd "[]"]
  by (simp add: path_resolve_def norm_path_resolve [unfolded path_resolve_def] is_absolute_def)

end
