(* ===== verification/Config.thy ===== *)
theory Config
  imports Complex_Main Naming Values Paths
begin

text \<open>
  The gateway's configuration: the settings \<open>apps/gateway/src/config/schema.ts\<close> declares, with their
  defaults and bounds, and \<open>load.ts\<close>, which resolves paths and environment references. zod's parser
  is a parameter: a function from the decoded file to its issues or to the settings; the bounds are
  what the schema makes it promise.
\<close>

section \<open>Settings\<close>

record reconnect_settings =
  rc_initialDelayMs :: int
  rc_maxDelayMs :: int
  rc_factor :: rat
  rc_failFastAfter :: int

datatype upstream_protocol = ProtocolAuto | ProtocolPinned | ProtocolLegacy

record pool_settings =
  pl_connectTimeoutMs :: int
  pl_requestTimeoutMs :: int
  pl_reconnect :: reconnect_settings
  pl_upstreamProtocol :: upstream_protocol
  pl_listMaxPages :: int

definition default_pool :: pool_settings where
  "default_pool = \<lparr>pl_connectTimeoutMs = 10000, pl_requestTimeoutMs = 30000,
     pl_reconnect = \<lparr>rc_initialDelayMs = 500, rc_maxDelayMs = 30000, rc_factor = 2, rc_failFastAfter = 3\<rparr>,
     pl_upstreamProtocol = ProtocolAuto, pl_listMaxPages = 16\<rparr>"

definition in_bounds :: "int \<Rightarrow> int \<Rightarrow> int \<Rightarrow> bool" where
  "in_bounds lo hi n = (lo \<le> n \<and> n \<le> hi)"

definition pool_ok :: "pool_settings \<Rightarrow> bool" where
  "pool_ok p =
     (in_bounds 1 120000 (pl_connectTimeoutMs p) \<and> in_bounds 1 600000 (pl_requestTimeoutMs p)
      \<and> in_bounds 1 60000 (rc_initialDelayMs (pl_reconnect p))
      \<and> in_bounds 1 3600000 (rc_maxDelayMs (pl_reconnect p))
      \<and> 1 \<le> rc_factor (pl_reconnect p) \<and> rc_factor (pl_reconnect p) \<le> 10
      \<and> in_bounds 1 100 (rc_failFastAfter (pl_reconnect p)) \<and> in_bounds 1 1000 (pl_listMaxPages p))"

datatype drift_action = DriftFlag | DriftWithhold

record catalog_settings =
  cg_maxToolsPerServer :: nat
  cg_maxTools :: nat
  cg_maxDefinitionBytes :: nat
  cg_onDefinitionDrift :: drift_action

definition default_catalog :: catalog_settings where
  "default_catalog = \<lparr>cg_maxToolsPerServer = 256, cg_maxTools = 1024, cg_maxDefinitionBytes = 65536,
     cg_onDefinitionDrift = DriftWithhold\<rparr>"

definition catalog_ok :: "catalog_settings \<Rightarrow> bool" where
  "catalog_ok c = (in_bounds 1 4096 (int (cg_maxToolsPerServer c)) \<and> in_bounds 1 16384 (int (cg_maxTools c))
     \<and> in_bounds 1 4194304 (int (cg_maxDefinitionBytes c)))"

record forward_settings =
  fw_maxArgumentBytes :: nat
  fw_maxResourceUriBytes :: nat
  fw_maxResultBytes :: nat

definition default_forward :: forward_settings where
  "default_forward = \<lparr>fw_maxArgumentBytes = 262144, fw_maxResourceUriBytes = 2048,
     fw_maxResultBytes = 1048576\<rparr>"

definition forward_ok :: "forward_settings \<Rightarrow> bool" where
  "forward_ok f = (in_bounds 1 16777216 (int (fw_maxArgumentBytes f))
     \<and> in_bounds 1 65536 (int (fw_maxResourceUriBytes f)) \<and> in_bounds 1 33554432 (int (fw_maxResultBytes f)))"

record http_settings =
  ht_host :: jstring
  ht_port :: int
  ht_allowedOrigins :: "jstring list"
  ht_maxBodyBytes :: nat

definition default_http :: http_settings where
  "default_http = \<lparr>ht_host = js ''127.0.0.1'', ht_port = 8787, ht_allowedOrigins = [],
     ht_maxBodyBytes = 4194304\<rparr>"

definition http_ok :: "http_settings \<Rightarrow> bool" where
  "http_ok h = (ht_host h \<noteq> [] \<and> in_bounds 0 65535 (ht_port h) \<and> in_bounds 1 67108864 (int (ht_maxBodyBytes h)))"

datatype provider_settings = GroqSettings (gq_apiKey: jstring) (gq_model: jstring)
  | OllamaSettings (ol_url: jstring) (ol_model: jstring)

record risk_settings =
  rs_heuristicOnly :: bool
  rs_llmTimeoutMs :: int
  rs_escalationThreshold :: int
  rs_escalateObligation :: obligation
  rs_provider :: "provider_settings option"

definition default_risk :: risk_settings where
  "default_risk = \<lparr>rs_heuristicOnly = False, rs_llmTimeoutMs = 5000, rs_escalationThreshold = 80,
     rs_escalateObligation = Approve, rs_provider = None\<rparr>"

definition risk_ok :: "risk_settings \<Rightarrow> bool" where
  "risk_ok r = (1 \<le> rs_llmTimeoutMs r \<and> in_bounds 0 100 (rs_escalationThreshold r)
     \<and> (case rs_provider r of Some (GroqSettings k m) \<Rightarrow> starts_with k (js ''env:'') | _ \<Rightarrow> True))"

record approval_settings =
  as_hmacSecret :: jstring
  as_loopbackBaseUrl :: jstring
  as_discordWebhookUrl :: "jstring option"

record server_settings =
  us_id :: jstring
  us_label :: "jstring option"
  us_transport :: upstream_transport
  us_trust :: server_trust
  us_allowTools :: "jstring list option"
  us_enabled :: bool

record gateway_config =
  gc_instanceName :: jstring
  gc_http :: http_settings
  gc_policyDir :: jstring
  gc_auditDb :: jstring
  gc_workspaceRoot :: jstring
  gc_upstream :: pool_settings
  gc_catalog :: catalog_settings
  gc_forward :: forward_settings
  gc_risk :: risk_settings
  gc_approval :: "approval_settings option"
  gc_approvalDb :: jstring
  gc_servers :: "server_settings list"
  gc_toolGroups :: "jstring list props"

section \<open>Environment references\<close>

definition env_reference_prefix :: jstring where
  "env_reference_prefix = js ''env:''"

definition resolve_env_reference ::
    "jstring \<Rightarrow> jstring \<Rightarrow> (jstring \<Rightarrow> jstring option) \<Rightarrow> exn + jstring" where
  "resolve_env_reference v loc env =
     (if \<not> starts_with v env_reference_prefix then Inr v
      else let name = js_trim (drop (length env_reference_prefix) v) in
        if length name = 0
        then Inl (ConfigError (loc @ js '': \"'' @ env_reference_prefix @ js ''\" reference has no variable name'') [])
        else case env name of
          None \<Rightarrow> Inl (ConfigError (loc @ js '': environment variable '' @ name @ js '' is not set'') [])
        | Some r \<Rightarrow>
            if length r = 0
            then Inl (ConfigError (loc @ js '': environment variable '' @ name @ js '' is not set'') [])
            else Inr r)"

fun resolve_entries ::
    "jstring props \<Rightarrow> jstring \<Rightarrow> (jstring \<Rightarrow> jstring option) \<Rightarrow> jstring props \<Rightarrow> exn + jstring props" where
  "resolve_entries [] loc env out = Inr out"
| "resolve_entries ((k, v) # r) loc env out =
     bind_r (resolve_env_reference v (loc @ 46 # k) env)
       (\<lambda>x. resolve_entries r loc env (js_assign k x out))"

definition resolve_record ::
    "jstring props \<Rightarrow> jstring \<Rightarrow> (jstring \<Rightarrow> jstring option) \<Rightarrow> exn + jstring props" where
  "resolve_record r loc env = resolve_entries r loc env []"

section \<open>Loading\<close>

definition absolute_path :: "jstring \<Rightarrow> jstring \<Rightarrow> jstring \<Rightarrow> jstring" where
  "absolute_path cwd baseDir p = (if is_absolute p then p else path_resolve cwd [baseDir, p])"

definition resolve_server ::
    "jstring \<Rightarrow> jstring \<Rightarrow> (jstring \<Rightarrow> jstring option) \<Rightarrow> server_settings \<Rightarrow> exn + server_settings" where
  "resolve_server cwd baseDir env s =
     (let loc = js ''servers.'' @ us_id s in
      case us_transport s of
        HttpTransport url headers \<Rightarrow>
          bind_r (resolve_record headers (loc @ js ''.transport.headers'') env)
            (\<lambda>hs. Inr (s\<lparr>us_transport := HttpTransport url hs\<rparr>))
      | StdioTransport command args senv cwd' \<Rightarrow>
          bind_r (resolve_record senv (loc @ js ''.transport.env'') env)
            (\<lambda>es. Inr (s\<lparr>us_transport := StdioTransport command args es
                           (map_option (absolute_path cwd baseDir) cwd')\<rparr>)))"

type_synonym config_schema = "jvalue \<Rightarrow> (jstring list \<times> jstring) list + gateway_config"

text \<open>
  What the schema adds to zod's checks of single fields: the two refinements of a server id, and the check
  across the servers. \<open>zod\<close> is the parser for the declared fields, defaults filled in.
\<close>

definition server_id_issues :: "nat \<Rightarrow> server_settings \<Rightarrow> (jstring list \<times> jstring) list" where
  "server_id_issues index server = map (\<lambda>m. ([js ''servers'', dec index, js ''id''], m))
     ((if is_valid_server_id (us_id server) then []
       else [js ''must be lowercase alphanumeric with dashes, and contain no \"__\" separator''])
      @ (if us_id server \<noteq> sentinel_server_id then []
         else [34 # sentinel_server_id @ js ''\" is reserved for the gateway'' @ 39 # js ''s own tools'']))"

fun duplicate_issues :: "nat \<Rightarrow> jstring list \<Rightarrow> server_settings list \<Rightarrow> (jstring list \<times> jstring) list" where
  "duplicate_issues index seen [] = []"
| "duplicate_issues index seen (server # r) =
     (if us_id server \<in> set seen
      then [([js ''servers'', dec index, js ''id''], js ''duplicate server id \"'' @ us_id server @ [34])] else [])
     @ duplicate_issues (Suc index) (us_id server # seen) r"

definition gateway_config_schema :: "config_schema \<Rightarrow> config_schema" where
  "gateway_config_schema zod input =
     (case zod input of
        Inl issues \<Rightarrow> Inl issues
      | Inr config \<Rightarrow>
          let servers = gc_servers config;
              issues = concat (map (\<lambda>(i, s). server_id_issues i s) (zip [0..<length servers] servers));
              issues' = (if issues = [] then duplicate_issues 0 [] servers else issues)
          in if issues' = [] then Inr config else Inl issues')"

lemma duplicate_issues_iff:
  "duplicate_issues i seen ss = [] \<longleftrightarrow> distinct (map us_id ss) \<and> set seen \<inter> us_id ` set ss = {}"
  by (induction ss arbitrary: i seen) auto

lemma server_id_issues_iff:
  "server_id_issues i s = [] \<longleftrightarrow> is_valid_server_id (us_id s) \<and> us_id s \<noteq> sentinel_server_id"
  by (simp add: server_id_issues_def)

text \<open>
  The schema accepts a configuration exactly when zod accepts its fields and the server ids are valid, not
  the gateway's own, and pairwise distinct.
\<close>

theorem schema_accepts_iff:
  "gateway_config_schema zod input = Inr config \<longleftrightarrow> zod input = Inr config
     \<and> list_all (\<lambda>s. is_valid_server_id (us_id s) \<and> us_id s \<noteq> sentinel_server_id) (gc_servers config)
     \<and> distinct (map us_id (gc_servers config))"
proof -
  have "concat (map (\<lambda>(i, s). server_id_issues i s) (zip [0..<length ss] ss)) = [] \<longleftrightarrow>
      list_all (\<lambda>s. is_valid_server_id (us_id s) \<and> us_id s \<noteq> sentinel_server_id) ss" for ss
    by (auto simp: server_id_issues_iff list_all_length set_zip)
  then show ?thesis
    by (auto simp: gateway_config_schema_def Let_def duplicate_issues_iff split: sum.splits)
qed

definition describe_issues :: "(jstring list \<times> jstring) list \<Rightarrow> jstring list" where
  "describe_issues issues = map (\<lambda>(path, message).
     (if path = [] then js ''(root)'' else join_with [46] path) @ js '': '' @ message) issues"

text \<open>\<open>new ConfigError(message, issues)\<close>: the issues are also part of the message.\<close>

definition config_error :: "jstring \<Rightarrow> jstring list \<Rightarrow> exn" where
  "config_error message issues = ConfigError
     (if issues = [] then message
      else message @ [10] @ js ''  - '' @ join_with (10 # js ''  - '') issues) issues"

definition parse_config ::
    "config_schema \<Rightarrow> jstring \<Rightarrow> jstring \<Rightarrow> (jstring \<Rightarrow> jstring option) \<Rightarrow> jvalue \<Rightarrow> exn + gateway_config" where
  "parse_config schema cwd baseDir env input =
     (case schema input of
        Inl issues \<Rightarrow> Inl (config_error (js ''Invalid gateway configuration'') (describe_issues issues))
      | Inr config \<Rightarrow>
          bind_r (map_r (resolve_server cwd baseDir env) (gc_servers config)) (\<lambda>servers.
          Inr (config\<lparr>gc_policyDir := absolute_path cwd baseDir (gc_policyDir config),
                       gc_auditDb := absolute_path cwd baseDir (gc_auditDb config),
                       gc_workspaceRoot := absolute_path cwd baseDir (gc_workspaceRoot config),
                       gc_servers := servers\<rparr>)))"

text \<open>
  \<open>read\<close> gives the text of a file or the message of the error; \<open>json_parse\<close> likewise.
\<close>

definition load_config_file ::
    "config_schema \<Rightarrow> (jstring \<Rightarrow> jstring + jstring) \<Rightarrow> (jstring \<Rightarrow> jstring + jvalue) \<Rightarrow> jstring \<Rightarrow>
     (jstring \<Rightarrow> jstring option) \<Rightarrow> jstring \<Rightarrow> exn + gateway_config" where
  "load_config_file schema read json_parse cwd env path =
     (let absolutePath = (if is_absolute path then path else path_resolve cwd [cwd, path]) in
      case read absolutePath of
        Inl m \<Rightarrow> Inl (config_error (js ''Cannot read config file '' @ absolutePath) [m])
      | Inr text \<Rightarrow>
          case json_parse text of
            Inl m \<Rightarrow> Inl (config_error (js ''Config file '' @ absolutePath @ js '' is not valid JSON'') [m])
          | Inr json \<Rightarrow> parse_config schema cwd (path_resolve cwd [absolutePath, js ''..'']) env json)"

section \<open>Lemmas\<close>

definition is_reference :: "jstring \<Rightarrow> bool" where
  "is_reference v = starts_with v env_reference_prefix"

definition reference_name :: "jstring \<Rightarrow> jstring" where
  "reference_name v = js_trim (drop (length env_reference_prefix) v)"

text \<open>What a value stands for: itself, or the non-empty variable it names.\<close>

definition resolved_value :: "(jstring \<Rightarrow> jstring option) \<Rightarrow> jstring \<Rightarrow> jstring option" where
  "resolved_value env v = (if \<not> is_reference v then Some v
     else if reference_name v = [] then None
     else case env (reference_name v) of Some r \<Rightarrow> if r = [] then None else Some r | None \<Rightarrow> None)"

lemma resolve_env_reference_iff:
  "resolve_env_reference v w env = Inr r \<longleftrightarrow> resolved_value env v = Some r"
  by (auto simp: resolve_env_reference_def resolved_value_def is_reference_def reference_name_def Let_def
      split: option.splits)

lemma resolve_entries_iff:
  "wf_props (out @ kvs) \<Longrightarrow>
   resolve_entries kvs w env out = Inr res \<longleftrightarrow>
     list_all (\<lambda>(k, v). resolved_value env v \<noteq> None) kvs
     \<and> res = out @ map (\<lambda>(k, v). (k, the (resolved_value env v)))
                       (filter (\<lambda>(k, v). k \<noteq> js ''__proto__'') kvs)"
proof (induction kvs w env out rule: resolve_entries.induct)
  case (2 k v r w env out)
  show ?case
  proof (cases "resolve_env_reference v (w @ 46 # k) env")
    case (Inl e)
    then have "resolved_value env v = None"
      using resolve_env_reference_iff [of v "w @ 46 # k" env] by (cases "resolved_value env v") auto
    with Inl show ?thesis by simp
  next
    case (Inr x)
    then have x: "resolved_value env v = Some x" by (simp add: resolve_env_reference_iff)
    have new: "js_assign k x out = (if k = js ''__proto__'' then out else out @ [(k, x)])"
      using 2(2) by (auto simp: js_assign_def wf_props_def put_new)
    then have "wf_props (js_assign k x out @ r)" using 2(2) by (auto simp: wf_props_def)
    from 2(1) [OF Inr this] show ?thesis using Inr x by (auto simp: new)
  qed
qed auto

lemmas resolve_record_iff = resolve_entries_iff [of "[]", simplified, folded resolve_record_def]

definition transport_props :: "upstream_transport \<Rightarrow> jstring props" where
  "transport_props t = (case t of HttpTransport _ hs \<Rightarrow> hs | StdioTransport _ _ es _ \<Rightarrow> es)"

lemma resolve_server_Inr:
  assumes "resolve_server cwd b env s = Inr s'" "wf_props (transport_props (us_transport s))"
  shows "s'\<lparr>us_transport := us_transport s\<rparr> = s
    \<and> transport_props (us_transport s') = map (\<lambda>(k, v). (k, the (resolved_value env v)))
        (filter (\<lambda>(k, v). k \<noteq> js ''__proto__'') (transport_props (us_transport s)))
    \<and> list_all (\<lambda>(k, v). resolved_value env v \<noteq> None) (transport_props (us_transport s))"
  using assms
  by (cases "us_transport s")
    (auto simp: resolve_server_def Let_def bind_r_Inr_iff transport_props_def resolve_record_iff)

lemma absolute_path_absolute [simp]: "is_absolute (absolute_path cwd b p)"
  by (simp add: absolute_path_def)

text \<open>A server's settings other than its transport.\<close>

definition server_identity :: "server_settings \<Rightarrow> jstring \<times> jstring option \<times> server_trust \<times> jstring list option \<times> bool" where
  "server_identity s = (us_id s, us_label s, us_trust s, us_allowTools s, us_enabled s)"

lemma server_identity_cong: "s\<lparr>us_transport := t\<rparr> = s0 \<Longrightarrow> server_identity s = server_identity s0"
  by (auto simp: server_identity_def)

section \<open>Properties\<close>

text \<open>
  An environment reference is resolved or refused, never dropped. A value without the prefix is
  returned as it is; one with it gives the variable's text, which is then not empty, and throws when
  the name is empty or the variable is missing or empty.
\<close>

theorem env_reference_strict:
  "(if \<not> starts_with v env_reference_prefix then resolve_env_reference v w env = Inr v
    else if reference_name v \<noteq> [] \<and> env (reference_name v) \<notin> {None, Some []}
    then resolve_env_reference v w env = Inr (the (env (reference_name v)))
    else \<exists>m. resolve_env_reference v w env = Inl (ConfigError m []))"
  unfolding resolve_env_reference_def reference_name_def [symmetric] Let_def by (auto split: option.splits)

text \<open>
  A configuration that parses has absolute directories and every header and environment value
  of every server resolved; server ids, trust, allow lists and order are those of the file, and the
  other settings, the approval database's relative path among them, are passed on unchanged.
\<close>

theorem parsed_config_resolved:
  assumes "parse_config schema cwd baseDir env input = Inr c" "schema input = Inr c0"
    and "list_all (\<lambda>s. wf_props (transport_props (us_transport s))) (gc_servers c0)"
  shows "is_absolute (gc_policyDir c) \<and> is_absolute (gc_auditDb c) \<and> is_absolute (gc_workspaceRoot c)
    \<and> map server_identity (gc_servers c) = map server_identity (gc_servers c0)
    \<and> list_all2 (\<lambda>s0 s. transport_props (us_transport s) =
          map (\<lambda>(k, v). (k, the (resolved_value env v)))
            (filter (\<lambda>(k, v). k \<noteq> js ''__proto__'') (transport_props (us_transport s0))))
        (gc_servers c0) (gc_servers c)
    \<and> gc_approvalDb c = gc_approvalDb c0 \<and> gc_upstream c = gc_upstream c0 \<and> gc_forward c = gc_forward c0"
proof -
  obtain servers where s: "map_r (resolve_server cwd baseDir env) (gc_servers c0) = Inr servers"
    and c: "c = c0\<lparr>gc_policyDir := absolute_path cwd baseDir (gc_policyDir c0),
       gc_auditDb := absolute_path cwd baseDir (gc_auditDb c0),
       gc_workspaceRoot := absolute_path cwd baseDir (gc_workspaceRoot c0), gc_servers := servers\<rparr>"
    using assms(1,2) by (auto simp: parse_config_def bind_r_Inr_iff)
  have pairs: "list_all2 (\<lambda>s0 s. s\<lparr>us_transport := us_transport s0\<rparr> = s0
      \<and> transport_props (us_transport s) = map (\<lambda>(k, v). (k, the (resolved_value env v)))
          (filter (\<lambda>(k, v). k \<noteq> js ''__proto__'') (transport_props (us_transport s0)))) (gc_servers c0) servers"
    unfolding list_all2_conv_all_nth
  proof (intro conjI allI impI)
    show "length (gc_servers c0) = length servers" using s by (simp add: map_r_Inr_iff list_all2_lengthD)
    fix i assume i: "i < length (gc_servers c0)"
    then have "resolve_server cwd baseDir env (gc_servers c0 ! i) = Inr (servers ! i)"
      using s by (auto simp: map_r_Inr_iff dest: list_all2_nthD)
    moreover have "wf_props (transport_props (us_transport (gc_servers c0 ! i)))"
      using assms(3) i by (simp add: list_all_length)
    ultimately show "(servers ! i)\<lparr>us_transport := us_transport (gc_servers c0 ! i)\<rparr> = gc_servers c0 ! i"
      "transport_props (us_transport (servers ! i)) = map (\<lambda>(k, v). (k, the (resolved_value env v)))
          (filter (\<lambda>(k, v). k \<noteq> js ''__proto__'') (transport_props (us_transport (gc_servers c0 ! i))))"
      by (blast dest: resolve_server_Inr)+
  qed
  have "map server_identity servers = map server_identity (gc_servers c0)"
    using pairs by (induction rule: list_all2_induct) (auto dest: server_identity_cong)
  moreover have "list_all2 (\<lambda>s0 s. transport_props (us_transport s) = map (\<lambda>(k, v). (k, the (resolved_value env v)))
      (filter (\<lambda>(k, v). k \<noteq> js ''__proto__'') (transport_props (us_transport s0)))) (gc_servers c0) servers"
    by (rule list_all2_mono [OF pairs]) (rule conjunct2)
  ultimately show ?thesis unfolding c by (intro conjI) simp_all
qed

definition sample_config :: gateway_config where
  "sample_config = \<lparr>gc_instanceName = js ''g'', gc_http = default_http, gc_policyDir = js ''policies'',
     gc_auditDb = js ''.sentinel/audit.db'', gc_workspaceRoot = js ''work'', gc_upstream = default_pool,
     gc_catalog = default_catalog, gc_forward = default_forward, gc_risk = default_risk, gc_approval = None,
     gc_approvalDb = js ''.sentinel/approvals.db'',
     gc_servers = [\<lparr>us_id = js ''files'', us_label = None,
       us_transport = HttpTransport (js ''http://h/'') [(js ''Authorization'', js ''env:T'')],
       us_trust = Untrusted, us_allowTools = None, us_enabled = True\<rparr>],
     gc_toolGroups = []\<rparr>"

lemma parsed_config_resolved_witness:
  "\<exists>c. parse_config (\<lambda>_. Inr sample_config) (js ''/'') (js ''/etc'') (\<lambda>_. Some (js ''secret'')) JNull = Inr c
     \<and> is_absolute (gc_auditDb c) \<and> gc_approvalDb c = js ''.sentinel/approvals.db''"
proof -
  obtain c where c: "parse_config (\<lambda>_. Inr sample_config) (js ''/'') (js ''/etc'') (\<lambda>_. Some (js ''secret'')) JNull = Inr c"
    by (simp add: parse_config_def sample_config_def resolve_server_def resolve_record_def Let_def
        resolve_env_reference_def env_reference_prefix_def starts_with_def js_trim_def js_space_def js_def)
  have "list_all (\<lambda>s. wf_props (transport_props (us_transport s))) (gc_servers sample_config)"
    by (simp add: sample_config_def transport_props_def wf_props_def)
  from parsed_config_resolved [OF c refl this] c show ?thesis by (auto simp: sample_config_def)
qed

text \<open>
  Every default is within the bounds the schema declares, and is the cautious choice: the gateway
  binds to loopback, withholds tools whose definition drifts and escalates to approval.
\<close>

theorem defaults_within_bounds:
  "pool_ok default_pool \<and> catalog_ok default_catalog \<and> forward_ok default_forward \<and> http_ok default_http
   \<and> risk_ok default_risk \<and> ht_host default_http = js ''127.0.0.1''
   \<and> cg_onDefinitionDrift default_catalog = DriftWithhold \<and> rs_escalateObligation default_risk = Approve"
  by (simp add: pool_ok_def catalog_ok_def forward_ok_def http_ok_def risk_ok_def in_bounds_def
      default_pool_def default_catalog_def default_forward_def default_http_def default_risk_def)

end
