(* ===== verification/Backoff.thy ===== *)
theory Backoff
  imports Config
begin

text \<open>
  Reconnect backoff, \<open>apps/gateway/src/upstream/backoff.ts\<close>. Delays are computed in exact rationals:
  the code's doubles agree up to rounding, and its test for an infinite power is a minimum with the
  cap, which exact arithmetic takes as well. The random source is an argument in \<open>[0, 1)\<close>.
\<close>

record backoff_policy =
  bp_initialDelayMs :: rat
  bp_maxDelayMs :: rat
  bp_factor :: rat

definition backoff_target :: "int \<Rightarrow> backoff_policy \<Rightarrow> rat" where
  "backoff_target attempt p =
     (let step = max 1 attempt; uncapped = bp_initialDelayMs p * bp_factor p ^ nat (step - 1)
      in min (bp_maxDelayMs p) uncapped)"

text \<open>\<open>Math.round\<close> rounds halves up.\<close>

definition js_round :: "rat \<Rightarrow> int" where
  "js_round x = \<lfloor>x + 1 / 2\<rfloor>"

definition backoff_delay_ms :: "int \<Rightarrow> backoff_policy \<Rightarrow> rat \<Rightarrow> int" where
  "backoff_delay_ms attempt p r =
     (let half = backoff_target attempt p / 2 in js_round (half + r * half))"

definition policy_of_settings :: "reconnect_settings \<Rightarrow> backoff_policy" where
  "policy_of_settings s = \<lparr>bp_initialDelayMs = of_int (rc_initialDelayMs s),
     bp_maxDelayMs = of_int (rc_maxDelayMs s), bp_factor = rc_factor s\<rparr>"

lemma js_round_mono: "x \<le> y \<Longrightarrow> js_round x \<le> js_round y"
  by (simp add: js_round_def floor_mono)

lemma js_round_of_int [simp]: "js_round (of_int i) = i"
  by (simp add: js_round_def floor_unique)

lemma backoff_target_mono:
  assumes "a \<le> b" "0 \<le> bp_initialDelayMs p" "1 \<le> bp_factor p"
  shows "backoff_target a p \<le> backoff_target b p"
proof -
  have "nat (max 1 a - 1) \<le> nat (max 1 b - 1)" using assms(1) by linarith
  from power_increasing [OF this assms(3)] assms(2)
  have "bp_initialDelayMs p * bp_factor p ^ nat (max 1 a - 1) \<le> bp_initialDelayMs p * bp_factor p ^ nat (max 1 b - 1)"
    by (rule mult_left_mono)
  then show ?thesis by (auto simp: backoff_target_def Let_def)
qed

lemma backoff_target_bounds:
  assumes "1 \<le> bp_initialDelayMs p" "1 \<le> bp_maxDelayMs p" "1 \<le> bp_factor p"
  shows "1 \<le> backoff_target a p" "backoff_target a p \<le> bp_maxDelayMs p"
proof -
  have "1 * 1 \<le> bp_initialDelayMs p * bp_factor p ^ nat (max 1 a - 1)"
    using assms by (intro mult_mono one_le_power) auto
  with assms(2) show "1 \<le> backoff_target a p" by (simp add: backoff_target_def Let_def)
qed (simp add: backoff_target_def Let_def)

text \<open>
  C33: for every setting the schema allows and every value of the random source, the delay is positive,
  at least half and at most all of the target rounded, never above the cap, and for the same random
  value it does not decrease with the attempt.
\<close>

theorem backoff_bounded:
  assumes "pool_ok pool" "0 \<le> r" "r < 1" "a \<le> b"
  defines "p \<equiv> policy_of_settings (pl_reconnect pool)"
  shows "1 \<le> backoff_delay_ms a p r \<and> backoff_delay_ms a p r \<le> rc_maxDelayMs (pl_reconnect pool)
    \<and> js_round (backoff_target a p / 2) \<le> backoff_delay_ms a p r
    \<and> backoff_delay_ms a p r \<le> js_round (backoff_target a p)
    \<and> backoff_delay_ms a p r \<le> backoff_delay_ms b p r"
proof -
  have ok: "1 \<le> bp_initialDelayMs p" "1 \<le> bp_maxDelayMs p" "1 \<le> bp_factor p"
    "bp_maxDelayMs p = of_int (rc_maxDelayMs (pl_reconnect pool))"
    using assms(1) by (simp_all add: p_def pool_ok_def in_bounds_def policy_of_settings_def)
  note t = backoff_target_bounds [OF ok(1-3), of a]
  let ?h = "backoff_target a p / 2"
  have h: "0 \<le> r * ?h" "r * ?h \<le> 1 * ?h" using t(1) assms(2,3) by (simp, intro mult_right_mono) auto
  then have lo: "js_round ?h \<le> backoff_delay_ms a p r" and hi: "backoff_delay_ms a p r \<le> js_round (backoff_target a p)"
    by (auto simp: backoff_delay_ms_def Let_def intro!: js_round_mono)
  have "js_round (backoff_target a p) \<le> js_round (bp_maxDelayMs p)" by (rule js_round_mono [OF t(2)])
  then have cap: "js_round (backoff_target a p) \<le> rc_maxDelayMs (pl_reconnect pool)" by (simp add: ok(4))
  have "1 \<le> js_round ?h" using t(1) by (simp add: js_round_def le_floor_iff)
  moreover have "?h + r * ?h \<le> backoff_target b p / 2 + r * (backoff_target b p / 2)"
    using backoff_target_mono [OF assms(4), of p] ok assms(2) by (intro add_mono mult_left_mono) auto
  then have "backoff_delay_ms a p r \<le> backoff_delay_ms b p r"
    by (simp add: backoff_delay_ms_def Let_def js_round_mono)
  ultimately show ?thesis using lo hi cap by linarith
qed

lemma backoff_bounded_witness:
  "1 \<le> backoff_delay_ms 1 (policy_of_settings (pl_reconnect default_pool)) 0
   \<and> backoff_delay_ms 9 (policy_of_settings (pl_reconnect default_pool)) 0 \<le> 30000"
  using backoff_bounded [of default_pool 0 1 9] backoff_bounded [of default_pool 0 9 9]
  by (simp add: default_pool_def pool_ok_def in_bounds_def)

section \<open>Cancellable sleep\<close>

text \<open>
  The promise of \<open>sleep\<close>: an aborted signal rejects at once, otherwise the timer and the abort race.
  \<open>abortAt\<close> is when the signal aborts, if ever, counted from the call; the timer wins a tie, and the
  loser's listener or timer is removed.
\<close>

datatype sleep_outcome = Slept nat | SleepAborted nat

definition sleep_ms :: "nat \<Rightarrow> nat option \<Rightarrow> sleep_outcome" where
  "sleep_ms ms abortAt = (case abortAt of
      None \<Rightarrow> Slept ms
    | Some t \<Rightarrow> if t = 0 then SleepAborted 0 else if t < ms then SleepAborted t else Slept ms)"

end
