(* ===== verification/Ids.thy ===== *)
theory Ids
  imports CoreTypes
begin

text \<open>
  Identifier minting of \<open>packages/mcp-core/src/ids.ts\<close>: the monotonic ULID factory with its
  state, prefixed ids, their recogniser, the time they carry, and ISO timestamps. Randomness is an
  argument: the 16 bytes \<open>randomBytes\<close> returned for the call.
\<close>

definition alphabet :: jstring where
  "alphabet = js ''0123456789ABCDEFGHJKMNPQRSTVWXYZ''"

definition ulid_length :: nat where "ulid_length = 10 + 16"
definition max_time :: int where "max_time = 2 ^ 48 - 1"

definition assert_timestamp_in_range :: "int \<Rightarrow> exn + unit" where
  "assert_timestamp_in_range t = guard_r (0 \<le> t \<and> t \<le> max_time)
     (IdError (js ''timestamp out of range for a ULID: '' @ num_text (num_of_int t)))"

fun encode_time_loop :: "nat \<Rightarrow> nat \<Rightarrow> jstring \<Rightarrow> jstring" where
  "encode_time_loop 0 remaining out = out"
| "encode_time_loop (Suc k) remaining out =
     encode_time_loop k (remaining div 32) ((alphabet ! (remaining mod 32)) # out)"

definition encode_time :: "nat \<Rightarrow> jstring" where
  "encode_time t = encode_time_loop 10 t []"

definition random_chars :: "byte list \<Rightarrow> jstring" where
  "random_chars bytes = map (\<lambda>b. alphabet ! (unat b mod 32)) bytes"

text \<open>The loop of \<open>incrementChars\<close> runs from the last digit; the list is reversed.\<close>

fun increment_rev :: "jstring \<Rightarrow> jstring option" where
  "increment_rev [] = None"
| "increment_rev (d # r) =
     (case index_of [d] alphabet of
        None \<Rightarrow> None
      | Some position \<Rightarrow>
          if position < 31 then Some ((alphabet ! (position + 1)) # r)
          else map_option (Cons (alphabet ! 0)) (increment_rev r))"

definition increment_chars :: "jstring \<Rightarrow> jstring option" where
  "increment_chars chars = map_option rev (increment_rev (rev chars))"

record ulid_factory =
  lastTime :: int
  lastRandom :: jstring

definition new_factory :: ulid_factory where
  "new_factory = \<lparr>lastTime = -1, lastRandom = []\<rparr>"

text \<open>\<open>next(now)\<close>, on \<open>Math.floor(now)\<close> and the bytes drawn by this call if it draws any.\<close>

definition next_ulid :: "ulid_factory \<Rightarrow> int \<Rightarrow> byte list \<Rightarrow> exn + (jstring \<times> ulid_factory)" where
  "next_ulid f now bytes =
     bind_r (assert_timestamp_in_range now) (\<lambda>_.
     if now > lastTime f then
       let f' = \<lparr>lastTime = now, lastRandom = random_chars bytes\<rparr>
       in Inr (encode_time (nat (lastTime f')) @ lastRandom f', f')
     else
       let nxt = increment_chars (lastRandom f);
           f' = f\<lparr>lastRandom := (case nxt of Some r \<Rightarrow> r | None \<Rightarrow> random_chars bytes)\<rparr>
       in Inr (encode_time (nat (lastTime f')) @ lastRandom f', f'))"

definition ulid_time :: "jstring \<Rightarrow> nat option" where
  "ulid_time i =
     (let body = (case index_of [95] i of Some k \<Rightarrow> drop (k + 1) i | None \<Rightarrow> i) in
      if length body \<noteq> ulid_length then None
      else fold (\<lambda>c acc. Option.bind acc (\<lambda>timestamp.
             map_option (\<lambda>position. timestamp * 32 + position) (index_of [c] alphabet)))
           (take 10 body) (Some 0))"

datatype id_kind = KDecision | KApproval | KTask | KFinding | KTrace | KCheckpoint

definition id_prefix :: "id_kind \<Rightarrow> jstring" where
  "id_prefix k = (case k of KDecision \<Rightarrow> js ''dec'' | KApproval \<Rightarrow> js ''apv'' | KTask \<Rightarrow> js ''tsk''
     | KFinding \<Rightarrow> js ''fnd'' | KTrace \<Rightarrow> js ''trc'' | KCheckpoint \<Rightarrow> js ''ckp'')"

definition new_id :: "id_kind \<Rightarrow> ulid_factory \<Rightarrow> int \<Rightarrow> byte list \<Rightarrow> exn + (jstring \<times> ulid_factory)" where
  "new_id kind f now bytes =
     bind_r (next_ulid f now bytes) (\<lambda>(u, f'). Inr (id_prefix kind @ 95 # u, f'))"

definition is_id :: "id_kind \<Rightarrow> jstring \<Rightarrow> bool" where
  "is_id kind i =
     (let p = id_prefix kind @ [95]; body = drop (length p) i in
      starts_with i p \<and> length body = ulid_length
      \<and> list_all (\<lambda>c. str_includes alphabet [c]) body)"

section \<open>ISO timestamps\<close>

fun pad_left :: "nat \<Rightarrow> jstring \<Rightarrow> jstring" where
  "pad_left k s = replicate (k - length s) 48 @ s"

text \<open>Year, month and day of a day number counted from 1970-01-01.\<close>

definition civil_of_days :: "int \<Rightarrow> int \<times> int \<times> int" where
  "civil_of_days n =
     (let z = n + 719468; era = z div 146097; doe = z mod 146097;
          yoe = (doe - doe div 1460 + doe div 36524 - doe div 146096) div 365;
          doy = doe - (365 * yoe + yoe div 4 - yoe div 100);
          mp = (5 * doy + 2) div 153;
          d = doy - (153 * mp + 2) div 5 + 1;
          m = (if mp < 10 then mp + 3 else mp - 9)
      in (yoe + era * 400 + (if m \<le> 2 then 1 else 0), m, d))"

definition iso_year :: "int \<Rightarrow> jstring" where
  "iso_year y = (if 0 \<le> y \<and> y \<le> 9999 then pad_left 4 (dec (nat y))
     else (if y < 0 then 45 else 43) # pad_left 6 (dec (nat \<bar>y\<bar>)))"

definition iso_timestamp :: "int \<Rightarrow> exn + jstring" where
  "iso_timestamp t =
     (if \<bar>t\<bar> > 8640000000000000 then Inl RangeError
      else let (y, m, d) = civil_of_days (t div 86400000); r = t mod 86400000;
               two = (\<lambda>x. pad_left 2 (dec (nat x)))
           in Inr (iso_year y @ 45 # two m @ 45 # two d @ 84 # two (r div 3600000)
                   @ 58 # two (r div 60000 mod 60) @ 58 # two (r div 1000 mod 60)
                   @ 46 # pad_left 3 (dec (nat (r mod 1000))) @ [90]))"

section \<open>Order of fixed-width base-32 texts\<close>

lemma index_of_nth: "distinct xs \<Longrightarrow> i < length xs \<Longrightarrow> index_of [xs ! i] xs = Some i"
proof (induction xs arbitrary: i)
  case (Cons x xs)
  then show ?case by (cases i) (auto simp: starts_with_def)
qed simp

lemma alphabet_sorted: "sorted_wrt (<) alphabet"
  by (simp add: alphabet_def js_def word_less_nat_alt)

lemma length_alphabet [simp]: "length alphabet = 32"
  by (simp add: alphabet_def)

lemma index_alphabet [simp]: "i < 32 \<Longrightarrow> index_of [alphabet ! i] alphabet = Some i"
  using alphabet_sorted by (intro index_of_nth) (auto simp: strict_sorted_iff)

lemma alphabet_less: "i < j \<Longrightarrow> j < 32 \<Longrightarrow> alphabet ! i < alphabet ! j"
  using alphabet_sorted by (simp add: sorted_wrt_iff_nth_less)

lemma list_less_append: "length a = length b \<Longrightarrow> a < b \<Longrightarrow> a @ x < b @ (y :: jstring)"
  unfolding list_less_def by (rule lexord_sufI) simp_all

lemma list_less_same: "x < y \<Longrightarrow> a @ x < a @ (y :: jstring)"
  unfolding list_less_def by (rule lexord_append_leftI)

lemma encode_loop_append: "encode_time_loop k t out = encode_time_loop k t [] @ out"
proof (induction k arbitrary: t out)
  case (Suc k)
  from Suc [of "t div 32" "(alphabet ! (t mod 32)) # out"] Suc [of "t div 32" "[alphabet ! (t mod 32)]"]
  show ?case by simp
qed simp

lemma encode_loop_snoc: "encode_time_loop (Suc k) t [] = encode_time_loop k (t div 32) [] @ [alphabet ! (t mod 32)]"
  using encode_loop_append [of k "t div 32" "[alphabet ! (t mod 32)]"] by simp

lemma length_encode_loop [simp]: "length (encode_time_loop k t []) = k"
  by (induction k arbitrary: t) (simp_all only: encode_loop_snoc length_append, simp_all)

lemma length_encode_time [simp]: "length (encode_time t) = 10"
  by (simp add: encode_time_def)

lemma encode_loop_less: "t < u \<Longrightarrow> u < 32 ^ k \<Longrightarrow> encode_time_loop k t [] < encode_time_loop k u []"
proof (induction k arbitrary: t u)
  case (Suc k)
  show ?case
  proof (cases "t div 32 < u div 32")
    case True
    moreover have "u div 32 < 32 ^ k" using Suc.prems(2) by (simp add: less_mult_imp_div_less mult.commute)
    ultimately show ?thesis unfolding encode_loop_snoc
      by (intro list_less_append Suc.IH) simp_all
  next
    case False
    with Suc.prems(1) have "t div 32 = u div 32" by (meson div_le_mono le_antisym less_imp_le not_less)
    moreover from this Suc.prems(1) have "t mod 32 < u mod 32"
      by (metis div_mult_mod_eq nat_add_left_cancel_less)
    ultimately show ?thesis unfolding encode_loop_snoc
      by (simp add: list_less_same alphabet_less)
  qed
qed simp

lemma encode_time_less: "t < u \<Longrightarrow> u < 2 ^ 48 \<Longrightarrow> encode_time t < encode_time u"
  unfolding encode_time_def by (rule encode_loop_less) simp_all

section \<open>The factory mints increasing ids\<close>

lemma increment_rev_Some:
  "set s \<subseteq> set alphabet \<Longrightarrow> increment_rev s = Some s' \<Longrightarrow>
    length s' = length s \<and> set s' \<subseteq> set alphabet \<and> rev s < rev s'"
proof (induction s arbitrary: s')
  case (Cons d r)
  from Cons.prems(1) obtain i where i: "i < 32" "d = alphabet ! i"
    by (auto simp: in_set_conv_nth)
  show ?case
  proof (cases "i < 31")
    case True
    with Cons.prems i have "s' = (alphabet ! (i + 1)) # r" by simp
    with Cons.prems(1) True i show ?thesis by (auto intro!: list_less_same simp: alphabet_less)
  next
    case False
    with Cons.prems i obtain r' where r: "increment_rev r = Some r'" "s' = (alphabet ! 0) # r'" by auto
    with Cons.IH [of r'] Cons.prems(1)
    have "length r' = length r" "set r' \<subseteq> set alphabet" "rev r < rev r'" by auto
    moreover have "alphabet ! 0 \<in> set alphabet" by (rule nth_mem) simp
    ultimately show ?thesis using r by (auto intro!: list_less_append)
  qed
qed simp

lemma alphabet_last: "alphabet ! 31 = 90"
  by (simp add: alphabet_def js_def)

lemma increment_rev_None:
  "set s \<subseteq> set alphabet \<Longrightarrow> increment_rev s = None \<longleftrightarrow> (\<forall>c \<in> set s. c = 90)"
proof (induction s)
  case (Cons d r)
  from Cons.prems obtain i where i: "i < 32" "d = alphabet ! i" by (auto simp: in_set_conv_nth)
  then have "i < 31 \<longleftrightarrow> d \<noteq> 90"
    using alphabet_less [of i 31] alphabet_last by (cases "i = 31") auto
  with Cons i show ?case by auto
qed simp

lemma increment_chars_Some:
  "set s \<subseteq> set alphabet \<Longrightarrow> increment_chars s = Some s' \<Longrightarrow>
    length s' = length s \<and> set s' \<subseteq> set alphabet \<and> s < s'"
  using increment_rev_Some [of "rev s"] by (auto simp: increment_chars_def)

lemma increment_chars_None:
  "set s \<subseteq> set alphabet \<Longrightarrow> increment_chars s = None \<longleftrightarrow> s = replicate (length s) 90"
proof -
  have "s = replicate (length s) 90 \<longleftrightarrow> (\<forall>c \<in> set s. c = 90)" by (induction s) auto
  then show "set s \<subseteq> set alphabet \<Longrightarrow> increment_chars s = None \<longleftrightarrow> s = replicate (length s) 90"
    using increment_rev_None [of "rev s"] by (simp add: increment_chars_def)
qed

lemma random_chars_alphabet: "set (random_chars b) \<subseteq> set alphabet" "length (random_chars b) = length b"
  by (auto simp: random_chars_def)

definition wf_factory :: "ulid_factory \<Rightarrow> bool" where
  "wf_factory f = (lastTime f = -1 \<or>
     (0 \<le> lastTime f \<and> lastTime f \<le> max_time \<and> length (lastRandom f) = 16
      \<and> set (lastRandom f) \<subseteq> set alphabet))"

definition current_ulid :: "ulid_factory \<Rightarrow> jstring" where
  "current_ulid f = encode_time (nat (lastTime f)) @ lastRandom f"

definition exhausted :: "jstring \<Rightarrow> bool" where
  "exhausted i = (drop 10 i = replicate 16 90)"

lemma next_ulid_Inr:
  assumes "wf_factory f" "length b = 16" "next_ulid f t b = Inr (i, f')"
  shows "wf_factory f'" and "i = current_ulid f'" and "0 \<le> lastTime f'" and "lastTime f \<le> lastTime f'"
    and "0 \<le> lastTime f \<Longrightarrow> \<not> exhausted (current_ulid f) \<Longrightarrow> current_ulid f < i"
proof -
  from assms(3) have t: "0 \<le> t" "t \<le> max_time"
    by (auto simp: next_ulid_def bind_r_Inr_iff assert_timestamp_in_range_def)
  have "wf_factory f' \<and> i = current_ulid f' \<and> 0 \<le> lastTime f' \<and> lastTime f \<le> lastTime f' \<and>
    (0 \<le> lastTime f \<longrightarrow> \<not> exhausted (current_ulid f) \<longrightarrow> current_ulid f < i)"
  proof (cases "t > lastTime f")
    case True
    with assms(3) t have f': "f' = \<lparr>lastTime = t, lastRandom = random_chars b\<rparr>" "i = current_ulid f'"
      by (auto simp: next_ulid_def assert_timestamp_in_range_def current_ulid_def Let_def)
    have "current_ulid f < i" if "0 \<le> lastTime f"
      unfolding f'(2) current_ulid_def
      by (rule list_less_append, simp, rule encode_time_less) (use True that t f' in \<open>auto simp: max_time_def\<close>)
    with f' t True assms(2) random_chars_alphabet [of b] show ?thesis by (auto simp: wf_factory_def)
  next
    case False
    with t assms(1) have w: "0 \<le> lastTime f" "lastTime f \<le> max_time" "length (lastRandom f) = 16"
      "set (lastRandom f) \<subseteq> set alphabet" by (auto simp: wf_factory_def)
    from False assms(3) t have i: "i = current_ulid f'" and f': "f' = f\<lparr>lastRandom :=
        (case increment_chars (lastRandom f) of Some r \<Rightarrow> r | None \<Rightarrow> random_chars b)\<rparr>"
      by (auto simp: next_ulid_def assert_timestamp_in_range_def current_ulid_def Let_def)
    show ?thesis
    proof (cases "increment_chars (lastRandom f)")
      case None
      then have "exhausted (current_ulid f)"
        using increment_chars_None [OF w(4)] w(3) by (simp add: exhausted_def current_ulid_def)
      with None f' i w assms(2) random_chars_alphabet [of b] show ?thesis
        by (auto simp: wf_factory_def)
    next
      case (Some r)
      from increment_chars_Some [OF w(4) Some] f' i w Some show ?thesis
        by (auto simp: wf_factory_def current_ulid_def intro: list_less_same)
    qed
  qed
  then show "wf_factory f'" "i = current_ulid f'" "0 \<le> lastTime f'" "lastTime f \<le> lastTime f'"
    "0 \<le> lastTime f \<Longrightarrow> \<not> exhausted (current_ulid f) \<Longrightarrow> current_ulid f < i" by auto
qed

text \<open>A run of calls; a rejected timestamp mints nothing and leaves the factory as it was.\<close>

fun mint_all :: "ulid_factory \<Rightarrow> (int \<times> byte list) list \<Rightarrow> jstring list" where
  "mint_all f [] = []"
| "mint_all f ((t, b) # r) =
     (case next_ulid f t b of Inl _ \<Rightarrow> mint_all f r | Inr (i, f') \<Rightarrow> i # mint_all f' r)"

lemma mint_all_increasing:
  assumes "list_all (\<lambda>(t, b). length b = 16) calls" "wf_factory f"
    "list_all (\<lambda>i. \<not> exhausted i) (mint_all f calls)"
  shows "sorted_wrt (<) (mint_all f calls)
    \<and> (0 \<le> lastTime f \<and> \<not> exhausted (current_ulid f) \<longrightarrow> list_all (\<lambda>i. current_ulid f < i) (mint_all f calls))"
  using assms
proof (induction f calls rule: mint_all.induct)
  case (2 f t b r)
  show ?case
  proof (cases "next_ulid f t b")
    case (Inr p)
    then obtain i f' where n: "next_ulid f t b = Inr (i, f')" by (cases p) auto
    from 2(3,4) have "wf_factory f" "length b = 16" by auto
    note s = next_ulid_Inr [OF this n]
    from 2(5) n s(2) have ne: "\<not> exhausted (current_ulid f')" by simp
    have ih: "sorted_wrt (<) (mint_all f' r) \<and> list_all (\<lambda>i. current_ulid f' < i) (mint_all f' r)"
      using 2(2) [OF n refl] 2(3,5) n s(1,3) ne by simp
    show ?thesis
    proof (intro conjI impI)
      show "sorted_wrt (<) (mint_all f ((t, b) # r))" using ih n s(2) by (auto simp: list_all_iff)
      assume "0 \<le> lastTime f \<and> \<not> exhausted (current_ulid f)"
      with s(5) have "current_ulid f < i" by simp
      with ih n s(2) show "list_all (\<lambda>i. current_ulid f < i) (mint_all f ((t, b) # r))"
        by (auto simp: list_all_iff intro: less_trans)
    qed
  qed (use 2 in simp)
qed simp

section \<open>The time in an id\<close>

definition time_step :: "code_unit \<Rightarrow> nat option \<Rightarrow> nat option" where
  "time_step c acc = Option.bind acc (\<lambda>t. map_option (\<lambda>p. t * 32 + p) (index_of [c] alphabet))"

lemma fold_time: "t < 32 ^ k \<Longrightarrow> fold time_step (encode_time_loop k t []) (Some 0) = Some t"
proof (induction k arbitrary: t)
  case (Suc k)
  then have "t div 32 < 32 ^ k" by (simp add: less_mult_imp_div_less mult.commute)
  from Suc.IH [OF this] show ?case unfolding encode_loop_snoc fold_append comp_def
    by (simp only: fold_simps) (simp add: time_step_def)
qed simp

lemma ulid_chars: "c \<in> set (encode_time t) \<Longrightarrow> c \<in> set alphabet"
proof -
  have "c \<in> set (encode_time_loop k t []) \<Longrightarrow> c \<in> set alphabet" for k
    by (induction k arbitrary: t) (simp, auto simp only: encode_loop_snoc set_append set_simps Un_iff insert_iff
        empty_iff intro: nth_mem, simp)
  then show "c \<in> set (encode_time t) \<Longrightarrow> c \<in> set alphabet" by (simp add: encode_time_def)
qed


lemma alphabet_no_underscore: "95 \<notin> set alphabet"
  by (simp add: alphabet_def js_def)

lemma ulid_time_body:
  assumes "set (lastRandom f) \<subseteq> set alphabet" "length (lastRandom f) = 16"
    and "0 \<le> lastTime f" "lastTime f \<le> max_time"
  shows "ulid_time (current_ulid f) = Some (nat (lastTime f))"
    and "95 \<notin> set p \<Longrightarrow> ulid_time (p @ 95 # current_ulid f) = Some (nat (lastTime f))"
proof -
  have no: "95 \<notin> set (current_ulid f)"
    using assms(1) ulid_chars alphabet_no_underscore by (auto simp: current_ulid_def)
  have len: "length (current_ulid f) = ulid_length"
    using assms(2) by (simp add: current_ulid_def ulid_length_def)
  have "nat (lastTime f) < 32 ^ 10" using assms(3,4) by (simp add: max_time_def)
  then have t: "fold time_step (take 10 (current_ulid f)) (Some 0) = Some (nat (lastTime f))"
    by (simp add: current_ulid_def) (simp add: encode_time_def fold_time)
  have u: "ulid_time i = fold time_step (take 10 b) (Some 0)"
    if "b = (case index_of [95] i of Some k \<Rightarrow> drop (k + 1) i | None \<Rightarrow> i)" "length b = ulid_length" for i b
    using that unfolding ulid_time_def Let_def time_step_def by simp
  show "ulid_time (current_ulid f) = Some (nat (lastTime f))"
    using u [of "current_ulid f"] no len t by (simp add: index_of_single_None [symmetric])
  show "ulid_time (p @ 95 # current_ulid f) = Some (nat (lastTime f))" if "95 \<notin> set p"
    using u [of "current_ulid f"] index_of_single_append [OF that] len t by simp
qed

lemma id_prefix_facts:
  "95 \<notin> set (id_prefix k)" "length (id_prefix k) = 3"
  by (simp_all add: id_prefix_def js_def split: id_kind.splits)

lemma id_prefix_inject: "id_prefix k = id_prefix k' \<longleftrightarrow> k = k'"
  by (cases k; cases k'; simp add: id_prefix_def js_def)

lemma str_includes_alphabet: "c \<in> set alphabet \<Longrightarrow> str_includes alphabet [c]"
  by (simp add: str_includes_def index_of_single_None)

lemma current_ulid_shape:
  assumes "wf_factory f" "0 \<le> lastTime f"
  shows "length (current_ulid f) = ulid_length" "set (current_ulid f) \<subseteq> set alphabet"
  using assms ulid_chars by (auto simp: wf_factory_def current_ulid_def ulid_length_def)

section \<open>Properties\<close>

text \<open>
  Ids sort in the order they were minted. For any sequence of calls, with any clock readings,
  backwards steps and rejected timestamps included, the ids are strictly increasing by code unit,
  as long as no id minted on the way used up the random part of its millisecond.
\<close>

theorem ulids_strictly_increasing:
  assumes "list_all (\<lambda>(t, b). length b = 16) calls"
    and "list_all (\<lambda>i. \<not> exhausted i) (mint_all new_factory calls)"
  shows "sorted_wrt (<) (mint_all new_factory calls)"
  using mint_all_increasing [OF assms(1) _ assms(2)] by (simp add: wf_factory_def new_factory_def)

lemma ulids_strictly_increasing_witness:
  "sorted_wrt (<) (mint_all new_factory [(5, replicate 16 0), (4, replicate 16 9), (-3, replicate 16 1)])"
    (is "sorted_wrt _ (mint_all _ ?calls)")
proof (rule ulids_strictly_increasing)
  have r: "random_chars (replicate 16 0) = replicate 16 48"
    by (simp only: random_chars_def map_replicate) (simp add: alphabet_def js_def)
  have i: "increment_chars (replicate 16 48) = Some (replicate 15 48 @ [49])"
  proof -
    have "replicate 16 48 = 48 # replicate 15 (48 :: code_unit)" by (simp add: numeral_eq_Suc)
    then have "increment_rev (replicate 16 48) = Some (49 # replicate 15 48)"
      by (simp only: increment_rev.simps) (simp add: alphabet_def js_def starts_with_def)
    then show ?thesis by (simp add: increment_chars_def)
  qed
  have m: "mint_all new_factory ?calls
      = [encode_time 5 @ replicate 16 48, encode_time 5 @ (replicate 15 48 @ [49])]"
    by (simp add: next_ulid_def new_factory_def assert_timestamp_in_range_def max_time_def
        r i Let_def)
  show "list_all (\<lambda>i. \<not> exhausted i) (mint_all new_factory ?calls)"
    unfolding m by (auto simp: exhausted_def dest!: arg_cong [where f = last])
qed simp

text \<open>
  A minted id is recognised as an id of its kind and of no other, and carries the millisecond
  the factory minted it in.
\<close>

theorem new_id_recognised:
  assumes "wf_factory f" "length b = 16" "new_id k f t b = Inr (i, f')"
  shows "(is_id k' i \<longleftrightarrow> k' = k) \<and> ulid_time i = Some (nat (lastTime f'))"
proof
  from assms(3) obtain u where u: "next_ulid f t b = Inr (u, f')" "i = id_prefix k @ 95 # u"
    by (auto simp: new_id_def bind_r_Inr_iff)
  note s = next_ulid_Inr [OF assms(1,2) u(1)]
  note sh = current_ulid_shape [OF s(1,3)]
  have "starts_with i (id_prefix k' @ [95]) \<longleftrightarrow> k' = k"
    using u(2) id_prefix_facts(2) [of k] id_prefix_facts(2) [of k']
    by (auto simp: starts_with_def id_prefix_inject)
  moreover have "list_all (\<lambda>c. str_includes alphabet [c]) (current_ulid f')"
    using sh(2) str_includes_alphabet by (auto simp: list_all_iff)
  ultimately show "is_id k' i \<longleftrightarrow> k' = k"
    using u(2) s(2) sh(1) by (auto simp: is_id_def Let_def)
  show "ulid_time i = Some (nat (lastTime f'))"
    unfolding u(2) s(2)
    by (rule ulid_time_body(2)) (use s(1,3) id_prefix_facts(1) in \<open>auto simp: wf_factory_def\<close>)
qed

lemma new_id_recognised_witness:
  "\<exists>i f'. new_id KApproval new_factory 1700000000000 (replicate 16 31) = Inr (i, f')
     \<and> is_id KApproval i \<and> \<not> is_id KTask i \<and> ulid_time i = Some 1700000000000"
proof -
  have wf: "wf_factory new_factory" by (simp add: wf_factory_def new_factory_def)
  obtain i f' where n: "new_id KApproval new_factory 1700000000000 (replicate 16 31) = Inr (i, f')"
    "lastTime f' = 1700000000000"
    by (auto simp: new_id_def next_ulid_def new_factory_def assert_timestamp_in_range_def max_time_def)
  from new_id_recognised [OF wf _ n(1)] n show ?thesis by auto
qed


end
