(* ===== verification/Headers.thy ===== *)
theory Headers
  imports Naming
begin

text \<open>
  The request-metadata headers of \<open>packages/mcp-core/src/headers.ts\<close>: encoding of names into
  header-safe values, decoding, reading the metadata off a request, the header/body consistency
  check, and the headers built for a forwarded call. A header container is its list of lowercase
  names and values in iteration order.
\<close>

definition header_protocol_version :: jstring where
  "header_protocol_version = js ''mcp-protocol-version''"

definition header_mcp_method :: jstring where
  "header_mcp_method = js ''mcp-method''"

definition header_mcp_name :: jstring where
  "header_mcp_name = js ''mcp-name''"

definition header_mcp_param_prefix :: jstring where
  "header_mcp_param_prefix = js ''mcp-param-''"

definition sentinel_protocol_version :: jstring where
  "sentinel_protocol_version = js ''2026-07-28''"

definition js_tools_call :: jstring where "js_tools_call = js ''tools/call''"
definition js_resources_read :: jstring where "js_resources_read = js ''resources/read''"
definition js_prompts_get :: jstring where "js_prompts_get = js ''prompts/get''"

lemma method_names_distinct [simp]:
  "js_tools_call \<noteq> js_resources_read" "js_tools_call \<noteq> js_prompts_get"
  "js_resources_read \<noteq> js_tools_call" "js_resources_read \<noteq> js_prompts_get"
  "js_prompts_get \<noteq> js_tools_call" "js_prompts_get \<noteq> js_resources_read"
  by (simp_all add: js_tools_call_def js_resources_read_def js_prompts_get_def js_def)

text \<open>
  \<open>MCP_NAME_SOURCE_FIELD[m]\<close>. The table is a frozen object literal, so the lookup also finds what
  every object inherits: the methods of \<open>Object.prototype\<close>, whose use as a property key is their
  source text.
\<close>

definition native_text :: "string \<Rightarrow> jstring" where
  "native_text n = js ''function '' @ js n @ js ''() { [native code] }''"

definition inherited_members :: "(jstring \<times> jstring) list" where
  "inherited_members =
     (js ''constructor'', native_text ''Object'') # (js ''__proto__'', js ''[object Object]'')
     # map (\<lambda>n. (js n, native_text n))
        [''toString'', ''valueOf'', ''hasOwnProperty'', ''isPrototypeOf'', ''propertyIsEnumerable'',
         ''toLocaleString'', ''__defineGetter__'', ''__defineSetter__'', ''__lookupGetter__'',
         ''__lookupSetter__'']"

definition mcp_name_source_field :: "jstring \<Rightarrow> jstring option" where
  "mcp_name_source_field m =
    (if m = js_tools_call then Some (js ''name'')
     else if m = js_resources_read then Some (js ''uri'')
     else if m = js_prompts_get then Some (js ''name'')
     else map_of inherited_members m)"

section \<open>Header values\<close>

definition wrap_prefix :: jstring where "wrap_prefix = js ''=?base64?''"
definition wrap_suffix :: jstring where "wrap_suffix = js ''?=''"

definition looks_base64_encoded :: "jstring \<Rightarrow> bool" where
  "looks_base64_encoded v =
    (length wrap_prefix + length wrap_suffix \<le> length v
     \<and> starts_with v wrap_prefix \<and> ends_with v wrap_suffix)"

definition is_header_safe :: "jstring \<Rightarrow> bool" where
  "is_header_safe v =
    (list_all (\<lambda>code. (0x21 \<le> code \<and> code \<le> 0x7e) \<or> code = 0x20 \<or> code = 0x09) (code_points v)
     \<and> (v \<noteq> [] \<longrightarrow> hd v \<noteq> 0x20 \<and> hd v \<noteq> 0x09 \<and> last v \<noteq> 0x20 \<and> last v \<noteq> 0x09))"

definition encode_header_value :: "jstring \<Rightarrow> jstring" where
  "encode_header_value v =
    (if is_header_safe v \<and> \<not> looks_base64_encoded v then v
     else wrap_prefix @ to_base64 (utf8 v) @ wrap_suffix)"

text \<open>\<open>new TextDecoder('utf-8', { fatal: true }).decode(bytes)\<close>: a leading byte order mark goes.\<close>

definition strip_bom :: "nat list \<Rightarrow> nat list" where
  "strip_bom ns = (case ns of n # r \<Rightarrow> if n = 0xFEFF then r else ns | [] \<Rightarrow> [])"

definition text_decode :: "byte list \<Rightarrow> jstring option" where
  "text_decode bs = map_option (\<lambda>ns. of_code_points (strip_bom ns)) (utf8_decode bs)"

definition decode_header_value :: "jstring \<Rightarrow> jstring \<Rightarrow> exn + jstring" where
  "decode_header_value v headerName =
    (if \<not> looks_base64_encoded v then Inr v
     else let payload = take (length v - length wrap_suffix - length wrap_prefix)
                          (drop (length wrap_prefix) v);
              mismatch = (\<lambda>m. Inl (SentinelError (header_mismatch_error (headerName @ js m)
                            (Some [(js ''header'', JString headerName)]))))
          in
       if length payload mod 4 \<noteq> 0 \<or> \<not> strict_base64 payload then mismatch '' is not valid base64''
       else let bytes = of_base64 payload in
         if to_base64 bytes \<noteq> payload then mismatch '' is not canonical base64''
         else (case text_decode bytes of
                 None \<Rightarrow> mismatch '' is not valid UTF-8''
               | Some s \<Rightarrow> Inr s))"

section \<open>Request metadata\<close>

record request_metadata =
  md_protocolVersion :: "jstring option"
  md_method :: "jstring option"
  md_name :: "jstring option"
  md_params :: "(jstring \<times> jstring) list"

definition lower_case :: "jstring \<Rightarrow> jstring" where
  "lower_case s = map (\<lambda>c. if is_upper c then c + 32 else c) s"

fun read_params :: "(jstring \<times> jstring) list \<Rightarrow> (jstring \<times> jstring) list \<Rightarrow>
    exn + (jstring \<times> jstring) list" where
  "read_params [] params = Inr params"
| "read_params ((key, value) # r) params =
     (let lower = lower_case key in
      if \<not> starts_with lower header_mcp_param_prefix then read_params r params
      else let paramName = drop (length header_mcp_param_prefix) lower in
        if length paramName = 0 then read_params r params
        else bind_r (decode_header_value value key)
               (\<lambda>d. read_params r (put_prop paramName d params)))"

definition read_request_metadata :: "(jstring \<times> jstring) list \<Rightarrow> exn + request_metadata" where
  "read_request_metadata hs =
     bind_r (read_params hs []) (\<lambda>params.
     bind_r (case map_of hs header_mcp_name of
               None \<Rightarrow> Inr None
             | Some rawName \<Rightarrow>
                 bind_r (decode_header_value rawName header_mcp_name) (\<lambda>d. Inr (Some d))) (\<lambda>name.
     Inr \<lparr>md_protocolVersion = map_of hs header_protocol_version,
          md_method = map_of hs header_mcp_method, md_name = name, md_params = params\<rparr>))"

text \<open>The body as the check reads it: \<open>method\<close> of unknown type, \<open>params\<close> when an object.\<close>

definition mismatch :: "jstring \<Rightarrow> string option \<Rightarrow> exn" where
  "mismatch m header = SentinelError (header_mismatch_error m
     (map_option (\<lambda>h. [(js ''header'', JString (js h))]) header))"

definition assert_header_matches_body ::
    "request_metadata \<Rightarrow> jvalue option \<Rightarrow> jvalue props option \<Rightarrow> exn + jstring" where
  "assert_header_matches_body md meth params =
    (let bodyMethod = as_string meth in
     case md_method md of
       None \<Rightarrow> Inl (mismatch (js ''Mcp-Method header is required on all requests'') None)
     | Some headerMethod \<Rightarrow>
         (case bodyMethod of
            None \<Rightarrow> Inl (mismatch (js ''request body has no method to validate Mcp-Method against'') None)
          | Some m \<Rightarrow>
              if headerMethod \<noteq> m
              then Inl (mismatch (js ''Mcp-Method header value '' @ [39] @ headerMethod @ [39]
                     @ js '' does not match body value '' @ [39] @ m @ [39]) (Some ''mcp-method''))
              else (case mcp_name_source_field m of
                  None \<Rightarrow> Inr m
                | Some sourceField \<Rightarrow>
                    (case as_string (Option.bind params (\<lambda>p. get_prop p sourceField)) of
                       Some bodyValue \<Rightarrow>
                         (case md_name md of
                            None \<Rightarrow> Inl (mismatch (js ''Mcp-Name header is required for '' @ m) (Some ''mcp-name''))
                          | Some name \<Rightarrow>
                              if name \<noteq> bodyValue
                              then Inl (mismatch (js ''Mcp-Name header value '' @ [39] @ name @ [39]
                                     @ js '' does not match body params.'' @ sourceField
                                     @ js '' value '' @ [39] @ bodyValue @ [39]) (Some ''mcp-name''))
                              else Inr m)
                     | None \<Rightarrow> Inl (mismatch (m @ js '' requires a string params.'' @ sourceField
                              @ js '' to validate Mcp-Name against'') (Some ''mcp-name''))))))"

definition build_request_metadata_headers :: "jstring \<Rightarrow> jstring option \<Rightarrow> jstring props" where
  "build_request_metadata_headers m nameOrUri =
    [(header_protocol_version, sentinel_protocol_version), (header_mcp_method, m)]
    @ (case nameOrUri of
         None \<Rightarrow> []
       | Some n \<Rightarrow> if mcp_name_source_field m \<noteq> None then [(header_mcp_name, encode_header_value n)] else [])"

text \<open>
  The \<open>Headers\<close> constructor over a record: surrounding whitespace is trimmed, a value that cannot
  be a field value is a TypeError, iteration is by name.
\<close>

definition http_space :: "code_unit \<Rightarrow> bool" where
  "http_space c = (c \<in> {9, 10, 13, 32})"

definition trim_http :: "jstring \<Rightarrow> jstring" where
  "trim_http s = rev (dropWhile http_space (rev (dropWhile http_space s)))"

definition new_headers :: "jstring props \<Rightarrow> exn + jstring props" where
  "new_headers hs =
     bind_r (map_r (\<lambda>(k, v). let t = trim_http v in
               if list_all (\<lambda>c. c \<noteq> 0 \<and> c \<noteq> 10 \<and> c \<noteq> 13 \<and> c \<le> 255) t then Inr (lower_case k, t)
               else Inl TypeError) hs)
       (\<lambda>xs. Inr (sort_key fst xs))"

section \<open>Header values round-trip\<close>

lemma looks_wrapped: "looks_base64_encoded (wrap_prefix @ b @ wrap_suffix)"
  using ends_with_append [of "wrap_prefix @ b" wrap_suffix] by (simp add: looks_base64_encoded_def)

lemma payload_of_wrapped:
  "take (length (wrap_prefix @ b @ wrap_suffix) - length wrap_suffix - length wrap_prefix)
     (drop (length wrap_prefix) (wrap_prefix @ b @ wrap_suffix)) = b"
  by simp

lemma of_code_points_strip:
  assumes "well_formed v"
  shows "of_code_points (strip_bom (code_points v)) = (if take 1 v = [0xFEFF] then drop 1 v else v)"
proof (cases v rule: code_points.cases)
  case (2 c)
  have "unat c < 0x10000" by (rule unat_code_unit)
  with 2 show ?thesis
    by (auto simp: strip_bom_def of_code_points_def utf16_def word_eq_unat)
next
  case (3 c d s)
  have nh: "\<not> is_high 0xFEFF" by (simp add: surrogate_defs)
  show ?thesis
  proof (cases "is_high c \<and> is_low d")
    case True
    then have "pair_cp c d \<noteq> 0xFEFF" "c \<noteq> 0xFEFF" using nh by (auto simp: pair_cp_def)
    moreover have "of_code_points (pair_cp c d # code_points s) = v"
      using of_code_points_code_points [of v] 3 True by simp
    ultimately show ?thesis using 3 True by (simp add: strip_bom_def)
  next
    case False
    then have cp: "code_points v = unat c # code_points (d # s)" using 3 by auto
    then have "of_code_points (unat c # code_points (d # s)) = v"
      using of_code_points_code_points [of v] by simp
    moreover have "of_code_points (code_points (d # s)) = d # s" by simp
    ultimately show ?thesis using 3 unfolding cp by (simp add: strip_bom_def word_eq_unat)
  qed
qed (simp_all add: strip_bom_def of_code_points_def)

lemma decode_wrapped:
  "well_formed v \<Longrightarrow> decode_header_value (wrap_prefix @ to_base64 (utf8 v) @ wrap_suffix) h
     = Inr (if take 1 v = [0xFEFF] then drop 1 v else v)"
  unfolding decode_header_value_def payload_of_wrapped
  by (simp add: looks_wrapped length_to_base64 strict_base64_to_base64 Let_def text_decode_def
      utf8_decode_utf8 of_code_points_strip)

lemma safe_no_bom: "is_header_safe v \<Longrightarrow> take 1 v \<noteq> [0xFEFF]"
proof (cases v rule: code_points.cases)
  case (3 c d s)
  assume "is_header_safe v"
  with 3 show ?thesis by (auto simp: is_header_safe_def surrogate_defs split: if_splits)
qed (auto simp: is_header_safe_def)

lemma decode_encode_header_value:
  assumes "well_formed v"
  shows "decode_header_value (encode_header_value v) h = Inr (if take 1 v = [0xFEFF] then drop 1 v else v)"
proof (cases "is_header_safe v \<and> \<not> looks_base64_encoded v")
  case True
  then show ?thesis using safe_no_bom [of v]
    by (simp add: encode_header_value_def decode_header_value_def)
next
  case False
  then have "encode_header_value v = wrap_prefix @ to_base64 (utf8 v) @ wrap_suffix"
    by (auto simp: encode_header_value_def)
  then show ?thesis using decode_wrapped [OF assms] by simp
qed


lemma b64_char_visible: "n < 64 \<Longrightarrow> 0x21 \<le> unat (b64_char n) \<and> unat (b64_char n) \<le> 0x7e"
  by (auto simp: unat_b64_char)

lemma b64_visible: "c' \<in> set (to_base64 bs) \<Longrightarrow> 0x21 \<le> unat c' \<and> unat c' \<le> 0x7e"
proof (induction bs rule: to_base64.induct)
  case (2 a)
  have "unat a div 4 < 64" "unat a mod 4 * 16 < 64" using unat_byte_bound [of a] by auto
  from this [THEN b64_char_visible] 2 show ?case by auto
next
  case (3 a b)
  have "unat a div 4 < 64" "unat a mod 4 * 16 + unat b div 16 < 64" "unat b mod 16 * 4 < 64"
    using unat_byte_bound [of a] unat_byte_bound [of b] by auto
  from this [THEN b64_char_visible] 3 show ?case by auto
next
  case (4 a b c r)
  have "unat a div 4 < 64" "unat a mod 4 * 16 + unat b div 16 < 64"
    "unat b mod 16 * 4 + unat c div 64 < 64" "unat c mod 64 < 64"
    using unat_byte_bound [of a] unat_byte_bound [of b] unat_byte_bound [of c] by auto
  from this [THEN b64_char_visible] 4 show ?case by auto
qed simp

definition visible :: "code_unit \<Rightarrow> bool" where
  "visible c = (0x20 \<le> unat c \<and> unat c \<le> 0x7e \<or> c = 9)"

lemma safe_visible: "is_header_safe v \<Longrightarrow> c \<in> set v \<Longrightarrow> visible c"
proof -
  have "list_all (\<lambda>n. (0x21 \<le> n \<and> n \<le> 0x7e) \<or> n = 0x20 \<or> n = 0x09) (code_points v) \<Longrightarrow>
      c \<in> set v \<Longrightarrow> visible c"
  proof (induction v rule: code_points.induct)
    case (2 d)
    then show ?case by (auto simp: visible_def word_eq_unat)
  next
    case (3 d e s)
    have "\<not> (is_high d \<and> is_low e)" using 3(3) by (auto simp: pair_cp_def)
    with 3 show ?case by (auto simp: visible_def word_eq_unat)
  qed simp
  then show "is_header_safe v \<Longrightarrow> c \<in> set v \<Longrightarrow> visible c" by (simp add: is_header_safe_def)
qed

lemma visible_safe:
  assumes "\<And>c. c \<in> set v \<Longrightarrow> visible c" "v \<noteq> []" "hd v \<notin> {0x20, 0x09}" "last v \<notin> {0x20, 0x09}"
  shows "is_header_safe v"
proof -
  have "code_points v = map unat v"
    by (rule code_points_single) (auto dest!: assms(1) simp: visible_def surrogate_defs)
  moreover have "list_all (\<lambda>n. (0x21 \<le> n \<and> n \<le> 0x7e) \<or> n = 0x20 \<or> n = 0x09) (map unat v)"
    using assms(1) by (fastforce simp: list_all_iff visible_def word_eq_unat)
  ultimately show ?thesis using assms by (simp add: is_header_safe_def)
qed

lemma encode_header_value_safe: "is_header_safe (encode_header_value v)"
proof -
  let ?w = "wrap_prefix @ to_base64 (utf8 v) @ wrap_suffix"
  have "visible c" if "c \<in> set ?w" for c
    using that b64_visible [of c "utf8 v"]
    by (auto simp: visible_def wrap_prefix_def wrap_suffix_def js_def)
  then have "is_header_safe ?w"
    by (rule visible_safe) (simp_all add: wrap_prefix_def wrap_suffix_def js_def)
  then show ?thesis by (simp add: encode_header_value_def)
qed

lemma trim_safe: "is_header_safe v \<Longrightarrow> trim_http v = v"
proof (cases v rule: rev_cases)
  case (snoc u z)
  assume s: "is_header_safe v"
  have ne: "v \<noteq> []" using snoc by simp
  have edge: "\<not> http_space (hd v)" "\<not> http_space (last v)"
    using s ne safe_visible [OF s hd_in_set [OF ne]] safe_visible [OF s last_in_set [OF ne]]
    by (auto simp: http_space_def is_header_safe_def visible_def)
  from edge(1) snoc have "dropWhile http_space v = v" by (simp add: dropWhile_eq_self_iff)
  moreover from edge(2) snoc have "dropWhile http_space (rev v) = rev v"
    by (simp add: dropWhile_eq_self_iff hd_rev)
  ultimately show ?thesis by (simp add: trim_http_def)
qed (simp add: trim_http_def)

lemma header_value_accepted:
  "is_header_safe v \<Longrightarrow> list_all (\<lambda>c. c \<noteq> 0 \<and> c \<noteq> 10 \<and> c \<noteq> 13 \<and> c \<le> 255) v"
  by (auto simp: list_all_iff word_le_nat_alt dest!: safe_visible simp: visible_def)

lemma new_headers_safe:
  "(\<And>k v. (k, v) \<in> set hs \<Longrightarrow> is_header_safe v) \<Longrightarrow>
    new_headers hs = Inr (sort_key fst (map (\<lambda>(k, v). (lower_case k, v)) hs))"
proof -
  assume a: "\<And>k v. (k, v) \<in> set hs \<Longrightarrow> is_header_safe v"
  have "map_r (\<lambda>(k, v). let t = trim_http v in
          if list_all (\<lambda>c. c \<noteq> 0 \<and> c \<noteq> 10 \<and> c \<noteq> 13 \<and> c \<le> 255) t then Inr (lower_case k, t)
          else Inl TypeError) hs = Inr (map (\<lambda>(k, v). (lower_case k, v)) hs)"
    by (rule map_r_map) (use a in \<open>auto simp: trim_safe header_value_accepted\<close>)
  then show ?thesis by (simp add: new_headers_def)
qed

section \<open>The forwarded headers agree with the forwarded body\<close>

definition forward_method :: "jstring \<Rightarrow> bool" where
  "forward_method m = (m \<in> {js_tools_call, js_resources_read, js_prompts_get})"

lemma forward_method_safe: "forward_method m \<Longrightarrow> is_header_safe m"
  by (auto simp: forward_method_def js_tools_call_def js_resources_read_def js_prompts_get_def
      is_header_safe_def js_def surrogate_defs)

lemma forward_source_field:
  "forward_method m \<Longrightarrow> \<exists>f. mcp_name_source_field m = Some f \<and> (f = js ''name'' \<or> f = js ''uri'')"
  by (auto simp: forward_method_def mcp_name_source_field_def)

lemma header_names:
  "lower_case header_mcp_method = header_mcp_method" "lower_case header_mcp_name = header_mcp_name"
  "lower_case header_protocol_version = header_protocol_version"
  "header_mcp_method \<le> header_mcp_name" "header_mcp_name \<le> header_protocol_version"
  "header_mcp_method \<le> header_protocol_version"
  "\<not> header_mcp_name \<le> header_mcp_method" "\<not> header_protocol_version \<le> header_mcp_name"
  "\<not> header_protocol_version \<le> header_mcp_method"
  "header_mcp_method \<noteq> header_mcp_name" "header_protocol_version \<noteq> header_mcp_name"
  "header_mcp_method \<noteq> header_protocol_version"
  "header_mcp_name \<noteq> header_mcp_method" "header_mcp_name \<noteq> header_protocol_version"
  "header_protocol_version \<noteq> header_mcp_method"
  "\<not> starts_with header_mcp_method header_mcp_param_prefix"
  "\<not> starts_with header_mcp_name header_mcp_param_prefix"
  "\<not> starts_with header_protocol_version header_mcp_param_prefix"
  by (simp_all add: header_mcp_method_def header_mcp_name_def header_protocol_version_def
      header_mcp_param_prefix_def starts_with_def lower_case_def js_def char_class_defs
      word_le_nat_alt word_less_nat_alt)

lemma protocol_version_safe: "is_header_safe sentinel_protocol_version"
  by (simp add: sentinel_protocol_version_def is_header_safe_def js_def surrogate_defs)

lemma built_headers:
  assumes "forward_method m"
  shows "new_headers (build_request_metadata_headers m (Some n)) = Inr
    [(header_mcp_method, m), (header_mcp_name, encode_header_value n),
     (header_protocol_version, sentinel_protocol_version)]"
proof -
  obtain f where f: "mcp_name_source_field m = Some f" using forward_source_field [OF assms] by blast
  have "new_headers (build_request_metadata_headers m (Some n))
      = Inr (sort_key fst (map (\<lambda>(k, v). (lower_case k, v)) (build_request_metadata_headers m (Some n))))"
    by (rule new_headers_safe)
       (use f encode_header_value_safe protocol_version_safe forward_method_safe [OF assms]
        in \<open>auto simp: build_request_metadata_headers_def\<close>)
  with f show ?thesis by (simp add: build_request_metadata_headers_def header_names)
qed

text \<open>The check \<open>ForwardRouter.route\<close> makes on what it is about to send.\<close>

definition assert_outbound :: "jstring \<Rightarrow> jstring \<Rightarrow> jvalue props \<Rightarrow> exn + jstring" where
  "assert_outbound m upstreamName forwardedParams =
     bind_r (new_headers (build_request_metadata_headers m (Some upstreamName))) (\<lambda>hs.
     bind_r (read_request_metadata hs) (\<lambda>md.
     assert_header_matches_body md (Some (JString m)) (Some forwardedParams)))"

lemma assert_outbound_Inr_iff:
  assumes "forward_method m" "mcp_name_source_field m = Some f" "well_formed n"
    and "get_prop params f = Some (JString n)"
  shows "assert_outbound m n params = Inr m \<longleftrightarrow> take 1 n \<noteq> [0xFEFF]"
    and "take 1 n = [0xFEFF] \<Longrightarrow> \<exists>e. assert_outbound m n params = Inl (SentinelError e)
           \<and> se_code e = code_value HeaderMismatch"
proof -
  let ?d = "if take 1 n = [0xFEFF] then drop 1 n else n"
  have r: "read_request_metadata [(header_mcp_method, m), (header_mcp_name, encode_header_value n),
        (header_protocol_version, sentinel_protocol_version)]
      = Inr \<lparr>md_protocolVersion = Some sentinel_protocol_version, md_method = Some m,
             md_name = Some ?d, md_params = []\<rparr>"
    using decode_encode_header_value [OF assms(3)]
    by (simp add: read_request_metadata_def header_names)
  have d: "?d = n \<longleftrightarrow> take 1 n \<noteq> [0xFEFF]" by (cases n) auto
  show "assert_outbound m n params = Inr m \<longleftrightarrow> take 1 n \<noteq> [0xFEFF]"
    unfolding assert_outbound_def built_headers [OF assms(1)] bind_r_simps r
    using assms(2,4) d by (simp add: assert_header_matches_body_def as_string_def)
  show "\<exists>e. assert_outbound m n params = Inl (SentinelError e) \<and> se_code e = code_value HeaderMismatch"
    if "take 1 n = [0xFEFF]"
    unfolding assert_outbound_def built_headers [OF assms(1)] bind_r_simps r
    using assms(2,4) d that
    by (simp add: assert_header_matches_body_def as_string_def mismatch_def error_defs)
qed


section \<open>Properties\<close>

text \<open>
  A name survives the trip through a header. Whatever well-formed string is encoded, the
  value is header-safe, and decoding gives the string back, except that a string starting with
  U+FEFF loses that character: the decoder strips it as a byte order mark.
\<close>

theorem header_value_roundtrip:
  assumes "well_formed v"
  shows "is_header_safe (encode_header_value v)
    \<and> decode_header_value (encode_header_value v) h
           = Inr (if take 1 v = [0xFEFF] then drop 1 v else v)"
  by (rule conjI) (rule encode_header_value_safe, rule decode_encode_header_value [OF assms])

lemma header_value_roundtrip_witness:
  "decode_header_value (encode_header_value (js ''=?base64?x?='')) (js ''h'') = Inr (js ''=?base64?x?='')
   \<and> decode_header_value (encode_header_value [0xFEFF, 65]) (js ''h'') = Inr [65]"
  using header_value_roundtrip [of "js ''=?base64?x?=''" "js ''h''"]
    header_value_roundtrip [of "[0xFEFF, 65]" "js ''h''"]
  by (simp add: js_def well_formed_def surrogate_defs scalar_def)

text \<open>
  The consistency check is exactly agreement. A request passes when its Mcp-Method is the body's
  method and, for the methods that mirror a field, that field is a string equal to Mcp-Name; the
  check then returns that method.
\<close>

theorem header_check_is_agreement:
  "assert_header_matches_body md meth params = Inr m \<longleftrightarrow>
    md_method md = Some m \<and> meth = Some (JString m) \<and>
    (case mcp_name_source_field m of None \<Rightarrow> True
     | Some f \<Rightarrow> (\<exists>p n. params = Some p \<and> get_prop p f = Some (JString n) \<and> md_name md = Some n))"
  by (cases params) (auto simp: assert_header_matches_body_def split: option.splits if_splits)


end
