(* ===== verification/Upstream.thy ===== *)
theory Upstream
  imports Backoff Ids Headers
begin

text \<open>
  One connection to one upstream server, \<open>apps/gateway/src/upstream/client.ts\<close>, its transport,
  \<open>transport.ts\<close>, and the set of them, \<open>registry.ts\<close>. The SDK's client, its handshake and its errors
  are what the steps receive; every assignment to the fields of \<open>UpstreamClient\<close> is a function here.
  Logging is left out.
\<close>

section \<open>Failures\<close>

text \<open>\<open>SdkErrorCode\<close>: the members the code names, and any other by its string value.\<close>

datatype sdk_code = RequestTimeout | EraNegotiationFailed | ConnectionClosed | NotConnected | SendFailed
  | ClientHttpAuthentication | ClientHttpForbidden | InvalidResult | OtherSdkCode jstring

datatype failure_kind = VersionFailure | SdkFailure sdk_code | ErrorFailure | ValueFailure

text \<open>
  A thrown value as the code inspects it: its class, the property \<open>code\<close> of an \<open>Error\<close> (a string or a
  number in Node and in the SDK), its \<open>name\<close>, and the value itself.
\<close>

datatype code_property = NoCode | TextCode jstring | NumberCode jnum

record failure =
  fl_kind :: failure_kind
  fl_code :: code_property
  fl_name :: jstring
  fl_thrown :: exn

definition code_string :: "code_property \<Rightarrow> jstring" where
  "code_string c = (case c of NoCode \<Rightarrow> [] | TextCode s \<Rightarrow> s | NumberCode x \<Rightarrow> num_text x)"

definition sdk_phrase :: "sdk_code \<Rightarrow> jstring option" where
  "sdk_phrase c = (case c of
      RequestTimeout \<Rightarrow> Some (js ''request timed out'')
    | EraNegotiationFailed \<Rightarrow> Some (js ''protocol negotiation failed'')
    | ConnectionClosed \<Rightarrow> Some (js ''connection closed'')
    | NotConnected \<Rightarrow> Some (js ''not connected'')
    | SendFailed \<Rightarrow> Some (js ''send failed'')
    | ClientHttpAuthentication \<Rightarrow> Some (js ''authentication required'')
    | ClientHttpForbidden \<Rightarrow> Some (js ''access forbidden'')
    | InvalidResult \<Rightarrow> Some (js ''malformed response'')
    | OtherSdkCode _ \<Rightarrow> None)"

definition error_phrase :: "failure \<Rightarrow> jstring" where
  "error_phrase f =
     (let code = code_string (fl_code f) in
      if code = js ''ECONNREFUSED'' then js ''connection refused''
      else if code = js ''ENOTFOUND'' \<or> code = js ''EAI_AGAIN'' then js ''host not found''
      else if code = js ''ENOENT'' then js ''command not found''
      else if code = js ''EACCES'' \<or> code = js ''EPERM'' then js ''permission denied''
      else if code = js ''ETIMEDOUT'' then js ''connect timed out''
      else if code = js ''ECONNRESET'' then js ''connection reset''
      else if fl_name f = js ''AbortError'' \<or> fl_name f = js ''TimeoutError'' then js ''connect timed out''
      else js ''handshake failed'')"

definition describe_failure :: "failure \<Rightarrow> jstring" where
  "describe_failure f = (case fl_kind f of
      VersionFailure \<Rightarrow> js ''protocol version not supported''
    | SdkFailure c \<Rightarrow> (case sdk_phrase c of Some p \<Rightarrow> p | None \<Rightarrow> error_phrase f)
    | ErrorFailure \<Rightarrow> error_phrase f
    | ValueFailure \<Rightarrow> js ''handshake failed'')"

definition is_connection_loss :: "failure \<Rightarrow> bool" where
  "is_connection_loss f = (case fl_kind f of
      SdkFailure c \<Rightarrow> c = ConnectionClosed \<or> c = NotConnected \<or> c = SendFailed
    | ValueFailure \<Rightarrow> False
    | _ \<Rightarrow> fl_code f = TextCode (js ''ECONNRESET''))"

definition failure_vocabulary :: "jstring set" where
  "failure_vocabulary = {js ''protocol version not supported'', js ''request timed out'',
     js ''protocol negotiation failed'', js ''connection closed'', js ''not connected'',
     js ''send failed'', js ''authentication required'', js ''access forbidden'',
     js ''malformed response'', js ''connection refused'', js ''host not found'',
     js ''command not found'', js ''permission denied'', js ''connect timed out'',
     js ''connection reset'', js ''handshake failed''}"

lemma if_memI: "(b \<Longrightarrow> x \<in> S) \<Longrightarrow> (\<not> b \<Longrightarrow> y \<in> S) \<Longrightarrow> (if b then x else y) \<in> S"
  by simp

lemma error_phrase_vocabulary: "error_phrase f \<in> failure_vocabulary"
  unfolding error_phrase_def failure_vocabulary_def Let_def
  by (intro if_memI; simp only: insert_iff simp_thms)

lemma sdk_phrase_vocabulary: "sdk_phrase c = Some p \<Longrightarrow> p \<in> failure_vocabulary"
  unfolding sdk_phrase_def failure_vocabulary_def
  by (cases c; simp only: sdk_code.case option.inject insert_iff simp_thms option.distinct; erule subst; simp only: simp_thms)

lemma describe_failure_vocabulary: "describe_failure f \<in> failure_vocabulary"
proof -
  have "js ''protocol version not supported'' \<in> failure_vocabulary" "js ''handshake failed'' \<in> failure_vocabulary"
    by (simp_all only: failure_vocabulary_def insert_iff simp_thms)
  then show ?thesis
    by (auto simp: describe_failure_def error_phrase_vocabulary sdk_phrase_vocabulary
        split: failure_kind.split option.split)
qed

section \<open>What a handshake reports\<close>

datatype negotiation = NegotiateLegacy | NegotiatePin jstring | NegotiateAuto int

definition min_probe_timeout_ms :: int where
  "min_probe_timeout_ms = 1000"

definition negotiation_options :: "upstream_protocol \<Rightarrow> int \<Rightarrow> negotiation" where
  "negotiation_options m connectTimeoutMs = (case m of
      ProtocolLegacy \<Rightarrow> NegotiateLegacy
    | ProtocolPinned \<Rightarrow> NegotiatePin sentinel_protocol_version
    | ProtocolAuto \<Rightarrow> NegotiateAuto (max min_probe_timeout_ms (connectTimeoutMs div 2)))"

definition max_server_info_length :: nat where
  "max_server_info_length = 200"

definition truncate_info :: "jstring \<Rightarrow> jstring" where
  "truncate_info v = (if length v > max_server_info_length then take max_server_info_length v @ [0x2026] else v)"

record implementation =
  im_name :: jstring
  im_version :: jstring
  im_title :: "jvalue option"

record server_info =
  si_name :: jstring
  si_version :: jstring
  si_title :: "jstring option"

definition sanitize_server_info :: "implementation option \<Rightarrow> server_info option" where
  "sanitize_server_info info = map_option (\<lambda>i.
     \<lparr>si_name = truncate_info (im_name i), si_version = truncate_info (im_version i),
      si_title = map_option truncate_info (as_string (im_title i))\<rparr>) info"

record handshake =
  hs_era :: "jstring option"
  hs_protocolVersion :: "jstring option"
  hs_serverVersion :: "implementation option"
  hs_capabilities :: "jvalue props option"

section \<open>The connection\<close>

datatype upstream_health = Idle | Connecting | Ready | Unavailable | QuarantinedHealth | DisabledHealth | Closed

text \<open>
  The fields of \<open>UpstreamClient\<close>. An SDK client is named by the generation of the dial that built it,
  and the promise in \<open>connectInFlight\<close> by the generation of its dial.
\<close>

record upstream_client =
  uc_server :: server_settings
  uc_health :: upstream_health
  uc_client :: "nat option"
  uc_inFlight :: "nat option"
  uc_generation :: nat
  uc_attempts :: nat
  uc_consecutiveFailures :: nat
  uc_retryNotBefore :: int
  uc_connectedAt :: "jstring option"
  uc_lastError :: "jstring option"
  uc_era :: "jstring option"
  uc_protocolVersion :: "jstring option"
  uc_serverInfo :: "server_info option"
  uc_capabilities :: "jvalue props option"
  uc_shuttingDown :: bool

definition new_upstream_client :: "server_settings \<Rightarrow> upstream_client" where
  "new_upstream_client s = \<lparr>uc_server = s,
     uc_health = (if us_trust s = Quarantined then QuarantinedHealth
                  else if us_enabled s then Idle else DisabledHealth),
     uc_client = None, uc_inFlight = None, uc_generation = 0, uc_attempts = 0,
     uc_consecutiveFailures = 0, uc_retryNotBefore = 0, uc_connectedAt = None, uc_lastError = None,
     uc_era = None, uc_protocolVersion = None, uc_serverInfo = None, uc_capabilities = None,
     uc_shuttingDown = False\<rparr>"

definition client_dialable :: "upstream_client \<Rightarrow> bool" where
  "client_dialable c = (us_enabled (uc_server c) \<and> us_trust (uc_server c) \<noteq> Quarantined
     \<and> \<not> uc_shuttingDown c)"

datatype transport_kind = HttpKind | StdioKind

definition kind_of_transport :: "upstream_transport \<Rightarrow> transport_kind" where
  "kind_of_transport t = (case t of HttpTransport _ _ \<Rightarrow> HttpKind | StdioTransport _ _ _ _ \<Rightarrow> StdioKind)"

record upstream_snapshot =
  sn_serverId :: jstring
  sn_label :: jstring
  sn_trust :: server_trust
  sn_transportKind :: transport_kind
  sn_health :: upstream_health
  sn_era :: "jstring option"
  sn_protocolVersion :: "jstring option"
  sn_serverInfo :: "server_info option"
  sn_capabilities :: "jvalue props option"
  sn_connectedAt :: "jstring option"
  sn_lastError :: "jstring option"
  sn_consecutiveFailures :: nat
  sn_attempts :: nat
  sn_retryNotBefore :: int

definition client_snapshot :: "upstream_client \<Rightarrow> upstream_snapshot" where
  "client_snapshot c = \<lparr>sn_serverId = us_id (uc_server c),
     sn_label = (case us_label (uc_server c) of None \<Rightarrow> us_id (uc_server c) | Some l \<Rightarrow> l),
     sn_trust = us_trust (uc_server c), sn_transportKind = kind_of_transport (us_transport (uc_server c)),
     sn_health = uc_health c, sn_era = uc_era c, sn_protocolVersion = uc_protocolVersion c,
     sn_serverInfo = uc_serverInfo c, sn_capabilities = uc_capabilities c,
     sn_connectedAt = uc_connectedAt c, sn_lastError = uc_lastError c,
     sn_consecutiveFailures = uc_consecutiveFailures c, sn_attempts = uc_attempts c,
     sn_retryNotBefore = uc_retryNotBefore c\<rparr>"

definition unavailable :: "upstream_client \<Rightarrow> jstring \<Rightarrow> exn" where
  "unavailable c reason = SentinelError (upstream_unavailable_error (us_id (uc_server c)) reason)"

definition clear_negotiated :: "upstream_client \<Rightarrow> upstream_client" where
  "clear_negotiated c = c\<lparr>uc_era := None, uc_protocolVersion := None, uc_serverInfo := None,
     uc_capabilities := None, uc_connectedAt := None\<rparr>"

text \<open>\<open>ensureReady\<close> up to its first suspension: who answers, and whether a dial starts.\<close>

datatype readiness = Refused exn | Existing nat | Join nat | StartDial

definition ensure_ready :: "pool_settings \<Rightarrow> int \<Rightarrow> upstream_client \<Rightarrow> readiness" where
  "ensure_ready pool now c =
     (if uc_shuttingDown c then Refused (unavailable c (js ''gateway is shutting down''))
      else if \<not> us_enabled (uc_server c)
      then Refused (unavailable c (js ''server is disabled in configuration''))
      else if us_trust (uc_server c) = Quarantined
      then Refused (unavailable c (js ''server is quarantined''))
      else case (if uc_health c = Ready then uc_client c else None) of
        Some k \<Rightarrow> Existing k
      | None \<Rightarrow> (case uc_inFlight c of
          Some g \<Rightarrow> Join g
        | None \<Rightarrow>
            let waitMs = uc_retryNotBefore c - now in
            if int (uc_consecutiveFailures c) \<ge> rc_failFastAfter (pl_reconnect pool) \<and> waitMs > 0
            then Refused (unavailable c (js ''unreachable after '' @ dec (uc_consecutiveFailures c)
                   @ js '' attempts; next retry in '' @ dec_int waitMs @ js ''ms''))
            else StartDial))"

text \<open>\<open>connectOnce\<close> up to the handshake: the next generation, and one more attempt.\<close>

definition begin_dial :: "upstream_client \<Rightarrow> upstream_client" where
  "begin_dial c = c\<lparr>uc_generation := Suc (uc_generation c), uc_attempts := Suc (uc_attempts c),
     uc_health := Connecting\<rparr>"

definition record_connect_failure ::
    "pool_settings \<Rightarrow> nat \<Rightarrow> jstring \<Rightarrow> int \<Rightarrow> rat \<Rightarrow> upstream_client \<Rightarrow> upstream_client" where
  "record_connect_failure pool g reason now random c =
     (if g \<noteq> uc_generation c then c
      else let failures = Suc (uc_consecutiveFailures c);
               delayMs = backoff_delay_ms (int failures) (policy_of_settings (pl_reconnect pool)) random
           in (clear_negotiated (c\<lparr>uc_consecutiveFailures := failures, uc_lastError := Some reason,
                 uc_client := None\<rparr>))
              \<lparr>uc_retryNotBefore := now + delayMs, uc_health := Unavailable\<rparr>)"

text \<open>The handshake returned: the connection is adopted, unless it was superseded meanwhile.\<close>

definition adopt_connection ::
    "nat \<Rightarrow> handshake \<Rightarrow> int \<Rightarrow> upstream_client \<Rightarrow> (exn + nat) \<times> upstream_client" where
  "adopt_connection g h now c =
     (if uc_shuttingDown c \<or> g \<noteq> uc_generation c
      then (Inl (unavailable c (js ''connection superseded during handshake'')), c)
      else let c1 = c\<lparr>uc_client := Some g, uc_era := hs_era h,
                 uc_protocolVersion := hs_protocolVersion h,
                 uc_serverInfo := sanitize_server_info (hs_serverVersion h),
                 uc_capabilities := hs_capabilities h\<rparr>
           in case iso_timestamp now of
                Inl e \<Rightarrow> (Inl e, c1)
              | Inr t \<Rightarrow> (Inr g, c1\<lparr>uc_connectedAt := Some t, uc_consecutiveFailures := 0,
                  uc_retryNotBefore := 0, uc_lastError := None, uc_health := Ready\<rparr>))"

definition handle_disconnect :: "nat \<Rightarrow> jstring \<Rightarrow> upstream_client \<Rightarrow> upstream_client" where
  "handle_disconnect g reason c =
     (if g \<noteq> uc_generation c \<or> uc_shuttingDown c then c
      else (clear_negotiated (c\<lparr>uc_generation := Suc (uc_generation c), uc_client := None\<rparr>))
             \<lparr>uc_lastError := Some reason, uc_health := Unavailable\<rparr>)"

definition reset_connection :: "upstream_client \<Rightarrow> upstream_client" where
  "reset_connection c =
     (let c1 = (clear_negotiated (c\<lparr>uc_generation := Suc (uc_generation c), uc_client := None\<rparr>))
                 \<lparr>uc_consecutiveFailures := 0, uc_retryNotBefore := 0\<rparr>
      in if client_dialable c1 then c1\<lparr>uc_health := Idle\<rparr> else c1)"

definition begin_close :: "upstream_client \<Rightarrow> upstream_client" where
  "begin_close c = c\<lparr>uc_shuttingDown := True, uc_generation := Suc (uc_generation c)\<rparr>"

definition finish_close :: "upstream_client \<Rightarrow> upstream_client" where
  "finish_close c = (clear_negotiated (c\<lparr>uc_client := None\<rparr>))\<lparr>uc_health := Closed\<rparr>"

text \<open>
  \<open>call\<close> once its callback settled, \<open>g\<close> being the generation it read before: a lost connection and a
  timeout become the gateway's own error, anything else is the value the callback threw.
\<close>

definition finish_call ::
    "nat \<Rightarrow> failure + 'a \<Rightarrow> upstream_client \<Rightarrow> (exn + 'a) \<times> upstream_client" where
  "finish_call g outcome c = (case outcome of
      Inr r \<Rightarrow> (Inr r, c)
    | Inl f \<Rightarrow>
        let reason = describe_failure f in
        if is_connection_loss f then (Inl (unavailable c reason), handle_disconnect g reason c)
        else if fl_kind f = SdkFailure RequestTimeout then (Inl (unavailable c reason), c)
        else (Inl (fl_thrown f), c))"

section \<open>Interleavings\<close>

text \<open>
  One client and everything that may call into it: dials waiting for their handshake, dials whose
  promise has an outcome while \<open>finally\<close> has not run, and the SDK connections that are open. Each
  event is a stretch of code between two suspensions; any enabled event may come next. A pending call
  may have read any generation up to the current one.
\<close>

record connection_system =
  cs_client :: upstream_client
  cs_dials :: "nat list"
  cs_settling :: "nat list"
  cs_open :: "nat list"

datatype upstream_event =
    EnsureReady int "failure option" rat
  | HandshakeDone nat handshake int
  | HandshakeFailed nat failure int rat
  | DialSettled nat
  | PeerClosed nat
  | CallFailed nat failure
  | ResetRequested
  | CloseStarted
  | CloseFinished

definition valid_clock :: "int \<Rightarrow> bool" where
  "valid_clock now = (\<bar>now\<bar> \<le> 8640000000000000)"

definition initial_system :: "server_settings \<Rightarrow> connection_system" where
  "initial_system sv = \<lparr>cs_client = new_upstream_client sv, cs_dials = [], cs_settling = [], cs_open = []\<rparr>"

text \<open>\<open>ensureReady\<close>: a dial whose transport cannot be built fails before it suspends.\<close>

definition request_connection ::
    "pool_settings \<Rightarrow> int \<Rightarrow> failure option \<Rightarrow> rat \<Rightarrow> connection_system \<Rightarrow> connection_system" where
  "request_connection pool now fault random s =
     (if ensure_ready pool now (cs_client s) = StartDial
      then let c = begin_dial (cs_client s); g = uc_generation c in
        (case fault of
           None \<Rightarrow> s\<lparr>cs_client := c\<lparr>uc_inFlight := Some g\<rparr>, cs_dials := g # cs_dials s\<rparr>
         | Some f \<Rightarrow> s\<lparr>cs_client := (record_connect_failure pool g (describe_failure f) now random c)
                                     \<lparr>uc_inFlight := Some g\<rparr>,
                       cs_settling := g # cs_settling s\<rparr>)
      else s)"

definition close_current :: "connection_system \<Rightarrow> nat list" where
  "close_current s = (case uc_client (cs_client s) of None \<Rightarrow> cs_open s | Some k \<Rightarrow> removeAll k (cs_open s))"

fun upstream_step :: "pool_settings \<Rightarrow> upstream_event \<Rightarrow> connection_system \<Rightarrow> connection_system option" where
  "upstream_step pool (EnsureReady now fault random) s = Some (request_connection pool now fault random s)"
| "upstream_step pool (HandshakeDone g h now) s =
     (if g \<in> set (cs_dials s) \<and> valid_clock now
      then case adopt_connection g h now (cs_client s) of
          (Inl _, c) \<Rightarrow> Some (s\<lparr>cs_client := c, cs_dials := remove1 g (cs_dials s), cs_settling := g # cs_settling s\<rparr>)
        | (Inr k, c) \<Rightarrow> Some (s\<lparr>cs_client := c, cs_dials := remove1 g (cs_dials s), cs_settling := g # cs_settling s,
                              cs_open := k # cs_open s\<rparr>)
      else None)"
| "upstream_step pool (HandshakeFailed g f now random) s =
     (if g \<in> set (cs_dials s)
      then Some (s\<lparr>cs_client := record_connect_failure pool g (describe_failure f) now random (cs_client s),
                   cs_dials := remove1 g (cs_dials s), cs_settling := g # cs_settling s\<rparr>)
      else None)"
| "upstream_step pool (DialSettled g) s =
     (if g \<in> set (cs_settling s)
      then Some (s\<lparr>cs_client := (cs_client s)\<lparr>uc_inFlight := None\<rparr>, cs_settling := remove1 g (cs_settling s)\<rparr>)
      else None)"
| "upstream_step pool (PeerClosed g) s =
     (if g \<in> set (cs_open s)
      then Some (s\<lparr>cs_client := handle_disconnect g (js ''connection closed'') (cs_client s),
                   cs_open := removeAll g (cs_open s)\<rparr>)
      else None)"
| "upstream_step pool (CallFailed g f) s =
     (if g \<le> uc_generation (cs_client s)
      then Some (s\<lparr>cs_client := snd (finish_call g (Inl f :: failure + unit) (cs_client s))\<rparr>)
      else None)"
| "upstream_step pool ResetRequested s =
     Some (s\<lparr>cs_client := reset_connection (cs_client s), cs_open := close_current s\<rparr>)"
| "upstream_step pool CloseStarted s = Some (s\<lparr>cs_client := begin_close (cs_client s)\<rparr>)"
| "upstream_step pool CloseFinished s =
     (if uc_shuttingDown (cs_client s) \<and> uc_inFlight (cs_client s) = None
      then Some (s\<lparr>cs_client := finish_close (cs_client s), cs_open := close_current s\<rparr>)
      else None)"

fun upstream_run :: "pool_settings \<Rightarrow> upstream_event list \<Rightarrow> connection_system \<Rightarrow> connection_system option" where
  "upstream_run pool [] s = Some s"
| "upstream_run pool (e # es) s =
     (case upstream_step pool e s of None \<Rightarrow> None | Some s' \<Rightarrow> upstream_run pool es s')"

inductive upstream_reachable :: "pool_settings \<Rightarrow> server_settings \<Rightarrow> connection_system \<Rightarrow> bool" for pool sv where
  reach_initial: "upstream_reachable pool sv (initial_system sv)"
| reach_step: "upstream_reachable pool sv s \<Longrightarrow> upstream_step pool e s = Some s' \<Longrightarrow> upstream_reachable pool sv s'"

lemma reach_run: "upstream_reachable pool sv s \<Longrightarrow> upstream_run pool es s = Some s' \<Longrightarrow> upstream_reachable pool sv s'"
  by (induction es arbitrary: s) (auto intro: reach_step split: option.splits)

section \<open>The invariant\<close>

definition flight_ok :: "connection_system \<Rightarrow> bool" where
  "flight_ok s = (cs_dials s @ cs_settling s = (case uc_inFlight (cs_client s) of None \<Rightarrow> [] | Some g \<Rightarrow> [g])
     \<and> (\<forall>g \<in> set (cs_dials s) \<union> set (cs_settling s) \<union> set (cs_open s). g \<le> uc_generation (cs_client s)))"

definition adoption_ok :: "connection_system \<Rightarrow> bool" where
  "adoption_ok s = (let c = cs_client s in
     (case uc_client c of
        None \<Rightarrow> uc_era c = None \<and> uc_protocolVersion c = None \<and> uc_serverInfo c = None
          \<and> uc_capabilities c = None \<and> uc_connectedAt c = None \<and> (\<not> uc_shuttingDown c \<longrightarrow> uc_health c \<noteq> Ready)
      | Some k \<Rightarrow> uc_health c = Ready \<and> uc_consecutiveFailures c = 0
          \<and> (uc_shuttingDown c \<or> (k \<in> set (cs_open s) \<and> k = uc_generation c))))"

definition never_ok :: "connection_system \<Rightarrow> bool" where
  "never_ok s = (let c = cs_client s in
     us_enabled (uc_server c) \<and> us_trust (uc_server c) \<noteq> Quarantined
     \<or> (uc_attempts c = 0 \<and> cs_dials s = [] \<and> cs_settling s = [] \<and> cs_open s = [] \<and> uc_client c = None
        \<and> uc_inFlight c = None \<and> uc_health c \<noteq> Ready))"

definition connection_ok :: "connection_system \<Rightarrow> bool" where
  "connection_ok s = (flight_ok s \<and> adoption_ok s \<and> never_ok s)"

lemmas client_op_defs = request_connection_def begin_dial_def record_connect_failure_def adopt_connection_def
  handle_disconnect_def reset_connection_def begin_close_def finish_close_def clear_negotiated_def
  close_current_def client_dialable_def
lemmas connection_inv_defs = connection_ok_def flight_ok_def adoption_ok_def never_ok_def

lemma start_dial_iff: "ensure_ready pool now c = StartDial \<longleftrightarrow>
    client_dialable c \<and> (uc_health c = Ready \<longrightarrow> uc_client c = None) \<and> uc_inFlight c = None
    \<and> (int (uc_consecutiveFailures c) < rc_failFastAfter (pl_reconnect pool) \<or> uc_retryNotBefore c \<le> now)"
  by (auto simp: ensure_ready_def client_dialable_def Let_def split: option.splits if_splits)

lemma iso_valid: "valid_clock now \<Longrightarrow> \<exists>t. iso_timestamp now = Inr t"
  by (auto simp: valid_clock_def iso_timestamp_def split: prod.splits simp: Let_def)

lemma adopt_cases:
  assumes "valid_clock now"
  obtains (superseded) e where "adopt_connection g h now c = (Inl e, c)" "uc_shuttingDown c \<or> g \<noteq> uc_generation c"
  | (adopted) t where "\<not> uc_shuttingDown c" "g = uc_generation c" "iso_timestamp now = Inr t"
      "adopt_connection g h now c = (Inr g, c\<lparr>uc_client := Some g, uc_era := hs_era h,
         uc_protocolVersion := hs_protocolVersion h, uc_serverInfo := sanitize_server_info (hs_serverVersion h),
         uc_capabilities := hs_capabilities h, uc_connectedAt := Some t, uc_consecutiveFailures := 0,
         uc_retryNotBefore := 0, uc_lastError := None, uc_health := Ready\<rparr>)"
proof -
  obtain t where "iso_timestamp now = Inr t" using iso_valid [OF assms] by blast
  then show thesis using that unfolding adopt_connection_def Let_def by (auto split: if_splits)
qed

lemma ok_ensure [client_rules]:
  assumes "connection_ok s" shows "connection_ok (request_connection pool now fault r s)"
proof (cases "ensure_ready pool now (cs_client s) = StartDial")
  case True
  then have start: "client_dialable (cs_client s)" "uc_health (cs_client s) = Ready \<longrightarrow> uc_client (cs_client s) = None"
    "uc_inFlight (cs_client s) = None" by (simp_all add: start_dial_iff)
  with assms have idle: "cs_dials s = []" "cs_settling s = []" "uc_client (cs_client s) = None"
    by (auto simp: connection_inv_defs Let_def split: option.splits)
  have bound: "\<forall>g \<in> set (cs_open s). g \<le> Suc (uc_generation (cs_client s))"
    using assms by (auto simp: connection_inv_defs le_Suc_eq)
  show ?thesis
    using assms start idle bound True
    by (auto simp: connection_inv_defs client_op_defs Let_def split: option.splits)
next
  case False
  then show ?thesis using assms by (simp add: request_connection_def)
qed

lemma le_Suc_all: "\<forall>g\<in>S. g \<le> n \<Longrightarrow> \<forall>g\<in>S. g \<le> Suc n"
  by (auto simp: le_Suc_eq)

lemma flight_single: "flight_ok s \<Longrightarrow> g \<in> set (cs_dials s) \<Longrightarrow>
    cs_dials s = [g] \<and> cs_settling s = [] \<and> uc_inFlight (cs_client s) = Some g"
  "flight_ok s \<Longrightarrow> g \<in> set (cs_settling s) \<Longrightarrow>
    cs_dials s = [] \<and> cs_settling s = [g] \<and> uc_inFlight (cs_client s) = Some g"
  by (auto simp: flight_ok_def append_eq_Cons_conv split: option.splits)

lemma ok_handshake [client_rules]:
  assumes ok: "connection_ok s" and step: "upstream_step pool (HandshakeDone g h now) s = Some s'"
  shows "connection_ok s'"
proof -
  from step have g: "g \<in> set (cs_dials s)" and now: "valid_clock now" by (auto split: if_splits)
  with ok have f: "cs_dials s = [g]" "cs_settling s = []" "uc_inFlight (cs_client s) = Some g"
    using flight_single by (auto simp: connection_ok_def)
  from now show ?thesis
  proof (cases rule: adopt_cases [where g = g and h = h and c = "cs_client s"])
    case superseded
    with ok step f g now show ?thesis
      by (cases "uc_client (cs_client s)"; clarsimp simp: connection_inv_defs Let_def)
  next
    case (adopted t)
    with ok step f g now show ?thesis
      by (cases "uc_client (cs_client s)"; clarsimp simp: connection_inv_defs Let_def)
  qed
qed

lemma ok_failed [client_rules]:
  assumes ok: "connection_ok s" and step: "upstream_step pool (HandshakeFailed g f now r) s = Some s'"
  shows "connection_ok s'"
proof -
  from step have g: "g \<in> set (cs_dials s)" by (auto split: if_splits)
  with ok have f: "cs_dials s = [g]" "cs_settling s = []" "uc_inFlight (cs_client s) = Some g"
    using flight_single by (auto simp: connection_ok_def)
  with ok step show ?thesis
    by (cases "uc_client (cs_client s)"; clarsimp simp: connection_inv_defs client_op_defs Let_def)
qed

lemma ok_settled [client_rules]:
  assumes ok: "connection_ok s" and step: "upstream_step pool (DialSettled g) s = Some s'"
  shows "connection_ok s'"
proof -
  from step have g: "g \<in> set (cs_settling s)" by (auto split: if_splits)
  with ok have "cs_dials s = []" "cs_settling s = [g]" "uc_inFlight (cs_client s) = Some g"
    using flight_single by (auto simp: connection_ok_def)
  with ok step show ?thesis
    by (cases "uc_client (cs_client s)"; clarsimp simp: connection_inv_defs Let_def)
qed

lemma ok_disconnect [client_rules]:
  assumes "connection_ok s"
  shows "connection_ok (s\<lparr>cs_client := handle_disconnect g reason (cs_client s)\<rparr>)"
  using assms by (auto simp: connection_inv_defs client_op_defs Let_def le_Suc_eq split: option.splits)

lemma ok_closed [client_rules]:
  assumes ok: "connection_ok s"
  shows "connection_ok (s\<lparr>cs_client := handle_disconnect g reason (cs_client s), cs_open := removeAll g (cs_open s)\<rparr>)"
  using ok by (auto simp: connection_inv_defs client_op_defs Let_def le_Suc_eq split: option.splits)

lemma ok_reset [client_rules]:
  assumes ok: "connection_ok s"
  shows "connection_ok (s\<lparr>cs_client := reset_connection (cs_client s), cs_open := close_current s\<rparr>)"
  using ok by (auto simp: connection_inv_defs client_op_defs Let_def le_Suc_eq split: option.splits)

lemma ok_close_started [client_rules]:
  assumes ok: "connection_ok s" shows "connection_ok (s\<lparr>cs_client := begin_close (cs_client s)\<rparr>)"
  using ok by (auto simp: connection_inv_defs begin_close_def Let_def le_Suc_eq split: option.splits)

lemma ok_close_finished [client_rules]:
  assumes ok: "connection_ok s"
  shows "connection_ok (s\<lparr>cs_client := finish_close (cs_client s), cs_open := close_current s\<rparr>)"
  using ok by (auto simp: connection_inv_defs finish_close_def clear_negotiated_def close_current_def Let_def
      split: option.splits)

lemma ok_call [client_rules]:
  assumes ok: "connection_ok s" shows "connection_ok (s\<lparr>cs_client := snd (finish_call g out (cs_client s))\<rparr>)"
  using ok ok_disconnect [OF ok] by (auto simp: finish_call_def Let_def split: sum.split)

lemma connection_ok_step: "connection_ok s \<Longrightarrow> upstream_step pool e s = Some s' \<Longrightarrow> connection_ok s'"
proof (cases e)
  case HandshakeDone
  then show "connection_ok s \<Longrightarrow> upstream_step pool e s = Some s' \<Longrightarrow> connection_ok s'"
    using ok_handshake by blast
next
  case HandshakeFailed
  then show "connection_ok s \<Longrightarrow> upstream_step pool e s = Some s' \<Longrightarrow> connection_ok s'"
    using ok_failed by blast
next
  case DialSettled
  then show "connection_ok s \<Longrightarrow> upstream_step pool e s = Some s' \<Longrightarrow> connection_ok s'"
    using ok_settled by blast
qed (auto intro: client_rules split: if_splits)

lemma connection_ok_initial: "connection_ok (initial_system sv)"
  by (simp add: connection_inv_defs initial_system_def new_upstream_client_def Let_def)

lemma reachable_ok: "upstream_reachable pool sv s \<Longrightarrow> connection_ok s"
  by (induction rule: upstream_reachable.induct) (auto intro: connection_ok_initial connection_ok_step)

lemma server_fixed: "upstream_reachable pool sv s \<Longrightarrow> uc_server (cs_client s) = sv"
proof (induction rule: upstream_reachable.induct)
  case (reach_step s e s')
  then show ?case
    by (cases e) (auto simp: client_op_defs finish_call_def Let_def split: if_splits option.splits sum.splits prod.splits)
qed (simp add: initial_system_def new_upstream_client_def)

section \<open>The fail-fast window\<close>

text \<open>
  Nothing dials, connects or fails while a server that used up its attempts waits, whatever other
  events arrive; only a deliberate reset ends the wait early.
\<close>

fun stays_inside :: "int \<Rightarrow> upstream_event \<Rightarrow> bool" where
  "stays_inside T (EnsureReady now _ _) = (now < T)"
| "stays_inside T ResetRequested = False"
| "stays_inside T _ = True"

definition in_window :: "pool_settings \<Rightarrow> nat \<Rightarrow> int \<Rightarrow> connection_system \<Rightarrow> bool" where
  "in_window pool n T s = (cs_dials s = [] \<and> uc_attempts (cs_client s) = n \<and> uc_retryNotBefore (cs_client s) = T
     \<and> rc_failFastAfter (pl_reconnect pool) \<le> int (uc_consecutiveFailures (cs_client s)))"

lemma window_step:
  assumes w: "in_window pool n T s" and inside: "stays_inside T e" and step: "upstream_step pool e s = Some s'"
  shows "in_window pool n T s'"
proof (cases e)
  case (EnsureReady now fault r)
  with w inside have "ensure_ready pool now (cs_client s) \<noteq> StartDial"
    by (auto simp: start_dial_iff in_window_def)
  with EnsureReady w step show ?thesis by (auto simp: request_connection_def)
qed (use w inside step in \<open>auto simp: in_window_def client_op_defs finish_call_def Let_def
    split: if_splits sum.splits\<close>)

lemma window_run:
  "in_window pool n T s \<Longrightarrow> list_all (stays_inside T) es \<Longrightarrow> upstream_run pool es s = Some s' \<Longrightarrow> in_window pool n T s'"
  by (induction es arbitrary: s) (auto split: option.splits intro: window_step)

section \<open>Transports\<close>

text \<open>
  \<open>getDefaultEnvironment()\<close> of the SDK and the URL parser are arguments; \<open>{...a, ...b}\<close> defines every
  property of \<open>b\<close> over those of \<open>a\<close>.
\<close>

definition spread :: "'v props \<Rightarrow> 'v props \<Rightarrow> 'v props" where
  "spread a b = fold (\<lambda>(k, v) out. put_prop k v out) b a"

lemma get_spread: "get_prop (spread a b) k = Some v \<Longrightarrow> get_prop a k = Some v \<or> (k, v) \<in> set b"
  unfolding spread_def
  by (induction b arbitrary: a) (fastforce simp: update_conv' split: if_splits prod.splits)+

datatype transport_options =
    HttpOptions (to_url: jstring) (to_headers: "jstring props") (to_maxRetries: nat)
  | StdioOptions (to_command: jstring) (to_args: "jstring list") (to_env: "jstring props")
      (to_maxBufferSize: nat) (to_cwd: "jstring option")

definition max_message_bytes :: nat where
  "max_message_bytes = 4 * 1024 * 1024"

definition build_upstream_transport ::
    "(jstring \<Rightarrow> bool) \<Rightarrow> jstring props \<Rightarrow> server_settings \<Rightarrow> exn + transport_options" where
  "build_upstream_transport parses_url defaultEnv sv = (case us_transport sv of
      HttpTransport url headers \<Rightarrow>
        if parses_url url then Inr (HttpOptions url (spread [] headers) 0) else Inl TypeError
    | StdioTransport command args env cwd \<Rightarrow>
        Inr (StdioOptions command args (spread (spread [] defaultEnv) env) max_message_bytes cwd))"

section \<open>The child's standard error\<close>

definition max_stderr_fragment :: nat where
  "max_stderr_fragment = 8 * 1024"

text \<open>One chunk: the lines handed to the log, and the fragment kept.\<close>

definition stderr_chunk :: "jstring \<Rightarrow> jstring \<Rightarrow> jstring list \<times> jstring" where
  "stderr_chunk fragment chunk =
     (let f = fragment @ chunk in
      if length f > max_stderr_fragment then ([f], [])
      else let parts = split_on 10 f in (butlast parts, last parts))"

fun stderr_lines :: "jstring \<Rightarrow> jstring list \<Rightarrow> jstring list \<times> jstring" where
  "stderr_lines fragment [] = ([], fragment)"
| "stderr_lines fragment (chunk # r) =
     (let (emitted, f) = stderr_chunk fragment chunk; (more, f') = stderr_lines f r in (emitted @ more, f'))"

section \<open>The registry\<close>

record upstream_registry =
  rg_clients :: "upstream_client props"
  rg_closed :: bool

definition build_registry :: "server_settings list \<Rightarrow> upstream_registry" where
  "build_registry servers = \<lparr>rg_clients =
     fold (\<lambda>sv m. put_prop (us_id sv) (new_upstream_client sv) m) servers [], rg_closed = False\<rparr>"

definition registry_all :: "upstream_registry \<Rightarrow> upstream_client list" where
  "registry_all r = map snd (rg_clients r)"

definition registry_dialable :: "upstream_registry \<Rightarrow> upstream_client list" where
  "registry_dialable r = filter client_dialable (registry_all r)"

definition registry_has :: "upstream_registry \<Rightarrow> jstring \<Rightarrow> bool" where
  "registry_has r i = (get_prop (rg_clients r) i \<noteq> None)"

definition registry_get :: "upstream_registry \<Rightarrow> jstring \<Rightarrow> upstream_client option" where
  "registry_get r i = get_prop (rg_clients r) i"

definition registry_require :: "upstream_registry \<Rightarrow> jstring \<Rightarrow> exn + upstream_client" where
  "registry_require r i = (case get_prop (rg_clients r) i of
      None \<Rightarrow> Inl (SentinelError (upstream_unavailable_error i (js ''no such server'')))
    | Some c \<Rightarrow> Inr c)"

definition registry_settings :: "upstream_registry \<Rightarrow> jstring \<Rightarrow> server_settings option" where
  "registry_settings r i = map_option uc_server (get_prop (rg_clients r) i)"

definition registry_snapshots :: "upstream_registry \<Rightarrow> upstream_snapshot list" where
  "registry_snapshots r = map client_snapshot (registry_all r)"

text \<open>\<open>close\<close> up to its suspension: every client starts closing, and a second call does nothing.\<close>

definition registry_close :: "upstream_registry \<Rightarrow> upstream_registry" where
  "registry_close r = (if rg_closed r then r
     else r\<lparr>rg_closed := True, rg_clients := map (\<lambda>(i, c). (i, begin_close c)) (rg_clients r)\<rparr>)"

lemma concat_split_on: "concat (split_on c s) = filter (\<lambda>x. x \<noteq> c) s"
  by (induction s) (auto split: list.splits)

lemma butlast_last_concat: "xs \<noteq> [] \<Longrightarrow> concat (butlast xs) @ last xs = concat xs"
  by (metis append_butlast_last_id concat.simps concat_append append_Nil2)

lemma length_split_part: "p \<in> set (split_on c s) \<Longrightarrow> length p \<le> length s"
proof -
  assume "p \<in> set (split_on c s)"
  then obtain a b where "split_on c s = a @ p # b" by (meson split_list)
  then have "length p \<le> length (concat (split_on c s))" by simp
  also have "\<dots> \<le> length s" unfolding concat_split_on by (rule length_filter_le)
  finally show ?thesis .
qed

lemma stderr_chunk_text:
  "stderr_chunk fragment chunk = (em, f) \<Longrightarrow>
    filter (\<lambda>x. x \<noteq> 10) (concat em @ f) = filter (\<lambda>x. x \<noteq> 10) (fragment @ chunk) \<and> length f \<le> max_stderr_fragment"
proof (cases "length (fragment @ chunk) > max_stderr_fragment")
  case False
  assume "stderr_chunk fragment chunk = (em, f)"
  with False have e: "em = butlast (split_on 10 (fragment @ chunk))" "f = last (split_on 10 (fragment @ chunk))"
    by (simp_all add: stderr_chunk_def Let_def)
  then have "concat em @ f = filter (\<lambda>x. x \<noteq> 10) (fragment @ chunk)"
    by (simp add: butlast_last_concat concat_split_on)
  moreover have "length f \<le> length (fragment @ chunk)" unfolding e by (rule length_split_part [where c = 10]) (rule last_in_set, simp)
  ultimately show ?thesis using False by simp
qed (auto simp: stderr_chunk_def)

text \<open>Whatever an upstream writes, it is logged once and in order, and the fragment held stays bounded.\<close>

lemma stderr_logged_once:
  "length fragment \<le> max_stderr_fragment \<Longrightarrow> stderr_lines fragment chunks = (em, f) \<Longrightarrow>
    filter (\<lambda>x. x \<noteq> 10) (concat em @ f) = filter (\<lambda>x. x \<noteq> 10) (fragment @ concat chunks)
    \<and> length f \<le> max_stderr_fragment"
proof (induction chunks arbitrary: fragment em f)
  case (Cons chunk r)
  obtain em1 f1 where c: "stderr_chunk fragment chunk = (em1, f1)" by fastforce
  obtain em2 where r: "stderr_lines f1 r = (em2, f)" "em = em1 @ em2"
    using Cons.prems(2) c by (auto split: prod.splits)
  note s = stderr_chunk_text [OF c]
  have "filter (\<lambda>x. x \<noteq> 10) (concat em2 @ f) = filter (\<lambda>x. x \<noteq> 10) (f1 @ concat r) \<and> length f \<le> max_stderr_fragment"
    by (rule Cons.IH [OF _ r(1)]) (use s in simp)
  with s r(2) show ?case by (simp add: append_assoc [symmetric] del: append_assoc) simp
qed simp

lemma child_environment:
  assumes "us_transport sv = StdioTransport command args env cwd"
    "build_upstream_transport u defaultEnv sv = Inr (StdioOptions c as e m d)" "get_prop e k = Some v"
  shows "(k, v) \<in> set defaultEnv \<or> (k, v) \<in> set env"
  using assms get_spread [of "spread [] defaultEnv" env k v] get_spread [of "[]" defaultEnv k v]
  by (auto simp: build_upstream_transport_def)

section \<open>Properties\<close>

text \<open>
  C31: an upstream that is quarantined or disabled is never dialled: whatever is requested of it and in
  whatever order, no attempt is counted, no connection opens, and every request for one is refused
  with the gateway's own error.
\<close>

theorem quarantined_never_dialled:
  assumes "upstream_reachable pool sv s" "us_trust sv = Quarantined \<or> \<not> us_enabled sv"
  shows "uc_attempts (cs_client s) = 0 \<and> cs_dials s = [] \<and> cs_open s = [] \<and> uc_client (cs_client s) = None
    \<and> (\<exists>reason. ensure_ready pool now (cs_client s) = Refused (unavailable (cs_client s) reason))"
  using reachable_ok [OF assms(1)] server_fixed [OF assms(1)] assms(2)
  by (auto simp: connection_ok_def never_ok_def Let_def ensure_ready_def)

definition sample_server :: "server_trust \<Rightarrow> server_settings" where
  "sample_server t = \<lparr>us_id = js ''files'', us_label = None, us_transport = HttpTransport (js ''http://f'') [],
     us_trust = t, us_allowTools = None, us_enabled = True\<rparr>"

lemma quarantined_never_dialled_witness:
  "\<exists>s. upstream_run default_pool [EnsureReady 5 None 0, ResetRequested, EnsureReady 9 None 0]
      (initial_system (sample_server Quarantined)) = Some s \<and> uc_attempts (cs_client s) = 0 \<and> cs_open s = []"
proof -
  obtain s where run: "upstream_run default_pool [EnsureReady 5 None 0, ResetRequested, EnsureReady 9 None 0]
      (initial_system (sample_server Quarantined)) = Some s" by simp
  from quarantined_never_dialled [OF reach_run [OF reach_initial run], of 9] run show ?thesis
    by (simp add: sample_server_def)
qed



text \<open>
  A callback of a connection that was replaced disturbs nothing: while connection \<open>k\<close> is adopted,
  a disconnect, a failed handshake or a late handshake of any other generation leaves every field as
  it was, and the late connection is not adopted.
\<close>

theorem stale_callbacks_ignored:
  assumes "upstream_reachable pool sv s" "uc_client (cs_client s) = Some k" "g \<noteq> k"
  shows "handle_disconnect g reason (cs_client s) = cs_client s
    \<and> (uc_shuttingDown (cs_client s) \<or> record_connect_failure pool g reason now r (cs_client s) = cs_client s)
    \<and> (\<exists>e. adopt_connection g h now (cs_client s) = (Inl e, cs_client s))"
  using reachable_ok [OF assms(1)] assms(2,3)
  by (auto simp: connection_ok_def adoption_ok_def Let_def handle_disconnect_def record_connect_failure_def
      adopt_connection_def)

lemma stale_callbacks_ignored_witness:
  "\<exists>s :: connection_system. uc_client (cs_client s) = Some 1 \<and> handle_disconnect 0 [] (cs_client s) = cs_client s"
proof -
  let ?h = "\<lparr>hs_era = None, hs_protocolVersion = None, hs_serverVersion = None, hs_capabilities = None\<rparr>"
  have "\<exists>s. upstream_run default_pool [EnsureReady 5 None 0, HandshakeDone 1 ?h 6]
        (initial_system (sample_server Trusted)) = Some s \<and> uc_client (cs_client s) = Some 1"
    using iso_valid [of 6]
    by (auto simp: initial_system_def new_upstream_client_def sample_server_def request_connection_def
        ensure_ready_def default_pool_def begin_dial_def adopt_connection_def valid_clock_def Let_def)
  then obtain s where s: "upstream_reachable default_pool (sample_server Trusted) s" "uc_client (cs_client s) = Some 1"
    using reach_run [OF reach_initial] by blast
  then have "handle_disconnect 0 [] (cs_client s) = cs_client s"
    using stale_callbacks_ignored [OF s, of 0 "[]" 0 0 ?h] by simp
  with s(2) show ?thesis by blast
qed

text \<open>Inside the window nothing is connected, so a dial starts exactly from the retry time on.\<close>

lemma window_dials:
  assumes "connection_ok s" "in_window pool n T s" "1 \<le> rc_failFastAfter (pl_reconnect pool)"
    and "cs_settling s = []" "client_dialable (cs_client s)"
  shows "if now < T
    then ensure_ready pool now (cs_client s) = Refused (unavailable (cs_client s) (js ''unreachable after ''
           @ dec (uc_consecutiveFailures (cs_client s)) @ js '' attempts; next retry in '' @ dec_int (T - now) @ js ''ms''))
         \<and> upstream_step pool (EnsureReady now fault random) s = Some s
    else ensure_ready pool now (cs_client s) = StartDial
         \<and> (\<exists>s'. upstream_step pool (EnsureReady now fault random) s = Some s'
              \<and> uc_attempts (cs_client s') = Suc (uc_attempts (cs_client s)))"
proof -
  have free: "uc_client (cs_client s) = None" "uc_inFlight (cs_client s) = None"
    using assms by (auto simp: connection_inv_defs in_window_def Let_def split: option.splits)
  have refuse: "ensure_ready pool now (cs_client s) = Refused (unavailable (cs_client s) (js ''unreachable after ''
      @ dec (uc_consecutiveFailures (cs_client s)) @ js '' attempts; next retry in '' @ dec_int (T - now) @ js ''ms''))"
    if "now < T" using assms(2,5) free that by (auto simp: ensure_ready_def in_window_def client_dialable_def)
  have dial: "ensure_ready pool now (cs_client s) = StartDial" if "\<not> now < T"
    using assms(2,5) free that by (auto simp: start_dial_iff in_window_def)
  show ?thesis
  proof (cases "now < T")
    case True
    with refuse show ?thesis by (simp add: request_connection_def)
  next
    case False
    with dial show ?thesis
      by (cases fault) (simp_all add: request_connection_def begin_dial_def record_connect_failure_def clear_negotiated_def Let_def)
  qed
qed


definition hasty_pool :: pool_settings where
  "hasty_pool = default_pool\<lparr>pl_reconnect := (pl_reconnect default_pool)\<lparr>rc_failFastAfter := 1\<rparr>\<rparr>"


text \<open>
  A call that fails reports one of sixteen fixed phrases when the connection was lost or timed
  out, and otherwise the upstream's own error untouched; only a lost connection of the current
  generation changes the state of the connection.
\<close>

theorem call_failure_contract:
  "(if is_connection_loss f \<or> fl_kind f = SdkFailure RequestTimeout
    then \<exists>phrase \<in> failure_vocabulary. fst (finish_call g (Inl f :: failure + 'a) c) = Inl (unavailable c phrase)
    else fst (finish_call g (Inl f :: failure + 'a) c) = Inl (fl_thrown f))
   \<and> (snd (finish_call g (Inl f :: failure + 'a) c) = c
      \<or> is_connection_loss f \<and> g = uc_generation c \<and> \<not> uc_shuttingDown c)"
  using describe_failure_vocabulary [of f]
  by (auto simp: finish_call_def Let_def handle_disconnect_def)

text \<open>
  A failed send on a live connection drops the SDK client without closing it: the connection stays
  open and no later event of this class closes it.
\<close>

lemma send_failure_orphans:
  "\<exists>s. upstream_run default_pool [EnsureReady 5 None 0, HandshakeDone 1 \<lparr>hs_era = None, hs_protocolVersion = None,
        hs_serverVersion = None, hs_capabilities = None\<rparr> 6, DialSettled 1,
        CallFailed 1 \<lparr>fl_kind = SdkFailure SendFailed, fl_code = NoCode, fl_name = [], fl_thrown = PlainError []\<rparr>,
        CloseStarted, CloseFinished] (initial_system (sample_server Trusted)) = Some s
     \<and> uc_health (cs_client s) = Closed \<and> uc_client (cs_client s) = None \<and> cs_open s = [1]"
  using iso_valid [of 6]
  by (auto simp: initial_system_def new_upstream_client_def sample_server_def request_connection_def
      ensure_ready_def default_pool_def client_op_defs valid_clock_def finish_call_def is_connection_loss_def Let_def)

end
