(* ===== verification/PolicyLoader.thy ===== *)
theory PolicyLoader
  imports CoreTypes Values
begin

text \<open>
  The Cedar bundle loader of \<open>packages/policy-engine/src/loader.ts\<close>. Cedar's functions and the file
  system are parameters: \<open>schemaToJson\<close>, \<open>policySetTextToParts\<close> and \<open>policyToJson\<close> as functions of the
  text that answer success or the value of their \<open>errors\<close> field, the directory as a list of names
  and a read function that may throw.
\<close>

section \<open>The bundle\<close>

record policy_annotations =
  pa_file :: "jstring option"
  pa_obligation :: "obligation option"
  pa_reason :: jstring
  pa_effect :: jstring

record policy_bundle =
  pb_staticPolicies :: "jstring props"
  pb_annotations :: "policy_annotations props"
  pb_schemaJson :: jvalue
  pb_policyCount :: nat
  pb_fileCount :: nat

text \<open>
  What \<open>policyToJson\<close> reports of a policy: its effect and its annotations. An annotation without a value
  is \<open>null\<close> there, \<open>Some None\<close> here.
\<close>

record policy_json =
  pj_effect :: jstring
  pj_annotations :: "jstring option props option"

record cedar_parser =
  cp_schemaToJson :: "jstring \<Rightarrow> jvalue + jvalue"
  cp_policySetTextToParts :: "jstring \<Rightarrow> jvalue + jstring list"
  cp_policyToJson :: "jstring \<Rightarrow> jvalue + policy_json"

section \<open>Loading\<close>

definition obligation_of_text :: "jstring \<Rightarrow> obligation option" where
  "obligation_of_text t = (if t = js ''allow'' then Some Allow else if t = js ''review'' then Some Review
     else if t = js ''approve'' then Some Approve else None)"

definition format_error :: "jvalue \<Rightarrow> exn + jstring" where
  "format_error e = (case e of
      JObject kvs \<Rightarrow> (case get_prop kvs (js ''message'') of Some m \<Rightarrow> js_string m | None \<Rightarrow> js_string e)
    | _ \<Rightarrow> js_string e)"

definition format_errors :: "jvalue \<Rightarrow> exn + jstring" where
  "format_errors errors = (case errors of
      JArray (e # es) \<Rightarrow> bind_r (map_r format_error (e # es)) (\<lambda>ps. Inr (join_with (js ''; '') ps))
    | _ \<Rightarrow> Inr (js ''(no detail)''))"

text \<open>\<open>throw new PolicyLoadError(message, formatErrors(errors))\<close>.\<close>

definition load_error :: "jstring \<Rightarrow> jvalue \<Rightarrow> exn + 'a" where
  "load_error message errors = bind_r (format_errors errors) (\<lambda>d. Inl (PolicyLoadError message (Some d)))"

record load_state =
  ls_staticPolicies :: "jstring props"
  ls_annotations :: "policy_annotations props"
  ls_origin :: "jstring props"

definition quoted :: "jstring \<Rightarrow> jstring" where
  "quoted s = 34 # s @ [34]"

text \<open>The text of an annotation, which neither a missing one nor \<open>null\<close> has; and an annotation in a message.\<close>

definition written :: "jstring option option \<Rightarrow> jstring option" where
  "written a = (case a of Some (Some t) \<Rightarrow> Some t | _ \<Rightarrow> None)"

definition annotation_text :: "jstring option \<Rightarrow> jstring" where
  "annotation_text a = (case a of None \<Rightarrow> js ''null'' | Some t \<Rightarrow> t)"

lemma written_iff: "written a = Some t \<longleftrightarrow> a = Some (Some t)"
  by (auto simp: written_def split: option.splits)

text \<open>A permit carries one of the three obligations, a forbid none.\<close>

definition check_obligation :: "jstring \<Rightarrow> jstring \<Rightarrow> jstring \<Rightarrow> jstring option option \<Rightarrow> exn + unit" where
  "check_obligation file label effect obligation =
     (if effect = js ''permit''
      then (case written obligation of
          None \<Rightarrow> Inl (PolicyLoadError (file @ js '' permit '' @ quoted label @ js '' has no @sentinel_obligation'') None)
        | Some w \<Rightarrow>
            if w = []
            then Inl (PolicyLoadError (file @ js '' permit '' @ quoted label @ js '' has no @sentinel_obligation'') None)
            else if obligation_of_text w = None
            then Inl (PolicyLoadError
              (file @ js '' permit '' @ quoted label @ js '' has @sentinel_obligation('' @ quoted w
                 @ js ''), expected one of: allow, review, approve'') None)
            else Inr ())
      else (case obligation of
          None \<Rightarrow> Inr ()
        | Some w \<Rightarrow> Inl (PolicyLoadError
            (file @ js '' forbid '' @ quoted label @ js '' carries @sentinel_obligation('' @ quoted (annotation_text w)
               @ js ''); forbids take no obligation'') None)))"

text \<open>One policy of a file: the body of the inner loop.\<close>

definition load_policy ::
    "cedar_parser \<Rightarrow> jstring \<Rightarrow> nat \<Rightarrow> jstring \<Rightarrow> load_state \<Rightarrow> exn + load_state" where
  "load_policy cedar file index source st =
    (case cp_policyToJson cedar source of
      Inl errors \<Rightarrow> load_error (file @ js '' policy #'' @ dec index @ js '' does not convert to JSON'') errors
    | Inr json \<Rightarrow>
       let ann = (case pj_annotations json of None \<Rightarrow> [] | Some a \<Rightarrow> a);
           effect = pj_effect json
       in case written (get_prop ann (js ''id'')) of
         None \<Rightarrow> Inl (PolicyLoadError (file @ js '' policy #'' @ dec index @ js '' has no @id annotation'') None)
       | Some pid \<Rightarrow>
          if pid = []
          then Inl (PolicyLoadError (file @ js '' policy #'' @ dec index @ js '' has no @id annotation'') None)
          else (case get_prop (ls_origin st) pid of
            Some first \<Rightarrow>
              Inl (PolicyLoadError (js ''Duplicate @id('' @ quoted pid @ [41, 32, 0x2014] @ js '' also declared in '' @ first)
                     (Some (js ''Second occurrence in '' @ file)))
          | None \<Rightarrow>
             let obligation = get_prop ann (js ''sentinel_obligation'');
                 reason = written (get_prop ann (js ''sentinel_reason''))
             in bind_r (check_obligation file pid effect obligation)
                 (\<lambda>_. case reason of
                    None \<Rightarrow> Inl (PolicyLoadError
                      (file @ js '' policy '' @ quoted pid @ js '' has no @sentinel_reason'') None)
                  | Some r \<Rightarrow>
                      if r = [] then Inl (PolicyLoadError
                        (file @ js '' policy '' @ quoted pid @ js '' has no @sentinel_reason'') None)
                      else Inr (st\<lparr>ls_origin := put_prop pid file (ls_origin st),
                        ls_staticPolicies := js_assign pid source (ls_staticPolicies st),
                        ls_annotations := put_prop pid
                          \<lparr>pa_file = Some file,
                           pa_obligation = (if effect = js ''permit''
                             then Option.bind (written obligation) obligation_of_text else None),
                           pa_reason = r, pa_effect = effect\<rparr> (ls_annotations st)\<rparr>))))"

fun load_policies ::
    "cedar_parser \<Rightarrow> jstring \<Rightarrow> nat \<Rightarrow> jstring list \<Rightarrow> load_state \<Rightarrow> exn + load_state" where
  "load_policies cedar file index [] st = Inr st"
| "load_policies cedar file index (source # r) st =
     bind_r (load_policy cedar file index source st) (load_policies cedar file (Suc index) r)"

definition load_file ::
    "cedar_parser \<Rightarrow> (jstring \<Rightarrow> exn + jstring) \<Rightarrow> jstring \<Rightarrow> load_state \<Rightarrow> exn + load_state" where
  "load_file cedar read file st =
     bind_r (read file) (\<lambda>text. case cp_policySetTextToParts cedar text of
        Inl errors \<Rightarrow> load_error (file @ js '' does not parse as a Cedar policy set'') errors
      | Inr policies \<Rightarrow> load_policies cedar file 0 policies st)"

fun load_files ::
    "cedar_parser \<Rightarrow> (jstring \<Rightarrow> exn + jstring) \<Rightarrow> jstring list \<Rightarrow> load_state \<Rightarrow> exn + load_state" where
  "load_files cedar read [] st = Inr st"
| "load_files cedar read (f # fs) st = bind_r (load_file cedar read f st) (load_files cedar read fs)"

text \<open>
  \<open>schema\<close> is what reading the schema file gives, \<open>dir\<close> what listing the directory gives, \<open>read\<close> reads
  a file of the directory.
\<close>

definition load_bundle ::
    "cedar_parser \<Rightarrow> jstring \<Rightarrow> exn + jstring \<Rightarrow> exn + jstring list \<Rightarrow> (jstring \<Rightarrow> exn + jstring) \<Rightarrow>
     exn + policy_bundle" where
  "load_bundle cedar policyDir schema dir read =
     bind_r schema (\<lambda>schemaText.
     case cp_schemaToJson cedar schemaText of
       Inl errors \<Rightarrow> load_error (js ''Cedar schema does not convert to JSON'') errors
     | Inr schemaJson \<Rightarrow>
       bind_r dir (\<lambda>names.
       let files = sort (filter (\<lambda>name. ends_with name (js ''.cedar'')) names) in
       if length files = 0
       then Inl (PolicyLoadError (js ''No .cedar files found in '' @ policyDir) None)
       else bind_r (load_files cedar read files
                     \<lparr>ls_staticPolicies = [], ls_annotations = [], ls_origin = []\<rparr>)
         (\<lambda>st. Inr \<lparr>pb_staticPolicies = ls_staticPolicies st, pb_annotations = ls_annotations st,
                    pb_schemaJson = schemaJson, pb_policyCount = length (ls_staticPolicies st),
                    pb_fileCount = length files\<rparr>)))"

definition reload_bundle ::
    "cedar_parser \<Rightarrow> jstring \<Rightarrow> exn + jstring \<Rightarrow> exn + jstring list \<Rightarrow> (jstring \<Rightarrow> exn + jstring) \<Rightarrow>
     exn + policy_bundle" where
  "reload_bundle = load_bundle"

section \<open>Lemmas\<close>

text \<open>What every step of the loader keeps.\<close>

definition annotations_ok :: "policy_annotations \<Rightarrow> bool" where
  "annotations_ok a = (pa_reason a \<noteq> [] \<and> pa_file a \<noteq> None
     \<and> (pa_obligation a \<noteq> None \<longleftrightarrow> pa_effect a = js ''permit''))"

definition wf_load :: "load_state \<Rightarrow> bool" where
  "wf_load st = (distinct (map fst (ls_annotations st)) \<and> map fst (ls_origin st) = map fst (ls_annotations st)
     \<and> map fst (ls_staticPolicies st) = filter (\<lambda>k. k \<noteq> js ''__proto__'') (map fst (ls_annotations st))
     \<and> list_all (\<lambda>(k, a). k \<noteq> [] \<and> annotations_ok a) (ls_annotations st))"

lemma load_error_not_Inr [simp]: "load_error m e \<noteq> Inr x" "Inr x \<noteq> load_error m e"
  by (simp_all add: load_error_def bind_r_def split: sum.splits)

lemma check_obligation_Inr:
  "check_obligation file label effect ob = Inr () \<Longrightarrow> effect = js ''permit'' \<Longrightarrow>
     Option.bind (written ob) obligation_of_text \<noteq> None"
  by (auto simp: check_obligation_def result_iffs)

lemma load_policy_Inr:
  assumes "load_policy cedar file n source st = Inr st'"
  obtains pid a where "pid \<noteq> []" "get_prop (ls_origin st) pid = None" "annotations_ok a"
    "st' = st\<lparr>ls_origin := put_prop pid file (ls_origin st),
       ls_staticPolicies := js_assign pid source (ls_staticPolicies st),
       ls_annotations := put_prop pid a (ls_annotations st)\<rparr>"
proof -
  obtain json where j: "cp_policyToJson cedar source = Inr json"
    using assms by (auto simp: load_policy_def result_iffs)
  define ann where "ann = (case pj_annotations json of None \<Rightarrow> [] | Some a \<Rightarrow> a)"
  note body = assms [unfolded load_policy_def j sum.case Let_def, folded ann_def]
  obtain pid where p: "written (get_prop ann (js ''id'')) = Some pid" using body by (auto simp: result_iffs)
  note body = body [unfolded p option.case]
  then have ne: "pid \<noteq> []" "get_prop (ls_origin st) pid = None" by (auto simp: result_iffs)
  note body = body [unfolded if_not_P [OF ne(1)] ne(2) option.case]
  obtain r where r: "written (get_prop ann (js ''sentinel_reason'')) = Some r" "r \<noteq> []"
    using body by (auto simp: result_iffs)
  have c: "check_obligation file pid (pj_effect json) (get_prop ann (js ''sentinel_obligation'')) = Inr ()"
    using body by (auto simp: result_iffs)
  show thesis
    by (rule that [OF ne, of "\<lparr>pa_file = Some file,
          pa_obligation = (if pj_effect json = js ''permit''
            then Option.bind (written (get_prop ann (js ''sentinel_obligation''))) obligation_of_text else None),
          pa_reason = r, pa_effect = pj_effect json\<rparr>"])
      (use body r c check_obligation_Inr [OF c] in \<open>auto simp: annotations_ok_def\<close>)
qed

lemma wf_load_policy:
  assumes "wf_load st" "load_policy cedar file n source st = Inr st'"
  shows "wf_load st'"
proof -
  obtain pid a where r: "pid \<noteq> []" "get_prop (ls_origin st) pid = None" "annotations_ok a"
    "st' = st\<lparr>ls_origin := put_prop pid file (ls_origin st),
       ls_staticPolicies := js_assign pid source (ls_staticPolicies st),
       ls_annotations := put_prop pid a (ls_annotations st)\<rparr>"
    using assms(2) by (rule load_policy_Inr)
  have keys: "fst ` set (ls_origin st) = fst ` set (ls_annotations st)"
    "fst ` set (ls_staticPolicies st) \<subseteq> fst ` set (ls_annotations st)"
    using assms(1) by (auto simp: wf_load_def simp flip: set_map)
  have new: "pid \<notin> fst ` set (ls_annotations st)" "pid \<notin> fst ` set (ls_origin st)"
    "pid \<notin> fst ` set (ls_staticPolicies st)"
    using r(2) keys by (auto simp: map_of_eq_None_iff)
  with assms(1) r(1,3) show ?thesis
    unfolding r(4) wf_load_def
    by (simp add: put_new js_assign_def)
qed

lemma wf_load_files:
  "wf_load st \<Longrightarrow> load_policies cedar file n ps st = Inr st' \<Longrightarrow> wf_load st'"
  "wf_load st \<Longrightarrow> load_files cedar read fs st = Inr st' \<Longrightarrow> wf_load st'"
proof -
  show pols: "wf_load st \<Longrightarrow> load_policies cedar fl n ps st = Inr st' \<Longrightarrow> wf_load st'" for fl n ps st st'
    by (induction ps arbitrary: n st) (auto simp: bind_r_Inr_iff intro: wf_load_policy)
  show "wf_load st \<Longrightarrow> load_files cedar read fs st = Inr st' \<Longrightarrow> wf_load st'"
    by (induction fs arbitrary: st) (auto simp: result_iffs load_file_def intro: pols)
qed

lemma load_bundle_Inr:
  assumes "load_bundle cedar policyDir schema dir read = Inr b"
  obtains st where "wf_load st" "pb_staticPolicies b = ls_staticPolicies st"
    "pb_annotations b = ls_annotations st" "pb_policyCount b = length (ls_staticPolicies st)"
proof -
  have init: "wf_load \<lparr>ls_staticPolicies = [], ls_annotations = [], ls_origin = []\<rparr>" by (simp add: wf_load_def)
  show thesis
    using assms that wf_load_files(2) [OF init] by (force simp: load_bundle_def Let_def result_iffs)
qed

section \<open>Properties\<close>

text \<open>A parser for witnesses: a file is one permit, its text is the id.\<close>

definition sample_parser :: cedar_parser where
  "sample_parser = \<lparr>cp_schemaToJson = (\<lambda>t. Inr (JString t)), cp_policySetTextToParts = (\<lambda>t. Inr [t]),
     cp_policyToJson = (\<lambda>t. Inr \<lparr>pj_effect = js ''permit'', pj_annotations = Some
       [(js ''id'', Some t), (js ''sentinel_obligation'', Some (js ''review'')), (js ''sentinel_reason'', Some (js ''r''))]\<rparr>)\<rparr>"

lemmas sample_load_defs = sample_parser_def load_bundle_def load_file_def load_policy_def
  check_obligation_def written_def obligation_of_text_def js_assign_def ends_with_def Let_def

text \<open>
  C14: a bundle that loads is sound. Its ids are distinct, every policy has a file and a reason, exactly
  the permits carry an obligation, and the policies given to Cedar are the annotated ones, except one
  whose id is \<open>__proto__\<close>: that policy is annotated but never reaches Cedar.
\<close>

theorem loaded_bundle_sound:
  assumes "load_bundle cedar policyDir schema dir read = Inr b"
  shows "distinct (map fst (pb_annotations b))
    \<and> list_all (\<lambda>(pid, a). pid \<noteq> [] \<and> pa_reason a \<noteq> [] \<and> pa_file a \<noteq> None
         \<and> (pa_obligation a \<noteq> None \<longleftrightarrow> pa_effect a = js ''permit'')) (pb_annotations b)
    \<and> map fst (pb_staticPolicies b) = filter (\<lambda>k. k \<noteq> js ''__proto__'') (map fst (pb_annotations b))
    \<and> pb_policyCount b = length (filter (\<lambda>k. k \<noteq> js ''__proto__'') (map fst (pb_annotations b)))"
proof -
  obtain st where st: "wf_load st" "pb_staticPolicies b = ls_staticPolicies st"
    "pb_annotations b = ls_annotations st" "pb_policyCount b = length (ls_staticPolicies st)"
    using assms by (rule load_bundle_Inr)
  then have "length (ls_staticPolicies st) = length (filter (\<lambda>k. k \<noteq> js ''__proto__'') (map fst (ls_annotations st)))"
    unfolding wf_load_def by (metis length_map)
  moreover have "list_all (\<lambda>(pid, a). pid \<noteq> [] \<and> pa_reason a \<noteq> [] \<and> pa_file a \<noteq> None
      \<and> (pa_obligation a \<noteq> None \<longleftrightarrow> pa_effect a = js ''permit'')) (ls_annotations st)"
    using st(1) unfolding wf_load_def annotations_ok_def by (auto simp: list_all_iff)
  ultimately show ?thesis using st by (simp add: wf_load_def)
qed

lemma loaded_bundle_sound_witness:
  "\<exists>b. load_bundle sample_parser [] (Inr []) (Inr [js ''a.cedar'']) (\<lambda>f. Inr f) = Inr b
     \<and> pb_policyCount b = length (filter (\<lambda>k. k \<noteq> js ''__proto__'') (map fst (pb_annotations b)))"
proof -
  obtain b where b: "load_bundle sample_parser [] (Inr []) (Inr [js ''a.cedar'']) (\<lambda>f. Inr f) = Inr b"
    by (simp add: sample_load_defs js_def)
  with loaded_bundle_sound [OF b] show ?thesis by blast
qed

text \<open>
  The bundle does not depend on the order in which the operating system lists the directory, nor
  on the files in it that are not \<open>.cedar\<close> files; without any such file loading fails.
\<close>

theorem load_ignores_listing_order:
  assumes "mset (filter (\<lambda>n. ends_with n (js ''.cedar'')) names) = mset (filter (\<lambda>n. ends_with n (js ''.cedar'')) names')"
  shows "load_bundle cedar policyDir schema (Inr names) read = load_bundle cedar policyDir schema (Inr names') read
    \<and> (filter (\<lambda>n. ends_with n (js ''.cedar'')) names = [] \<longrightarrow>
        (\<forall>b. load_bundle cedar policyDir schema (Inr names) read \<noteq> Inr b))"
proof -
  have "sort (filter (\<lambda>n. ends_with n (js ''.cedar'')) names) = sort (filter (\<lambda>n. ends_with n (js ''.cedar'')) names')"
    using assms by (intro properties_for_sort) simp_all
  then have "load_bundle cedar policyDir schema (Inr names) read = load_bundle cedar policyDir schema (Inr names') read"
    unfolding load_bundle_def bind_r_simps Let_def by (simp only:)
  then show ?thesis by (auto simp: load_bundle_def Let_def result_iffs)
qed

lemma load_ignores_listing_order_witness:
  "load_bundle sample_parser [] (Inr []) (Inr [js ''b.cedar'', js ''x'', js ''a.cedar'']) Inr
   = load_bundle sample_parser [] (Inr []) (Inr [js ''a.cedar'', js ''b.cedar'']) Inr"
  using load_ignores_listing_order [of "[js ''b.cedar'', js ''x'', js ''a.cedar'']"
      "[js ''a.cedar'', js ''b.cedar'']" sample_parser "[]" "Inr []" Inr]
  by (simp add: ends_with_def js_def)

end
