(* ===== verification/Policy.thy ===== *)
theory Policy
  imports PolicyLoader
begin

text \<open>
  The policy engine of \<open>packages/policy-engine/src/engine.ts\<close> and the Cedar entities of
  \<open>entities.ts\<close>. Cedar's \<open>isAuthorized\<close> is a parameter: a function from the call to what it
  throws or answers.
\<close>

section \<open>Entities\<close>

record agent_principal =
  pr_id :: jstring
  pr_trustTier :: trust_tier
  pr_authenticated :: bool
  pr_clientName :: jstring
  pr_agentGroups :: "jstring list"

record tool_target =
  tt_qualifiedName :: jstring
  tt_toolName :: jstring
  tt_serverId :: jstring
  tt_serverTrust :: server_trust
  tt_serverScanVerdict :: jstring
  tt_toolScanVerdict :: jstring
  tt_definitionDrifted :: bool
  tt_toolGroups :: "jstring list"

text \<open>The kinds of \<open>PolicyResource\<close>: the fields of the resource and prompt kinds in the code's order.\<close>

datatype policy_resource =
    ToolTarget tool_target
  | ResourceTarget (rt_qualifiedUri: jstring) (rt_rawUri: jstring) (rt_serverId: jstring)
      (rt_serverTrust: server_trust) (rt_serverScanVerdict: jstring) (rt_scheme: jstring)
  | PromptTarget (pt_qualifiedName: jstring) (pt_promptName: jstring) (pt_serverId: jstring)
      (pt_serverTrust: server_trust) (pt_serverScanVerdict: jstring) (pt_promptScanVerdict: jstring)
  | EndpointTarget

type_synonym entity_uid = "jstring \<times> jstring"

record cedar_entity =
  ce_uid :: entity_uid
  ce_attrs :: "jvalue props"
  ce_parents :: "entity_uid list"

definition server_trust_text :: "server_trust \<Rightarrow> jstring" where
  "server_trust_text t = (case t of Trusted \<Rightarrow> js ''trusted'' | Untrusted \<Rightarrow> js ''untrusted''
     | Quarantined \<Rightarrow> js ''quarantined'')"

definition make_server :: "jstring \<Rightarrow> server_trust \<Rightarrow> jstring \<Rightarrow> cedar_entity" where
  "make_server serverId trust scanVerdict =
     \<lparr>ce_uid = (js ''Sentinel::Server'', serverId),
      ce_attrs = [(js ''serverId'', JString serverId),
                  (js ''trust'', JString (server_trust_text trust)),
                  (js ''scanVerdict'', JString scanVerdict)],
      ce_parents = []\<rparr>"

definition entity_ref :: "entity_uid \<Rightarrow> jvalue" where
  "entity_ref u = JObject [(js ''__entity'',
     JObject [(js ''type'', JString (fst u)), (js ''id'', JString (snd u))])]"

definition bare_entity :: "entity_uid \<Rightarrow> cedar_entity" where
  "bare_entity u = \<lparr>ce_uid = u, ce_attrs = [], ce_parents = []\<rparr>"

definition agent_entities :: "agent_principal \<Rightarrow> cedar_entity list" where
  "agent_entities p =
     \<lparr>ce_uid = (js ''Sentinel::Agent'', pr_id p),
      ce_attrs = [(js ''trustTier'', JString (trust_tier_text (pr_trustTier p))),
                  (js ''authenticated'', JBool (pr_authenticated p)),
                  (js ''clientName'', JString (pr_clientName p))],
      ce_parents = map (\<lambda>g. (js ''Sentinel::AgentGroup'', g)) (pr_agentGroups p)\<rparr>
     # map (\<lambda>g. bare_entity (js ''Sentinel::AgentGroup'', g)) (pr_agentGroups p)"

definition resource_entities :: "policy_resource \<Rightarrow> cedar_entity list" where
  "resource_entities r = (case r of
      ToolTarget t \<Rightarrow>
        make_server (tt_serverId t) (tt_serverTrust t) (tt_serverScanVerdict t)
        # map (\<lambda>g. bare_entity (js ''Sentinel::ToolGroup'', g)) (tt_toolGroups t)
        @ [\<lparr>ce_uid = (js ''Sentinel::Tool'', tt_qualifiedName t),
             ce_attrs = [(js ''qualifiedName'', JString (tt_qualifiedName t)),
                         (js ''toolName'', JString (tt_toolName t)),
                         (js ''server'', entity_ref (js ''Sentinel::Server'', tt_serverId t)),
                         (js ''scanVerdict'', JString (tt_toolScanVerdict t)),
                         (js ''definitionDrifted'', JBool (tt_definitionDrifted t))],
             ce_parents = map (\<lambda>g. (js ''Sentinel::ToolGroup'', g)) (tt_toolGroups t)\<rparr>]
    | ResourceTarget qualifiedUri rawUri serverId trust verdict scheme \<Rightarrow>
        [make_server serverId trust verdict,
         \<lparr>ce_uid = (js ''Sentinel::McpResource'', qualifiedUri),
          ce_attrs = [(js ''uri'', JString rawUri),
                      (js ''server'', entity_ref (js ''Sentinel::Server'', serverId)),
                      (js ''scheme'', JString scheme)],
          ce_parents = []\<rparr>]
    | PromptTarget qualifiedName promptName serverId trust verdict promptVerdict \<Rightarrow>
        [make_server serverId trust verdict,
         \<lparr>ce_uid = (js ''Sentinel::Prompt'', qualifiedName),
          ce_attrs = [(js ''qualifiedName'', JString qualifiedName),
                      (js ''server'', entity_ref (js ''Sentinel::Server'', serverId)),
                      (js ''scanVerdict'', JString promptVerdict)],
          ce_parents = []\<rparr>]
    | EndpointTarget \<Rightarrow> [bare_entity (js ''Sentinel::Endpoint'', js ''gateway'')])"

definition build_entities :: "agent_principal \<Rightarrow> policy_resource \<Rightarrow> cedar_entity list" where
  "build_entities p r = agent_entities p @ resource_entities r"

definition agent_principal_from_identity :: "agent_identity \<Rightarrow> jstring list \<Rightarrow> agent_principal" where
  "agent_principal_from_identity identity agentGroups =
     \<lparr>pr_id = ag_id identity, pr_trustTier = ag_trustTier identity,
      pr_authenticated = ag_authenticated identity,
      pr_clientName = (case ag_name identity of None \<Rightarrow> js ''unknown'' | Some n \<Rightarrow> n),
      pr_agentGroups = agentGroups\<rparr>"

text \<open>The fields of a \<open>CatalogEntry\<close> that the policy reads: names, server and scan verdict.\<close>

record catalog_target =
  ct_qualifiedName :: jstring
  ct_serverId :: jstring
  ct_toolName :: jstring
  ct_scan :: "scan_summary option"

definition scan_verdict_text :: "scan_verdict \<Rightarrow> jstring" where
  "scan_verdict_text v = (case v of Clean \<Rightarrow> js ''clean'' | Suspicious \<Rightarrow> js ''suspicious''
     | Malicious \<Rightarrow> js ''malicious'')"

definition tool_resource :: "catalog_target \<Rightarrow> jstring list props \<Rightarrow> server_trust \<Rightarrow> tool_target" where
  "tool_resource e toolGroups trust =
     (let verdict = (case ct_scan e of None \<Rightarrow> js ''clean'' | Some s \<Rightarrow> scan_verdict_text (sc_verdict s)) in
      \<lparr>tt_qualifiedName = ct_qualifiedName e, tt_toolName = ct_toolName e, tt_serverId = ct_serverId e,
       tt_serverTrust = trust, tt_serverScanVerdict = verdict, tt_toolScanVerdict = verdict,
       tt_definitionDrifted = False,
       tt_toolGroups = map fst (filter (\<lambda>(_, members). ct_qualifiedName e \<in> set members) toolGroups)\<rparr>)"

section \<open>Evaluation\<close>

datatype mcp_action =
    CallTool | ReadResource | GetPrompt | ListTools | ListResources | ListPrompts | Discover
  | ExplainDecision | QueryAuditLog | ListActivePolicies | VerifyAuditChain | ApproveRequest

definition action_name :: "mcp_action \<Rightarrow> jstring" where
  "action_name a = (case a of CallTool \<Rightarrow> js ''callTool'' | ReadResource \<Rightarrow> js ''readResource''
     | GetPrompt \<Rightarrow> js ''getPrompt'' | ListTools \<Rightarrow> js ''listTools'' | ListResources \<Rightarrow> js ''listResources''
     | ListPrompts \<Rightarrow> js ''listPrompts'' | Discover \<Rightarrow> js ''discover''
     | ExplainDecision \<Rightarrow> js ''explainDecision'' | QueryAuditLog \<Rightarrow> js ''queryAuditLog''
     | ListActivePolicies \<Rightarrow> js ''listActivePolicies'' | VerifyAuditChain \<Rightarrow> js ''verifyAuditChain''
     | ApproveRequest \<Rightarrow> js ''approveRequest'')"

record evaluation_request =
  er_principal :: agent_principal
  er_action :: mcp_action
  er_resource :: policy_resource
  er_context :: jvalue

text \<open>The argument of \<open>isAuthorized\<close> and what comes back: a throw, another type, or a response.\<close>

record authorization_call =
  ac_principal :: entity_uid
  ac_action :: entity_uid
  ac_resource :: entity_uid
  ac_context :: jvalue
  ac_staticPolicies :: "jstring props"
  ac_entities :: "cedar_entity list"
  ac_schema :: jvalue

record cedar_response =
  cr_decision :: jstring
  cr_reason :: "jstring list option"
  cr_errors :: "jvalue list option"

datatype cedar_answer = CedarThrew jstring | CedarType jstring | CedarSuccess cedar_response

definition resource_entity_uid :: "policy_resource \<Rightarrow> entity_uid" where
  "resource_entity_uid r = (case r of
      ToolTarget t \<Rightarrow> (js ''Sentinel::Tool'', tt_qualifiedName t)
    | ResourceTarget u _ _ _ _ _ \<Rightarrow> (js ''Sentinel::McpResource'', u)
    | PromptTarget n _ _ _ _ _ \<Rightarrow> (js ''Sentinel::Prompt'', n)
    | EndpointTarget \<Rightarrow> (js ''Sentinel::Endpoint'', js ''gateway''))"

definition authorization_call_of :: "policy_bundle \<Rightarrow> evaluation_request \<Rightarrow> authorization_call" where
  "authorization_call_of bundle rq =
     \<lparr>ac_principal = (js ''Sentinel::Agent'', pr_id (er_principal rq)),
      ac_action = (js ''Sentinel::Action'', action_name (er_action rq)),
      ac_resource = resource_entity_uid (er_resource rq), ac_context = er_context rq,
      ac_staticPolicies = pb_staticPolicies bundle,
      ac_entities = build_entities (er_principal rq) (er_resource rq),
      ac_schema = pb_schemaJson bundle\<rparr>"

definition deny_decision :: "jstring list \<Rightarrow> policy_decision" where
  "deny_decision errors = \<lparr>pd_permit = False, pd_obligation = Allow, pd_reasons = [],
     pd_errors = errors, pd_defaultDeny = False\<rparr>"

definition opt_list :: "'a list option \<Rightarrow> 'a list" where
  "opt_list x = (case x of None \<Rightarrow> [] | Some xs \<Rightarrow> xs)"

definition determining :: "policy_bundle \<Rightarrow> jstring list \<Rightarrow> policy_annotations list" where
  "determining bundle ids = List.map_filter (get_prop (pb_annotations bundle)) ids"

definition evaluate ::
    "policy_bundle \<Rightarrow> (authorization_call \<Rightarrow> cedar_answer) \<Rightarrow> evaluation_request \<Rightarrow> exn + policy_decision" where
  "evaluate bundle isAuthorized rq =
     (case isAuthorized (authorization_call_of bundle rq) of
        CedarThrew err \<Rightarrow> Inr (deny_decision [js ''Cedar evaluation threw: '' @ err])
      | CedarType t \<Rightarrow> Inr (deny_decision [js ''Cedar returned unexpected result type: '' @ t])
      | CedarSuccess response \<Rightarrow>
          bind_r (map_r js_string (opt_list (cr_errors response))) (\<lambda>evalErrors.
          if evalErrors \<noteq> [] then Inr (deny_decision evalErrors)
          else if cr_decision response = js ''deny''
          then let reason = opt_list (cr_reason response); defaultDeny = (length reason = 0) in
            Inr \<lparr>pd_permit = False, pd_obligation = Allow,
                 pd_reasons = (if defaultDeny
                   then [js ''No policy matched '' @ 0x2014 # js '' default deny.'']
                   else map (\<lambda>i. case get_prop (pb_annotations bundle) i of
                                None \<Rightarrow> i | Some a \<Rightarrow> pa_reason a) reason),
                 pd_errors = [], pd_defaultDeny = defaultDeny\<rparr>
          else let anns = determining bundle (opt_list (cr_reason response)) in
            Inr \<lparr>pd_permit = True,
                 pd_obligation = strongest_obligation (List.map_filter pa_obligation anns),
                 pd_reasons = filter (\<lambda>r. r \<noteq> []) (map pa_reason anns),
                 pd_errors = [], pd_defaultDeny = False\<rparr>))"

record listed_policy =
  lp_id :: jstring
  lp_file :: "jstring option"
  lp_effect :: jstring
  lp_obligation :: "obligation option"
  lp_reason :: jstring

definition list_policies :: "policy_bundle \<Rightarrow> jstring option \<Rightarrow> listed_policy list" where
  "list_policies bundle fileFilter =
     map (\<lambda>(i, a). \<lparr>lp_id = i, lp_file = pa_file a, lp_effect = pa_effect a,
                     lp_obligation = pa_obligation a, lp_reason = pa_reason a\<rparr>)
       (filter (\<lambda>(_, a). case fileFilter of None \<Rightarrow> True | Some f \<Rightarrow> pa_file a = Some f)
          (pb_annotations bundle))"

section \<open>Lemmas\<close>

lemma strongest_ge: "w \<in> set ws \<Longrightarrow> w \<le> strongest_obligation ws"
  unfolding strongest_winner less_eq_obligation_def by (rule ob.winner_ge)

lemma strongest_member: "strongest_obligation ws \<in> insert Allow (set ws)"
  unfolding strongest_winner by (rule ob.winner_member)

lemma Allow_least: "Allow \<le> w"
  by (simp add: less_eq_obligation_def obligation_rank_def)

lemma strongest_Max: "strongest_obligation ws = Max (insert Allow (set ws))"
  using strongest_ge [of _ ws] strongest_member [of ws] Allow_least
  by (intro Max_eqI [symmetric]) auto

lemma deny_not_permit [simp]: "\<not> pd_permit (deny_decision es)"
  by (simp add: deny_decision_def)

lemma map_filter_set: "set (List.map_filter f xs) = {y. \<exists>x \<in> set xs. f x = Some y}"
  by (induction xs) (auto simp: List.map_filter_simps split: option.splits)

lemma evaluate_permit:
  assumes "evaluate bundle auth rq = Inr d" "pd_permit d"
  obtains resp where "auth (authorization_call_of bundle rq) = CedarSuccess resp"
    "opt_list (cr_errors resp) = []" "cr_decision resp \<noteq> js ''deny''"
    "d = \<lparr>pd_permit = True,
          pd_obligation = strongest_obligation (List.map_filter pa_obligation (determining bundle (opt_list (cr_reason resp)))),
          pd_reasons = filter (\<lambda>r. r \<noteq> []) (map pa_reason (determining bundle (opt_list (cr_reason resp)))),
          pd_errors = [], pd_defaultDeny = False\<rparr>"
proof (cases "auth (authorization_call_of bundle rq)")
  case (CedarSuccess resp)
  then obtain es where es: "map_r js_string (opt_list (cr_errors resp)) = Inr es"
    using assms(1) by (auto simp: evaluate_def result_iffs)
  have "es = []" using assms CedarSuccess es by (auto simp: evaluate_def split: if_splits)
  then have "opt_list (cr_errors resp) = []" using es by (simp add: map_r_Inr_iff)
  with assms CedarSuccess that show thesis
    by (auto simp: evaluate_def Let_def split: if_splits)
qed (use assms in \<open>auto simp: evaluate_def\<close>)

section \<open>Properties\<close>

text \<open>
  C12: the engine fails closed. A request is permitted exactly when Cedar returned normally, with a
  success, without a single evaluation error and with a decision other than deny.
\<close>

theorem permit_iff_clean_success:
  "(\<exists>d. evaluate bundle auth rq = Inr d \<and> pd_permit d) \<longleftrightarrow>
   (\<exists>resp. auth (authorization_call_of bundle rq) = CedarSuccess resp
      \<and> opt_list (cr_errors resp) = [] \<and> cr_decision resp \<noteq> js ''deny'')"
proof
  assume "\<exists>d. evaluate bundle auth rq = Inr d \<and> pd_permit d"
  then show "\<exists>resp. auth (authorization_call_of bundle rq) = CedarSuccess resp
      \<and> opt_list (cr_errors resp) = [] \<and> cr_decision resp \<noteq> js ''deny''"
    by (blast elim: evaluate_permit)
qed (auto simp: evaluate_def Let_def)

text \<open>
  C13: the strongest obligation wins. Under a bundle that loaded, a permit carries the strongest
  obligation of the determining policies, at least that of each of them (every determining permit
  has one), and the reasons of exactly these policies in Cedar's order.
\<close>

theorem permit_obligation_is_strongest:
  assumes "load_bundle cedar policyDir schema dir read = Inr bundle"
    and "evaluate bundle auth rq = Inr d" "pd_permit d"
    and "auth (authorization_call_of bundle rq) = CedarSuccess resp"
  shows "pd_obligation d = Max (insert Allow (set (List.map_filter pa_obligation
       (determining bundle (opt_list (cr_reason resp))))))
    \<and> (\<forall>i \<in> set (opt_list (cr_reason resp)). \<forall>a. get_prop (pb_annotations bundle) i = Some a \<longrightarrow>
         pa_effect a = js ''permit'' \<longrightarrow> (\<exists>w. pa_obligation a = Some w \<and> w \<le> pd_obligation d))
    \<and> pd_reasons d = map pa_reason (determining bundle (opt_list (cr_reason resp)))"
proof -
  obtain st where st: "wf_load st" "pb_annotations bundle = ls_annotations st"
    using assms(1) by (rule load_bundle_Inr)
  then have ok: "annotations_ok a" if "get_prop (pb_annotations bundle) i = Some a" for i a
    using that by (auto simp: wf_load_def list_all_iff dest!: map_of_SomeD)
  let ?anns = "determining bundle (opt_list (cr_reason resp))"
  have d: "pd_obligation d = strongest_obligation (List.map_filter pa_obligation ?anns)"
    "pd_reasons d = filter (\<lambda>r. r \<noteq> []) (map pa_reason ?anns)"
    by (rule evaluate_permit [OF assms(2,3)]; simp add: assms(4))+
  have reasons: "\<forall>a \<in> set ?anns. pa_reason a \<noteq> []"
    using ok by (auto simp: determining_def map_filter_set annotations_ok_def)
  have "\<exists>w. pa_obligation a = Some w \<and> w \<le> pd_obligation d"
    if i: "i \<in> set (opt_list (cr_reason resp))" "get_prop (pb_annotations bundle) i = Some a"
      "pa_effect a = js ''permit''" for i a
  proof -
    obtain w where w: "pa_obligation a = Some w" using ok [OF i(2)] i(3) by (auto simp: annotations_ok_def)
    then have "w \<in> set (List.map_filter pa_obligation ?anns)"
      using i(1,2) by (auto simp: determining_def map_filter_set)
    from strongest_ge [OF this] w d(1) show ?thesis by simp
  qed
  moreover have "pd_reasons d = map pa_reason ?anns" using d(2) reasons by (simp add: filter_id_conv)
  ultimately show ?thesis unfolding d(1) strongest_Max by auto
qed

definition sample_principal :: agent_principal where
  "sample_principal = \<lparr>pr_id = js ''a'', pr_trustTier = TierStandard, pr_authenticated = False,
     pr_clientName = js ''c'', pr_agentGroups = [js ''g'']\<rparr>"

definition sample_request :: evaluation_request where
  "sample_request = \<lparr>er_principal = sample_principal, er_action = Discover, er_resource = EndpointTarget,
     er_context = JObject []\<rparr>"

definition sample_response :: cedar_response where
  "sample_response = \<lparr>cr_decision = js ''allow'', cr_reason = Some [js ''a.cedar''], cr_errors = None\<rparr>"

lemma permit_obligation_is_strongest_witness:
  "\<exists>b d. load_bundle sample_parser [] (Inr []) (Inr [js ''a.cedar'']) Inr = Inr b
     \<and> evaluate b (\<lambda>_. CedarSuccess sample_response) sample_request = Inr d \<and> Review \<le> pd_obligation d"
proof -
  obtain b where b: "load_bundle sample_parser [] (Inr []) (Inr [js ''a.cedar'']) Inr = Inr b"
    and ann: "pb_annotations b = [(js ''a.cedar'', \<lparr>pa_file = Some (js ''a.cedar''), pa_obligation = Some Review,
      pa_reason = js ''r'', pa_effect = js ''permit''\<rparr>)]"
    by (simp add: sample_load_defs js_def)
  obtain d where d: "evaluate b (\<lambda>_. CedarSuccess sample_response) sample_request = Inr d" "pd_permit d"
    by (simp add: evaluate_def sample_response_def opt_list_def js_def Let_def)
  from permit_obligation_is_strongest [OF b d refl] ann b d(1) show ?thesis
    by (fastforce simp: sample_response_def opt_list_def js_def)
qed

text \<open>
  C38: the entities given to Cedar are closed: the principal and the resource of the call are among
  them, and so is every parent and every referenced server.
\<close>

theorem entities_closed:
  "(js ''Sentinel::Agent'', pr_id p) \<in> ce_uid ` set (build_entities p r)
   \<and> resource_entity_uid r \<in> ce_uid ` set (build_entities p r)
   \<and> set (concat (map ce_parents (build_entities p r))) \<subseteq> ce_uid ` set (build_entities p r)
   \<and> {v. \<exists>e \<in> set (build_entities p r). get_prop (ce_attrs e) (js ''server'') = Some v}
       \<subseteq> entity_ref ` ce_uid ` set (build_entities p r)"
proof -
  have agent: "(js ''Sentinel::Agent'', pr_id p) \<in> ce_uid ` set (agent_entities p)"
    "set (concat (map ce_parents (agent_entities p))) \<subseteq> ce_uid ` set (agent_entities p)"
    "{v. \<exists>e \<in> set (agent_entities p). get_prop (ce_attrs e) (js ''server'') = Some v} = {}"
    by (auto simp: agent_entities_def bare_entity_def image_iff)
  have resource: "resource_entity_uid r \<in> ce_uid ` set (resource_entities r)"
    "set (concat (map ce_parents (resource_entities r))) \<subseteq> ce_uid ` set (resource_entities r)"
    by (cases r; force simp: resource_entities_def resource_entity_uid_def bare_entity_def make_server_def)+
  have server: "{v. \<exists>e \<in> set (resource_entities r). get_prop (ce_attrs e) (js ''server'') = Some v}
      \<subseteq> entity_ref ` ce_uid ` set (resource_entities r)"
    by (cases r; clarsimp simp: resource_entities_def bare_entity_def make_server_def; force)
  show ?thesis
    using agent resource server unfolding build_entities_def set_append map_append concat_append image_Un by auto
qed

text \<open>
  Any evaluation error denies, and the text of the errors is lost: Cedar reports objects, and
  each of them turns into the same fixed string.
\<close>

theorem evaluation_errors_deny:
  assumes "auth (authorization_call_of bundle rq) = CedarSuccess resp" "cr_errors resp = Some (e # es)"
    and "list_all (\<lambda>x. \<exists>kvs. x = JObject kvs \<and> get_prop kvs (js ''toString'') = None) (e # es)"
  shows "evaluate bundle auth rq
    = Inr (deny_decision (replicate (Suc (length es)) (js ''[object Object]'')))"
proof -
  have "map_r js_string xs = Inr (replicate (length xs) (js ''[object Object]''))"
    if "list_all (\<lambda>x. \<exists>kvs. x = JObject kvs \<and> get_prop kvs (js ''toString'') = None) xs" for xs
    using that by (induction xs) auto
  from this [OF assms(3)] assms(1,2) show ?thesis by (simp add: evaluate_def opt_list_def)
qed

lemma evaluation_errors_deny_witness:
  "evaluate \<lparr>pb_staticPolicies = [], pb_annotations = [], pb_schemaJson = JNull, pb_policyCount = 0, pb_fileCount = 0\<rparr>
     (\<lambda>_. CedarSuccess (sample_response\<lparr>cr_errors := Some [JObject []]\<rparr>)) sample_request
   = Inr (deny_decision [js ''[object Object]''])"
  using evaluation_errors_deny [of "\<lambda>_. CedarSuccess (sample_response\<lparr>cr_errors := Some [JObject []]\<rparr>)"
      _ sample_request "sample_response\<lparr>cr_errors := Some [JObject []]\<rparr>" "JObject []" "[]"]
  by simp

end
