(* ===== verification/Catalog.thy ===== *)
theory Catalog
  imports Upstream Naming Policy
begin

text \<open>
  The tool catalog, \<open>apps/gateway/src/catalog/catalog.ts\<close>: which tools exist, which upstream owns
  each, and whether a definition is still the one first seen. SHA-256 and the scanner are parameters;
  what an upstream lists is an input. Logging is left out.
\<close>

section \<open>Entries and state\<close>

text \<open>A listed tool is the object the SDK validated: its \<open>name\<close> is a string.\<close>

type_synonym listed_tool = "jvalue props"

definition tool_name_of :: "listed_tool \<Rightarrow> jstring" where
  "tool_name_of t = (case as_string (get_prop t (js ''name'')) of Some n \<Rightarrow> n | None \<Rightarrow> [])"

record catalog_entry = catalog_target +
  en_definition :: listed_tool
  en_definitionDigest :: jstring

datatype drop_reason = InvalidName | NotAllowed | Oversized | Unhashable | ServerCap | DuplicateName

record drift_event =
  de_qualifiedName :: jstring
  de_serverId :: jstring
  de_toolName :: jstring
  de_previousDigest :: jstring
  de_currentDigest :: jstring
  de_action :: drift_action

record refresh_outcome =
  ro_serverId :: jstring
  ro_ok :: bool
  ro_listed :: nat
  ro_catalogued :: nat
  ro_withheld :: nat
  ro_dropped :: "drop_reason \<Rightarrow> nat"
  ro_reason :: "jstring option"

record server_state =
  st_entries :: "catalog_entry props"
  st_baseline :: "jstring props"

definition zero_drops :: "drop_reason \<Rightarrow> nat" where
  "zero_drops = (\<lambda>_. 0)"

definition listing_failure_reason :: "exn \<Rightarrow> jstring" where
  "listing_failure_reason cause = (case cause of
      SentinelError e \<Rightarrow>
        (case (if se_name e = js ''UpstreamUnavailableError'' then se_data e else None) of
           Some d \<Rightarrow> (case get_prop d (js ''reason'') of Some (JString r) \<Rightarrow> r | _ \<Rightarrow> js ''tool listing failed'')
         | None \<Rightarrow> js ''tool listing failed'')
    | _ \<Rightarrow> js ''tool listing failed'')"

section \<open>One tool of a listing\<close>

type_synonym tool_scanner = "listed_tool \<Rightarrow> exn + scan_summary"

definition measure_tool :: "hash_fun \<Rightarrow> catalog_settings \<Rightarrow> listed_tool \<Rightarrow> drop_reason + jstring" where
  "measure_tool sha cfg tool = (case canonicalize (JObject tool) of
      Inl _ \<Rightarrow> Inl Unhashable
    | Inr canonical \<Rightarrow>
        if byte_length canonical > cg_maxDefinitionBytes cfg then Inl Oversized
        else Inr (sha256_hex sha canonical))"

record refresh_acc =
  rf_next :: "catalog_entry props"
  rf_baseline :: "jstring props"
  rf_dropped :: "drop_reason \<Rightarrow> nat"
  rf_withheld :: nat
  rf_drift :: "drift_event list"

definition count_drop :: "drop_reason \<Rightarrow> refresh_acc \<Rightarrow> refresh_acc" where
  "count_drop r a = a\<lparr>rf_dropped := (rf_dropped a)(r := Suc (rf_dropped a r))\<rparr>"

text \<open>
  An accepted tool: scanned if there is a scanner, and recorded. An exception of the scanner leaves
  the accumulator as it was.
\<close>

definition accept_tool ::
    "tool_scanner option \<Rightarrow> jstring \<Rightarrow> jstring \<Rightarrow> jstring \<Rightarrow> jstring \<Rightarrow> listed_tool \<Rightarrow> refresh_acc
      \<Rightarrow> exn option \<times> refresh_acc" where
  "accept_tool scanner serverId toolName qualifiedName digest tool a =
     (case (case scanner of None \<Rightarrow> Inr None | Some scan \<Rightarrow> bind_r (scan tool) (\<lambda>s. Inr (Some s))) of
        Inl e \<Rightarrow> (Some e, a)
      | Inr scanned \<Rightarrow> (None, a\<lparr>rf_baseline := put_prop toolName digest (rf_baseline a),
          rf_next := put_prop toolName \<lparr>ct_qualifiedName = qualifiedName, ct_serverId = serverId,
            ct_toolName = toolName, ct_scan = scanned, en_definition = tool,
            en_definitionDigest = digest\<rparr> (rf_next a)\<rparr>))"

definition catalog_tool ::
    "hash_fun \<Rightarrow> catalog_settings \<Rightarrow> tool_scanner option \<Rightarrow> server_settings \<Rightarrow> listed_tool \<Rightarrow> refresh_acc
      \<Rightarrow> exn option \<times> refresh_acc" where
  "catalog_tool sha cfg scanner sv tool a =
     (let toolName = tool_name_of tool; serverId = us_id sv in
      if \<not> is_valid_tool_name toolName then (None, count_drop InvalidName a)
      else if (case us_allowTools sv of None \<Rightarrow> False | Some allowed \<Rightarrow> toolName \<notin> set allowed)
      then (None, count_drop NotAllowed a)
      else if get_prop (rf_next a) toolName \<noteq> None then (None, count_drop DuplicateName a)
      else if length (rf_next a) \<ge> cg_maxToolsPerServer cfg then (None, count_drop ServerCap a)
      else case measure_tool sha cfg tool of
        Inl r \<Rightarrow> (None, count_drop r a)
      | Inr digest \<Rightarrow>
          (case qualify_tool_name serverId toolName of
             Inl e \<Rightarrow> (Some e, a)
           | Inr qualifiedName \<Rightarrow>
               (case get_prop (rf_baseline a) toolName of
                  None \<Rightarrow> accept_tool scanner serverId toolName qualifiedName digest tool a
                | Some priorDigest \<Rightarrow>
                    if priorDigest \<noteq> digest
                    then let act = cg_onDefinitionDrift cfg;
                             a' = a\<lparr>rf_drift := rf_drift a @ [\<lparr>de_qualifiedName = qualifiedName,
                               de_serverId = serverId, de_toolName = toolName,
                               de_previousDigest = priorDigest, de_currentDigest = digest,
                               de_action = act\<rparr>]\<rparr>
                         in if act = DriftWithhold then (None, a'\<lparr>rf_withheld := Suc (rf_withheld a')\<rparr>)
                            else accept_tool scanner serverId toolName qualifiedName digest tool a'
                    else accept_tool scanner serverId toolName qualifiedName digest tool a)))"

fun catalog_tools ::
    "hash_fun \<Rightarrow> catalog_settings \<Rightarrow> tool_scanner option \<Rightarrow> server_settings \<Rightarrow> listed_tool list \<Rightarrow> refresh_acc
      \<Rightarrow> exn option \<times> refresh_acc" where
  "catalog_tools sha cfg scanner sv [] a = (None, a)"
| "catalog_tools sha cfg scanner sv (tool # r) a =
     (case catalog_tool sha cfg scanner sv tool a of
        (Some e, a') \<Rightarrow> (Some e, a')
      | (None, a') \<Rightarrow> catalog_tools sha cfg scanner sv r a')"

section \<open>One server\<close>

text \<open>
  \<open>refreshServer\<close> once the listing settled. The baseline is the server's own map, so what was accepted
  before an exception stays in it; the entries are replaced only at the end.
\<close>

definition refresh_server ::
    "hash_fun \<Rightarrow> catalog_settings \<Rightarrow> tool_scanner option \<Rightarrow> server_settings \<Rightarrow> exn + listed_tool list
      \<Rightarrow> server_state \<Rightarrow> (exn + refresh_outcome \<times> drift_event list) \<times> server_state" where
  "refresh_server sha cfg scanner sv listing st = (case listing of
      Inl cause \<Rightarrow>
        (Inr (\<lparr>ro_serverId = us_id sv, ro_ok = False, ro_listed = 0,
               ro_catalogued = length (st_entries st), ro_withheld = 0, ro_dropped = zero_drops,
               ro_reason = Some (listing_failure_reason cause)\<rparr>, []), st)
    | Inr listed \<Rightarrow>
        (case catalog_tools sha cfg scanner sv listed \<lparr>rf_next = [], rf_baseline = st_baseline st,
                rf_dropped = zero_drops, rf_withheld = 0, rf_drift = []\<rparr> of
           (Some e, a) \<Rightarrow> (Inl e, st\<lparr>st_baseline := rf_baseline a\<rparr>)
         | (None, a) \<Rightarrow>
             (Inr (\<lparr>ro_serverId = us_id sv, ro_ok = True, ro_listed = length listed,
                    ro_catalogued = length (rf_next a), ro_withheld = rf_withheld a,
                    ro_dropped = rf_dropped a, ro_reason = None\<rparr>, rf_drift a),
              \<lparr>st_entries = rf_next a, st_baseline = rf_baseline a\<rparr>)))"

section \<open>The catalog\<close>

record tool_catalog =
  cat_servers :: "server_state props"
  cat_index :: "catalog_entry props"

definition empty_catalog :: tool_catalog where
  "empty_catalog = \<lparr>cat_servers = [], cat_index = []\<rparr>"

definition catalog_all :: "tool_catalog \<Rightarrow> catalog_entry list" where
  "catalog_all c = map snd (cat_index c)"

definition catalog_advertised :: "tool_catalog \<Rightarrow> listed_tool list" where
  "catalog_advertised c = map (\<lambda>e. put_prop (js ''name'') (JString (ct_qualifiedName e)) (en_definition e)) (catalog_all c)"

definition catalog_get :: "tool_catalog \<Rightarrow> jstring \<Rightarrow> catalog_entry option" where
  "catalog_get c q = get_prop (cat_index c) q"

definition catalog_has :: "tool_catalog \<Rightarrow> jstring \<Rightarrow> bool" where
  "catalog_has c q = (get_prop (cat_index c) q \<noteq> None)"

definition catalog_size :: "tool_catalog \<Rightarrow> nat" where
  "catalog_size c = length (cat_index c)"

definition for_server :: "tool_catalog \<Rightarrow> jstring \<Rightarrow> catalog_entry list" where
  "for_server c i = (case get_prop (cat_servers c) i of None \<Rightarrow> [] | Some st \<Rightarrow> map snd (st_entries st))"

definition state_for :: "jstring \<Rightarrow> server_state props \<Rightarrow> server_state props" where
  "state_for i m = (case get_prop m i of Some _ \<Rightarrow> m | None \<Rightarrow> put_prop i \<lparr>st_entries = [], st_baseline = []\<rparr> m)"

fun index_entries :: "nat \<Rightarrow> catalog_entry list \<Rightarrow> catalog_entry props \<Rightarrow> catalog_entry props" where
  "index_entries cap [] index = index"
| "index_entries cap (e # r) index =
     (if length index \<ge> cap then index_entries cap r index
      else index_entries cap r (put_prop (ct_qualifiedName e) e index))"

fun rebuild_index ::
    "nat \<Rightarrow> server_settings list \<Rightarrow> server_state props \<Rightarrow> catalog_entry props \<Rightarrow> catalog_entry props" where
  "rebuild_index cap [] servers index = index"
| "rebuild_index cap (sv # r) servers index =
     (case get_prop servers (us_id sv) of
        None \<Rightarrow> rebuild_index cap r servers index
      | Some st \<Rightarrow> rebuild_index cap r servers (index_entries cap (map snd (st_entries st)) index))"

text \<open>
  The servers answer in the order \<open>arrivals\<close>; each then works on its own state only. The first
  exception is what \<open>Promise.all\<close> rejects with, while the others still run to their end.
\<close>

fun refresh_arrivals ::
    "hash_fun \<Rightarrow> catalog_settings \<Rightarrow> tool_scanner option \<Rightarrow> (jstring \<Rightarrow> exn + listed_tool list)
      \<Rightarrow> server_settings list \<Rightarrow> server_state props
      \<Rightarrow> (jstring \<times> (exn + refresh_outcome \<times> drift_event list)) list \<times> server_state props" where
  "refresh_arrivals sha cfg scanner listing [] m = ([], m)"
| "refresh_arrivals sha cfg scanner listing (sv # r) m =
     (case get_prop m (us_id sv) of
        None \<Rightarrow> refresh_arrivals sha cfg scanner listing r m
      | Some st \<Rightarrow>
          let (out, st') = refresh_server sha cfg scanner sv (listing (us_id sv)) st;
              (outs, m') = refresh_arrivals sha cfg scanner listing r (put_prop (us_id sv) st' m)
          in ((us_id sv, out) # outs, m'))"

record refresh_result =
  rr_outcomes :: "refresh_outcome list"
  rr_drift :: "drift_event list"
  rr_entries :: "catalog_entry list"
  rr_totalTools :: nat

fun first_error :: "('k \<times> ('e + 'a)) list \<Rightarrow> 'e option" where
  "first_error [] = None"
| "first_error ((_, Inl e) # _) = Some e"
| "first_error ((_, Inr _) # r) = first_error r"

definition ok_values :: "('k \<times> ('e + 'a)) list \<Rightarrow> ('k \<times> 'a) list" where
  "ok_values xs = concat (map (\<lambda>(k, r). case r of Inl _ \<Rightarrow> [] | Inr v \<Rightarrow> [(k, v)]) xs)"

definition refresh_once ::
    "hash_fun \<Rightarrow> catalog_settings \<Rightarrow> tool_scanner option \<Rightarrow> server_settings list \<Rightarrow> server_settings list
      \<Rightarrow> (jstring \<Rightarrow> exn + listed_tool list) \<Rightarrow> tool_catalog \<Rightarrow> (exn + refresh_result) \<times> tool_catalog" where
  "refresh_once sha cfg scanner targets arrivals listing c =
     (let created = fold (\<lambda>sv. state_for (us_id sv)) targets (cat_servers c);
          (outs, servers) = refresh_arrivals sha cfg scanner listing arrivals created
      in case first_error outs of
           Some e \<Rightarrow> (Inl e, c\<lparr>cat_servers := servers\<rparr>)
         | None \<Rightarrow>
             let live = set (map us_id targets);
                 kept = filter (\<lambda>(i, _). i \<in> live) servers;
                 index = rebuild_index (cg_maxTools cfg) targets kept [];
                 c' = \<lparr>cat_servers = kept, cat_index = index\<rparr>;
                 oks = ok_values outs
             in (Inr \<lparr>rr_outcomes = concat (map (\<lambda>sv. map (fst \<circ> snd) (filter (\<lambda>(i, _). i = us_id sv) oks)) targets),
                      rr_drift = concat (map (snd \<circ> snd) oks), rr_entries = catalog_all c',
                      rr_totalTools = length index\<rparr>, c'))"

text \<open>\<open>refresh\<close> of a gateway: the targets are the registry's dialable clients, in configuration order.\<close>

definition catalog_refresh ::
    "hash_fun \<Rightarrow> catalog_settings \<Rightarrow> tool_scanner option \<Rightarrow> upstream_registry \<Rightarrow> server_settings list
      \<Rightarrow> (jstring \<Rightarrow> exn + listed_tool list) \<Rightarrow> tool_catalog \<Rightarrow> (exn + refresh_result) \<times> tool_catalog" where
  "catalog_refresh sha cfg scanner registry arrivals listing c =
     refresh_once sha cfg scanner (map uc_server (registry_dialable registry)) arrivals listing c"

section \<open>What every operation keeps\<close>

definition entry_ok :: "hash_fun \<Rightarrow> catalog_settings \<Rightarrow> server_settings \<Rightarrow> jstring \<times> catalog_entry \<Rightarrow> bool" where
  "entry_ok sha cfg sv = (\<lambda>(t, e). ct_toolName e = t \<and> ct_serverId e = us_id sv
     \<and> tool_name_of (en_definition e) = t
     \<and> qualify_tool_name (us_id sv) t = Inr (ct_qualifiedName e)
     \<and> (case us_allowTools sv of None \<Rightarrow> True | Some allowed \<Rightarrow> t \<in> set allowed)
     \<and> measure_tool sha cfg (en_definition e) = Inr (en_definitionDigest e))"

definition entries_ok :: "hash_fun \<Rightarrow> catalog_settings \<Rightarrow> server_settings \<Rightarrow> catalog_entry props \<Rightarrow> bool" where
  "entries_ok sha cfg sv es = (distinct (map fst es) \<and> length es \<le> cg_maxToolsPerServer cfg
     \<and> list_all (entry_ok sha cfg sv) es)"

definition pinned :: "catalog_settings \<Rightarrow> catalog_entry props \<Rightarrow> jstring props \<Rightarrow> bool" where
  "pinned cfg es base = (cg_onDefinitionDrift cfg = DriftWithhold \<longrightarrow>
     list_all (\<lambda>(t, e). get_prop base t = Some (en_definitionDigest e)) es)"

definition server_ok :: "hash_fun \<Rightarrow> catalog_settings \<Rightarrow> server_settings \<Rightarrow> server_state \<Rightarrow> bool" where
  "server_ok sha cfg sv st = (entries_ok sha cfg sv (st_entries st) \<and> pinned cfg (st_entries st) (st_baseline st))"

text \<open>The two ways a tool leaves the accumulator: nothing recorded, or one entry added at the end.\<close>

lemma accept_cases:
  assumes "accept_tool scanner i t q d tool a = (x, a')" "get_prop (rf_next a) t = None"
  obtains (rejected) e where "x = Some e" "a' = a"
  | (accepted) s where "x = None" "rf_baseline a' = put_prop t d (rf_baseline a)"
      "rf_next a' = rf_next a @ [(t, \<lparr>ct_qualifiedName = q, ct_serverId = i, ct_toolName = t, ct_scan = s,
         en_definition = tool, en_definitionDigest = d\<rparr>)]"
proof -
  from assms(2) have "t \<notin> fst ` set (rf_next a)" by (simp add: map_of_eq_None_iff)
  with assms(1) that show thesis
    by (auto simp: accept_tool_def put_new split: sum.splits option.splits)
qed

lemma catalog_tool_cases:
  assumes run: "catalog_tool sha cfg scanner sv tool a = (x, a')"
  obtains (unchanged) "rf_next a' = rf_next a" "rf_baseline a' = rf_baseline a"
  | (added) e where "rf_next a' = rf_next a @ [(tool_name_of tool, e)]"
      "rf_baseline a' = put_prop (tool_name_of tool) (en_definitionDigest e) (rf_baseline a)"
      "entry_ok sha cfg sv (tool_name_of tool, e)" "get_prop (rf_next a) (tool_name_of tool) = None"
      "length (rf_next a) < cg_maxToolsPerServer cfg"
      "cg_onDefinitionDrift cfg = DriftWithhold \<Longrightarrow>
         get_prop (rf_baseline a) (tool_name_of tool) \<in> {None, Some (en_definitionDigest e)}"
proof -
  let ?t = "tool_name_of tool"
  show thesis
  proof (cases "rf_next a' = rf_next a \<and> rf_baseline a' = rf_baseline a")
    case False
    from run False have fresh: "get_prop (rf_next a) ?t = None" "length (rf_next a) < cg_maxToolsPerServer cfg"
      and allow: "case us_allowTools sv of None \<Rightarrow> True | Some allowed \<Rightarrow> ?t \<in> set allowed"
      by (auto simp: catalog_tool_def count_drop_def Let_def split: if_splits option.splits)
    from run False fresh allow obtain d q b where d: "measure_tool sha cfg tool = Inr d"
      and q: "qualify_tool_name (us_id sv) ?t = Inr q"
      and acc: "accept_tool scanner (us_id sv) ?t q d tool b = (x, a')"
      and b: "rf_next b = rf_next a" "rf_baseline b = rf_baseline a"
      and prior: "cg_onDefinitionDrift cfg = DriftWithhold \<Longrightarrow> get_prop (rf_baseline a) ?t \<in> {None, Some d}"
      unfolding catalog_tool_def Let_def
      by (auto simp: count_drop_def split: if_splits option.splits sum.splits)
    have "get_prop (rf_next b) ?t = None" using fresh(1) b by simp
    with acc show thesis
    proof (cases rule: accept_cases)
      case (rejected e)
      with False b show ?thesis by simp
    next
      case (accepted s)
      from accepted b show ?thesis
        by (intro added [OF _ _ _ fresh]) (use d q allow prior in \<open>auto simp: entry_ok_def\<close>)
    qed
  qed (use unchanged in blast)
qed

text \<open>Pinning over a listing: in withholding mode the baseline only grows.\<close>

definition acc_ok :: "hash_fun \<Rightarrow> catalog_settings \<Rightarrow> server_settings \<Rightarrow> refresh_acc \<Rightarrow> bool" where
  "acc_ok sha cfg sv a = (entries_ok sha cfg sv (rf_next a) \<and> pinned cfg (rf_next a) (rf_baseline a))"

definition extends :: "catalog_settings \<Rightarrow> jstring props \<Rightarrow> jstring props \<Rightarrow> bool" where
  "extends cfg b b' = (cg_onDefinitionDrift cfg = DriftWithhold \<longrightarrow> map_of b \<subseteq>\<^sub>m map_of b')"

lemma extends_refl [simp]: "extends cfg b b"
  by (simp add: extends_def)

lemma extends_trans: "extends cfg a b \<Longrightarrow> extends cfg b c \<Longrightarrow> extends cfg a c"
  by (auto simp: extends_def intro: map_le_trans)

lemma extends_put:
  "(cg_onDefinitionDrift cfg = DriftWithhold \<Longrightarrow> get_prop b t \<in> {None, Some d}) \<Longrightarrow> extends cfg b (put_prop t d b)"
  by (auto simp: extends_def map_le_def update_conv' dom_def)

lemma pinned_extends: "pinned cfg es b \<Longrightarrow> extends cfg b b' \<Longrightarrow> pinned cfg es b'"
  by (auto simp: pinned_def extends_def list_all_iff map_le_def dom_def)

lemma acc_ok_tool:
  assumes "acc_ok sha cfg sv a" "catalog_tool sha cfg scanner sv tool a = (x, a')"
  shows "acc_ok sha cfg sv a' \<and> extends cfg (rf_baseline a) (rf_baseline a')"
  using assms(2)
proof (cases rule: catalog_tool_cases)
  case unchanged
  with assms(1) show ?thesis by (simp add: acc_ok_def)
next
  case (added e)
  have ext: "extends cfg (rf_baseline a) (rf_baseline a')"
    unfolding added(2) by (rule extends_put) (rule added(6))
  with assms(1) have "pinned cfg (rf_next a) (rf_baseline a')"
    by (auto simp: acc_ok_def intro: pinned_extends)
  then have "pinned cfg (rf_next a') (rf_baseline a')" by (simp add: pinned_def added)
  moreover have "tool_name_of tool \<notin> fst ` set (rf_next a)" using added(4) by (simp add: map_of_eq_None_iff)
  then have "entries_ok sha cfg sv (rf_next a')"
    using assms(1) added(3,5) by (simp add: acc_ok_def entries_ok_def added(1))
  ultimately show ?thesis using ext by (simp add: acc_ok_def)
qed

lemma acc_ok_tools:
  "acc_ok sha cfg sv a \<Longrightarrow> catalog_tools sha cfg scanner sv tools a = (x, a') \<Longrightarrow>
    acc_ok sha cfg sv a' \<and> extends cfg (rf_baseline a) (rf_baseline a')"
proof (induction tools arbitrary: a)
  case (Cons tool r)
  obtain y b where b: "catalog_tool sha cfg scanner sv tool a = (y, b)" by fastforce
  note acc_ok_tool [OF Cons.prems(1) b]
  with Cons.prems(2) Cons.IH [of b] b show ?case by (auto split: option.splits intro: extends_trans)
qed simp

lemma server_ok_refresh:
  assumes "server_ok sha cfg sv st" "refresh_server sha cfg scanner sv listing st = (out, st')"
  shows "server_ok sha cfg sv st' \<and> extends cfg (st_baseline st) (st_baseline st')"
proof (cases listing)
  case (Inl cause)
  with assms show ?thesis by (auto simp: refresh_server_def)
next
  case (Inr listed)
  let ?a = "\<lparr>rf_next = [], rf_baseline = st_baseline st, rf_dropped = zero_drops, rf_withheld = 0, rf_drift = []\<rparr>"
  obtain x a where run: "catalog_tools sha cfg scanner sv listed ?a = (x, a)" by fastforce
  have "acc_ok sha cfg sv ?a" by (simp add: acc_ok_def entries_ok_def pinned_def)
  from acc_ok_tools [OF this run] have "acc_ok sha cfg sv a" "extends cfg (st_baseline st) (rf_baseline a)" by simp_all
  with assms run Inr show ?thesis
    by (auto simp: refresh_server_def server_ok_def acc_ok_def split: option.splits intro: pinned_extends)
qed

section \<open>All servers\<close>

lemma map_fst_put: "k \<in> set (map fst m) \<Longrightarrow> map fst (put_prop k v m) = map fst m"
  by (simp add: update_keys)

lemma state_for_get: "get_prop (state_for i m) j = (if j = i \<and> get_prop m i = None
    then Some \<lparr>st_entries = [], st_baseline = []\<rparr> else get_prop m j)"
  by (auto simp: state_for_def update_conv' split: option.splits)

lemma created_get:
  "get_prop (fold (\<lambda>sv. state_for (us_id sv)) targets m) j =
    (case get_prop m j of Some st \<Rightarrow> Some st
     | None \<Rightarrow> if j \<in> us_id ` set targets then Some \<lparr>st_entries = [], st_baseline = []\<rparr> else None)"
  by (induction targets arbitrary: m) (auto simp: state_for_get split: option.splits)

lemma created_distinct:
  "distinct (map fst m) \<Longrightarrow> distinct (map fst (fold (\<lambda>sv. state_for (us_id sv)) targets m))"
  by (induction targets arbitrary: m) (auto simp: state_for_def distinct_update split: option.splits)

lemma arrivals_keys:
  "refresh_arrivals sha cfg scanner listing arrivals m = (outs, m') \<Longrightarrow> map fst m' = map fst m"
proof (induction arrivals arbitrary: m outs)
  case (Cons sv r)
  show ?case
  proof (cases "get_prop m (us_id sv)")
    case None
    with Cons show ?thesis by auto
  next
    case (Some st)
    obtain o1 st1 where one: "refresh_server sha cfg scanner sv (listing (us_id sv)) st = (o1, st1)" by fastforce
    obtain os where "refresh_arrivals sha cfg scanner listing r (put_prop (us_id sv) st1 m) = (os, m')"
      using Cons.prems Some one by (auto split: prod.splits)
    from Cons.IH [OF this] have "map fst m' = map fst (put_prop (us_id sv) st1 m)" .
    also have "\<dots> = map fst m" using Some by (intro map_fst_put) (force dest: map_of_SomeD)
    finally show ?thesis .
  qed
qed simp

text \<open>Each server's state depends on its own answer only.\<close>

definition answer_of ::
    "hash_fun \<Rightarrow> catalog_settings \<Rightarrow> tool_scanner option \<Rightarrow> (jstring \<Rightarrow> exn + listed_tool list)
      \<Rightarrow> server_state props \<Rightarrow> server_settings
      \<Rightarrow> (jstring \<times> (exn + refresh_outcome \<times> drift_event list)) list" where
  "answer_of sha cfg scanner listing m sv = (case get_prop m (us_id sv) of None \<Rightarrow> []
     | Some st \<Rightarrow> [(us_id sv, fst (refresh_server sha cfg scanner sv (listing (us_id sv)) st))])"

lemma arrivals_split:
  assumes "refresh_arrivals sha cfg scanner listing (sv # r) m = (outs, m')" "get_prop m (us_id sv) = Some st"
  obtains os where "refresh_arrivals sha cfg scanner listing r
        (put_prop (us_id sv) (snd (refresh_server sha cfg scanner sv (listing (us_id sv)) st)) m) = (os, m')"
    "outs = (us_id sv, fst (refresh_server sha cfg scanner sv (listing (us_id sv)) st)) # os"
  using assms that by (clarsimp simp: Let_def split: prod.splits)

lemma arrivals_out:
  assumes "distinct (map us_id arrivals)" "refresh_arrivals sha cfg scanner listing arrivals m = (outs, m')"
  shows "outs = concat (map (answer_of sha cfg scanner listing m) arrivals)"
  using assms
proof (induction arrivals arbitrary: m outs)
  case (Cons sv r)
  show ?case
  proof (cases "get_prop m (us_id sv)")
    case None
    with Cons show ?thesis by (simp add: answer_of_def)
  next
    case (Some st)
    from Cons.prems(2) Some obtain os where rest: "refresh_arrivals sha cfg scanner listing r
        (put_prop (us_id sv) (snd (refresh_server sha cfg scanner sv (listing (us_id sv)) st)) m) = (os, m')"
      "outs = (us_id sv, fst (refresh_server sha cfg scanner sv (listing (us_id sv)) st)) # os"
      by (rule arrivals_split)
    have "answer_of sha cfg scanner listing (put_prop (us_id sv) u m) x = answer_of sha cfg scanner listing m x"
      if "x \<in> set r" for x u
    proof -
      have "us_id x \<noteq> us_id sv" using Cons.prems(1) that by (metis distinct.simps(2) image_eqI list.simps(9) set_map)
      then show ?thesis by (simp add: answer_of_def)
    qed
    then have same: "map (answer_of sha cfg scanner listing (put_prop (us_id sv) u m)) r
      = map (answer_of sha cfg scanner listing m) r" for u by simp
    have "answer_of sha cfg scanner listing m sv
      = [(us_id sv, fst (refresh_server sha cfg scanner sv (listing (us_id sv)) st))]"
      using Some by (simp add: answer_of_def)
    moreover have "os = concat (map (answer_of sha cfg scanner listing m) r)"
      using Cons.IH [OF _ rest(1)] Cons.prems(1) unfolding same by simp
    ultimately show ?thesis using rest(2) by simp
  qed
qed simp

lemma find_absent: "k \<notin> f ` set xs \<Longrightarrow> find (\<lambda>x. f x = k) xs = None"
  by (induction xs) auto

lemma arrivals_get:
  assumes "distinct (map us_id arrivals)" "refresh_arrivals sha cfg scanner listing arrivals m = (outs, m')"
  shows "get_prop m' i = (case find (\<lambda>sv. us_id sv = i) arrivals of
      None \<Rightarrow> get_prop m i
    | Some sv \<Rightarrow> map_option (\<lambda>st. snd (refresh_server sha cfg scanner sv (listing i) st)) (get_prop m i))"
  using assms
proof (induction arrivals arbitrary: m outs)
  case (Cons sv r)
  show ?case
  proof (cases "get_prop m (us_id sv)")
    case None
    with Cons.prems Cons.IH [of m outs] show ?thesis by (auto split: option.splits)
  next
    case (Some st)
    from Cons.prems(2) Some obtain os where rest: "refresh_arrivals sha cfg scanner listing r
        (put_prop (us_id sv) (snd (refresh_server sha cfg scanner sv (listing (us_id sv)) st)) m) = (os, m')"
      by (rule arrivals_split)
    have "us_id sv \<notin> us_id ` set r" using Cons.prems(1) by simp
    then have "find (\<lambda>x. us_id x = us_id sv) r = None" by (rule find_absent)
    moreover have "distinct (map us_id r)" using Cons.prems(1) by simp
    note ih = Cons.IH [OF this rest]
    ultimately show ?thesis
    proof (cases "us_id sv = i")
      case False
      then show ?thesis by (cases "find (\<lambda>x. us_id x = i) r") (simp_all add: ih)
    next
      case True
      with \<open>find (\<lambda>x. us_id x = us_id sv) r = None\<close> Some show ?thesis by (simp add: ih)
    qed
  qed
qed simp

lemma find_unique: "distinct (map f xs) \<Longrightarrow> x \<in> set xs \<Longrightarrow> find (\<lambda>y. f y = f x) xs = Some x"
  by (induction xs) auto

lemma find_mset: "distinct (map f xs) \<Longrightarrow> set xs = set ys \<Longrightarrow> distinct (map f ys) \<Longrightarrow>
    find (\<lambda>x. f x = i) xs = find (\<lambda>x. f x = i) ys"
proof (cases "find (\<lambda>x. f x = i) xs")
  case None
  assume "set xs = set ys"
  with None have "find (\<lambda>x. f x = i) ys = None" by (simp add: find_None_iff)
  with None show ?thesis by simp
next
  case (Some x)
  assume d: "distinct (map f ys)" and s: "set xs = set ys"
  from Some have "x \<in> set xs" "f x = i" by (auto simp: find_Some_iff)
  with find_unique [OF d, of x] s Some show ?thesis by simp
qed

section \<open>The invariant of the catalog\<close>

definition servers_ok :: "hash_fun \<Rightarrow> catalog_settings \<Rightarrow> server_settings list \<Rightarrow> server_state props \<Rightarrow> bool" where
  "servers_ok sha cfg cfgs m = (distinct (map fst m)
     \<and> (\<forall>sv \<in> set cfgs. \<forall>st. get_prop m (us_id sv) = Some st \<longrightarrow> server_ok sha cfg sv st))"

text \<open>An advertised entry: sound for its server, and in withholding mode the one its baseline pins.\<close>

definition indexed_ok ::
    "hash_fun \<Rightarrow> catalog_settings \<Rightarrow> server_settings list \<Rightarrow> server_state props \<Rightarrow> jstring \<times> catalog_entry \<Rightarrow> bool" where
  "indexed_ok sha cfg cfgs m = (\<lambda>(q, e). q = ct_qualifiedName e
     \<and> (\<exists>sv \<in> set cfgs. \<exists>st. us_id sv = ct_serverId e \<and> get_prop m (us_id sv) = Some st
          \<and> entry_ok sha cfg sv (ct_toolName e, e)
          \<and> (cg_onDefinitionDrift cfg = DriftWithhold \<longrightarrow>
               get_prop (st_baseline st) (ct_toolName e) = Some (en_definitionDigest e))))"

definition catalog_inv :: "hash_fun \<Rightarrow> catalog_settings \<Rightarrow> server_settings list \<Rightarrow> tool_catalog \<Rightarrow> bool" where
  "catalog_inv sha cfg cfgs c = (servers_ok sha cfg cfgs (cat_servers c)
     \<and> length (cat_index c) \<le> cg_maxTools cfg \<and> distinct (map fst (cat_index c))
     \<and> list_all (indexed_ok sha cfg cfgs (cat_servers c)) (cat_index c))"

lemma empty_server_ok: "server_ok sha cfg sv \<lparr>st_entries = [], st_baseline = []\<rparr>"
  by (simp add: server_ok_def entries_ok_def pinned_def)

lemma servers_ok_created:
  "servers_ok sha cfg cfgs m \<Longrightarrow> servers_ok sha cfg cfgs (fold (\<lambda>sv. state_for (us_id sv)) targets m)"
  by (auto simp: servers_ok_def created_get created_distinct empty_server_ok split: option.splits if_splits)

text \<open>A refresh of some of the configured servers keeps all of them sound and every baseline growing.\<close>

lemma arrivals_ok:
  assumes "distinct (map us_id cfgs)" "set arrivals \<subseteq> set cfgs" "distinct (map us_id arrivals)"
    and "servers_ok sha cfg cfgs m" "refresh_arrivals sha cfg scanner listing arrivals m = (outs, m')"
  shows "servers_ok sha cfg cfgs m'"
    and "sv \<in> set cfgs \<Longrightarrow> get_prop m (us_id sv) = Some st \<Longrightarrow>
      \<exists>st'. get_prop m' (us_id sv) = Some st' \<and> extends cfg (st_baseline st) (st_baseline st')"
proof -
  have one: "\<exists>st'. get_prop m' (us_id sv) = Some st' \<and> server_ok sha cfg sv st'
      \<and> extends cfg (st_baseline st) (st_baseline st')"
    if sv: "sv \<in> set cfgs" and st: "get_prop m (us_id sv) = Some st" for sv st
  proof (cases "find (\<lambda>x. us_id x = us_id sv) arrivals")
    case None
    with st sv assms(4) show ?thesis by (auto simp: arrivals_get [OF assms(3,5)] servers_ok_def)
  next
    case (Some x)
    then have "x \<in> set cfgs" "us_id x = us_id sv" using assms(2) by (auto simp: find_Some_iff)
    then have "x = sv" using assms(1) sv by (metis inj_onD distinct_map)
    with Some st sv assms(4) show ?thesis
      using server_ok_refresh [of sha cfg sv st scanner "listing (us_id sv)"
          "fst (refresh_server sha cfg scanner sv (listing (us_id sv)) st)"
          "snd (refresh_server sha cfg scanner sv (listing (us_id sv)) st)"]
      by (auto simp: arrivals_get [OF assms(3,5)] servers_ok_def)
  qed
  show "sv \<in> set cfgs \<Longrightarrow> get_prop m (us_id sv) = Some st \<Longrightarrow>
      \<exists>st'. get_prop m' (us_id sv) = Some st' \<and> extends cfg (st_baseline st) (st_baseline st')"
    using one by blast
  have "get_prop m i = None \<Longrightarrow> get_prop m' i = None" for i
    using arrivals_keys [OF assms(5)] by (metis map_of_eq_None_iff set_map)
  then show "servers_ok sha cfg cfgs m'"
    using one assms(4) arrivals_keys [OF assms(5)] unfolding servers_ok_def
    by (metis not_None_eq option.inject)
qed

section \<open>The index\<close>

definition listed_entries :: "server_state props \<Rightarrow> server_settings \<Rightarrow> catalog_entry list" where
  "listed_entries m sv = (case get_prop m (us_id sv) of None \<Rightarrow> [] | Some st \<Rightarrow> map snd (st_entries st))"

lemma index_entries_append: "index_entries cap (a @ b) ix = index_entries cap b (index_entries cap a ix)"
  by (induction a arbitrary: ix) auto

lemma rebuild_index_concat:
  "rebuild_index cap order m ix = index_entries cap (concat (map (listed_entries m) order)) ix"
  by (induction order arbitrary: ix) (auto simp: listed_entries_def index_entries_append split: option.splits)

lemma index_entries_take:
  "distinct (map fst ix @ map ct_qualifiedName es) \<Longrightarrow>
    index_entries cap es ix = ix @ map (\<lambda>e. (ct_qualifiedName e, e)) (take (cap - length ix) es)"
proof (induction es arbitrary: ix)
  case (Cons e r)
  then have new: "put_prop (ct_qualifiedName e) e ix = ix @ [(ct_qualifiedName e, e)]"
    by (intro put_new) auto
  show ?case
  proof (cases "length ix \<ge> cap")
    case True
    with Cons show ?thesis by simp
  next
    case False
    then obtain k where k: "cap - length ix = Suc k" by (metis Suc_diff_Suc not_le)
    then have "cap - Suc (length ix) = k" by linarith
    moreover have "index_entries cap r (ix @ [(ct_qualifiedName e, e)]) = (ix @ [(ct_qualifiedName e, e)])
        @ map (\<lambda>e. (ct_qualifiedName e, e)) (take (cap - length (ix @ [(ct_qualifiedName e, e)])) r)"
      by (rule Cons.IH) (use Cons.prems in auto)
    ultimately show ?thesis using False new k by simp
  qed
qed simp

definition sound_name :: "catalog_entry \<Rightarrow> bool" where
  "sound_name e = (qualify_tool_name (ct_serverId e) (ct_toolName e) = Inr (ct_qualifiedName e))"

lemma distinct_names:
  assumes "distinct (map (\<lambda>e. (ct_serverId e, ct_toolName e)) es)" "list_all sound_name es"
  shows "distinct (map ct_qualifiedName es)"
  using assms
proof (induction es)
  case (Cons e r)
  have "ct_qualifiedName e \<noteq> ct_qualifiedName x" if "x \<in> set r" for x
  proof
    assume "ct_qualifiedName e = ct_qualifiedName x"
    with Cons.prems(2) that tool_names.qual_inject have "ct_serverId e = ct_serverId x \<and> ct_toolName e = ct_toolName x"
      by (fastforce simp: sound_name_def list_all_iff)
    with Cons.prems(1) that show False by force
  qed
  with Cons show ?case by auto
qed simp

lemma distinct_concat_keyed:
  "distinct (map g xs) \<Longrightarrow> (\<And>x. x \<in> set xs \<Longrightarrow> distinct (map k (f x)) \<and> (\<forall>y \<in> set (f x). fst (k y) = g x)) \<Longrightarrow>
    distinct (map k (concat (map f xs)))"
proof (induction xs)
  case (Cons x xs)
  have "k y \<noteq> k z" if "y \<in> set (f x)" "u \<in> set xs" "z \<in> set (f u)" for y z u
  proof -
    have "g x \<noteq> g u" using Cons.prems(1) that(2) by auto
    moreover have "fst (k y) = g x" "fst (k z) = g u"
      using Cons.prems(2) [of x] Cons.prems(2) [of u] that by auto
    ultimately show ?thesis by auto
  qed
  then have "set (map k (f x)) \<inter> set (map k (concat (map f xs))) = {}" by fastforce
  moreover have "distinct (map k (concat (map f xs)))" by (rule Cons.IH) (use Cons.prems in auto)
  ultimately show ?case using Cons.prems(2) [of x] by simp
qed simp

lemma entries_keys:
  assumes "entries_ok sha cfg sv es"
  shows "map (\<lambda>e. (ct_serverId e, ct_toolName e)) (map snd es) = map (\<lambda>t. (us_id sv, t)) (map fst es)"
    and "e \<in> set (map snd es) \<Longrightarrow> sound_name e \<and> ct_serverId e = us_id sv"
  using assms by (auto simp: entries_ok_def entry_ok_def list_all_iff sound_name_def)

lemma listed_one:
  assumes "servers_ok sha cfg cfgs m" "sv \<in> set cfgs"
  shows "distinct (map (\<lambda>e. (ct_serverId e, ct_toolName e)) (listed_entries m sv))"
    and "e \<in> set (listed_entries m sv) \<Longrightarrow> sound_name e \<and> ct_serverId e = us_id sv"
proof -
  have ok: "entries_ok sha cfg sv (st_entries st)" if "get_prop m (us_id sv) = Some st" for st
    using assms that by (auto simp: servers_ok_def server_ok_def)
  show "distinct (map (\<lambda>e. (ct_serverId e, ct_toolName e)) (listed_entries m sv))"
  proof (cases "get_prop m (us_id sv)")
    case (Some st)
    have "distinct (map (\<lambda>t. (us_id sv, t)) (map fst (st_entries st)))"
      using ok [OF Some] by (simp add: entries_ok_def distinct_map inj_on_def)
    then have "distinct (map (\<lambda>e. (ct_serverId e, ct_toolName e)) (map snd (st_entries st)))"
      unfolding entries_keys(1) [OF ok [OF Some]] .
    with Some show ?thesis by (simp add: listed_entries_def)
  qed (simp add: listed_entries_def)
  show "e \<in> set (listed_entries m sv) \<Longrightarrow> sound_name e \<and> ct_serverId e = us_id sv"
    using entries_keys(2) [OF ok, of _ e] by (cases "get_prop m (us_id sv)") (simp_all add: listed_entries_def)
qed

lemma listed_distinct:
  assumes "servers_ok sha cfg cfgs m" "set order \<subseteq> set cfgs" "distinct (map us_id order)"
  shows "distinct (map ct_qualifiedName (concat (map (listed_entries m) order)))"
proof (rule distinct_names)
  show "distinct (map (\<lambda>e. (ct_serverId e, ct_toolName e)) (concat (map (listed_entries m) order)))"
    using assms(2) listed_one [OF assms(1)] by (intro distinct_concat_keyed [OF assms(3)]) auto
  show "list_all sound_name (concat (map (listed_entries m) order))"
    using assms(2) listed_one(2) [OF assms(1)] by (auto simp: list_all_iff)
qed

text \<open>The reference definition of the index: the entries in configuration order, cut at the cap.\<close>

lemma rebuild_index_reference:
  assumes "servers_ok sha cfg cfgs m" "set order \<subseteq> set cfgs" "distinct (map us_id order)"
  shows "rebuild_index cap order m [] =
    map (\<lambda>e. (ct_qualifiedName e, e)) (take cap (concat (map (listed_entries m) order)))"
  using listed_distinct [OF assms] by (simp add: rebuild_index_concat index_entries_take)

section \<open>Refreshing\<close>

lemma refresh_once_cases:
  assumes "refresh_once sha cfg scanner targets arrivals listing c = (out, c')"
  obtains outs servers where
    "refresh_arrivals sha cfg scanner listing arrivals (fold (\<lambda>sv. state_for (us_id sv)) targets (cat_servers c))
      = (outs, servers)"
    "(\<exists>e. first_error outs = Some e \<and> out = Inl e \<and> c' = c\<lparr>cat_servers := servers\<rparr>)
      \<or> (first_error outs = None \<and> (\<exists>r. out = Inr r)
         \<and> c' = \<lparr>cat_servers = filter (\<lambda>(i, _). i \<in> set (map us_id targets)) servers,
              cat_index = rebuild_index (cg_maxTools cfg) targets
                (filter (\<lambda>(i, _). i \<in> set (map us_id targets)) servers) []\<rparr>)"
proof -
  obtain outs servers where arr: "refresh_arrivals sha cfg scanner listing arrivals
      (fold (\<lambda>sv. state_for (us_id sv)) targets (cat_servers c)) = (outs, servers)" by fastforce
  show thesis
    by (rule that [OF arr]) (use assms arr in \<open>auto simp: refresh_once_def Let_def split: option.splits\<close>)
qed

lemma get_filter_live: "get_prop (filter (\<lambda>(i, _). i \<in> live) m) j = (if j \<in> live then get_prop m j else None)"
  by (induction m) auto

lemma servers_ok_filter:
  "servers_ok sha cfg cfgs m \<Longrightarrow> servers_ok sha cfg cfgs (filter (\<lambda>(i, _). i \<in> live) m)"
  by (auto simp: servers_ok_def get_filter_live distinct_map_filter split: if_splits)

text \<open>One round: some of the configured servers, in their order, answering in any order.\<close>

definition round_ok :: "server_settings list \<Rightarrow> server_settings list \<Rightarrow> server_settings list \<Rightarrow> bool" where
  "round_ok cfgs targets arrivals = (distinct (map us_id cfgs) \<and> subseq targets cfgs \<and> mset arrivals = mset targets)"

lemma subseq_set: "subseq xs ys \<Longrightarrow> set xs \<subseteq> set ys"
  by (auto elim: list_emb_set)

lemma subseq_distinct: "subseq xs ys \<Longrightarrow> distinct ys \<Longrightarrow> distinct xs"
  by (induction rule: list_emb.induct) (auto dest: subseq_set)

lemma round_okD:
  assumes "round_ok cfgs targets arrivals"
  shows "distinct (map us_id cfgs)" "set targets \<subseteq> set cfgs" "distinct (map us_id targets)"
    "set arrivals \<subseteq> set cfgs" "distinct (map us_id arrivals)" "set arrivals = set targets"
proof -
  from assms have m: "mset arrivals = mset targets" and s: "subseq targets cfgs" and d: "distinct (map us_id cfgs)"
    by (simp_all add: round_ok_def)
  from s show t: "set targets \<subseteq> set cfgs" by (rule subseq_set)
  from s d show dt: "distinct (map us_id targets)" by (meson subseq_map subseq_distinct)
  show "set arrivals = set targets" using m by (metis set_mset_mset)
  with t show "set arrivals \<subseteq> set cfgs" by simp
  from m have "mset (map us_id arrivals) = mset (map us_id targets)" by simp
  with dt show "distinct (map us_id arrivals)" by (metis mset_eq_imp_distinct_iff)
qed (use assms in \<open>simp add: round_ok_def\<close>)

lemma indexed_mono:
  assumes "list_all (indexed_ok sha cfg cfgs m) ix" "distinct (map us_id cfgs)"
    and "\<And>sv st. sv \<in> set cfgs \<Longrightarrow> get_prop m (us_id sv) = Some st \<Longrightarrow>
      \<exists>st'. get_prop m' (us_id sv) = Some st' \<and> extends cfg (st_baseline st) (st_baseline st')"
  shows "list_all (indexed_ok sha cfg cfgs m') ix"
  unfolding list_all_iff
proof
  fix x assume "x \<in> set ix"
  obtain q e where x: "x = (q, e)" by fastforce
  with assms(1) \<open>x \<in> set ix\<close> obtain sv st where sv: "sv \<in> set cfgs" "us_id sv = ct_serverId e"
    "get_prop m (us_id sv) = Some st" "entry_ok sha cfg sv (ct_toolName e, e)" "q = ct_qualifiedName e"
    "cg_onDefinitionDrift cfg = DriftWithhold \<Longrightarrow> get_prop (st_baseline st) (ct_toolName e) = Some (en_definitionDigest e)"
    unfolding list_all_iff indexed_ok_def by auto
  from assms(3) [OF sv(1,3)] obtain st' where "get_prop m' (us_id sv) = Some st'"
    "extends cfg (st_baseline st) (st_baseline st')" by blast
  with sv show "indexed_ok sha cfg cfgs m' x"
    unfolding x indexed_ok_def by (auto simp: extends_def map_le_def dom_def)
qed

lemma listed_indexed:
  assumes "servers_ok sha cfg cfgs m" "set order \<subseteq> set cfgs"
    "e \<in> set (concat (map (listed_entries m) order))"
  shows "indexed_ok sha cfg cfgs m (ct_qualifiedName e, e)"
proof -
  from assms(3) obtain sv where o: "sv \<in> set order" "e \<in> set (listed_entries m sv)" by auto
  then obtain st where st: "get_prop m (us_id sv) = Some st" by (cases "get_prop m (us_id sv)") (auto simp: listed_entries_def)
  with o obtain t where sv: "sv \<in> set order" "get_prop m (us_id sv) = Some st" "(t, e) \<in> set (st_entries st)"
    by (auto simp: listed_entries_def)
  with assms(1,2) have ok: "server_ok sha cfg sv st" by (auto simp: servers_ok_def)
  with sv(3) have "entry_ok sha cfg sv (t, e)" and t: "t = ct_toolName e" "us_id sv = ct_serverId e"
    by (auto simp: server_ok_def entries_ok_def list_all_iff entry_ok_def)
  moreover have "cg_onDefinitionDrift cfg = DriftWithhold \<longrightarrow>
      get_prop (st_baseline st) (ct_toolName e) = Some (en_definitionDigest e)"
    using ok sv(3) t by (auto simp: server_ok_def pinned_def list_all_iff)
  ultimately show ?thesis using sv assms(2) unfolding indexed_ok_def by auto
qed

lemma ball_set_map: "Ball (set (map f xs)) P \<longleftrightarrow> (\<forall>x \<in> set xs. P (f x))"
  by simp

lemma catalog_inv_refresh:
  assumes r: "round_ok cfgs targets arrivals" and inv: "catalog_inv sha cfg cfgs c"
    and run: "refresh_once sha cfg scanner targets arrivals listing c = (out, c')"
  shows "catalog_inv sha cfg cfgs c'"
proof -
  let ?created = "fold (\<lambda>sv. state_for (us_id sv)) targets (cat_servers c)"
  let ?live = "set (map us_id targets)"
  note r = round_okD [OF r]
  from run obtain outs servers where arr: "refresh_arrivals sha cfg scanner listing arrivals ?created = (outs, servers)"
    and res: "(\<exists>e. first_error outs = Some e \<and> out = Inl e \<and> c' = c\<lparr>cat_servers := servers\<rparr>)
      \<or> (first_error outs = None \<and> (\<exists>r. out = Inr r)
         \<and> c' = \<lparr>cat_servers = filter (\<lambda>(i, _). i \<in> ?live) servers,
              cat_index = rebuild_index (cg_maxTools cfg) targets (filter (\<lambda>(i, _). i \<in> ?live) servers) []\<rparr>)"
    by (rule refresh_once_cases)
  from inv have created: "servers_ok sha cfg cfgs ?created" by (auto simp: catalog_inv_def intro: servers_ok_created)
  note after = arrivals_ok [OF r(1,4,5) created arr]
  show ?thesis using res
  proof (elim disjE exE conjE)
    fix e assume c': "c' = c\<lparr>cat_servers := servers\<rparr>"
    have "list_all (indexed_ok sha cfg cfgs servers) (cat_index c)"
    proof (rule indexed_mono [OF _ r(1)])
      show "list_all (indexed_ok sha cfg cfgs (cat_servers c)) (cat_index c)" using inv by (simp add: catalog_inv_def)
      show "\<exists>st'. get_prop servers (us_id sv) = Some st' \<and> extends cfg (st_baseline st) (st_baseline st')"
        if "sv \<in> set cfgs" "get_prop (cat_servers c) (us_id sv) = Some st" for sv st
        using after(2) [OF that(1), of st] that(2) by (simp add: created_get)
    qed
    with after(1) inv show ?thesis by (simp add: catalog_inv_def c')
  next
    fix x assume c': "c' = \<lparr>cat_servers = filter (\<lambda>(i, _). i \<in> ?live) servers,
              cat_index = rebuild_index (cg_maxTools cfg) targets (filter (\<lambda>(i, _). i \<in> ?live) servers) []\<rparr>"
    obtain K where K: "K = filter (\<lambda>(i, _). i \<in> ?live) servers" by blast
    have kept: "servers_ok sha cfg cfgs K" unfolding K by (rule servers_ok_filter [OF after(1)])
    note ix = rebuild_index_reference [OF kept r(2,3), of "cg_maxTools cfg"]
    have "distinct (map ct_qualifiedName (take (cg_maxTools cfg) (concat (map (listed_entries K) targets))))"
      unfolding take_map [symmetric] by (rule distinct_take [OF listed_distinct [OF kept r(2,3)]])
    moreover have "indexed_ok sha cfg cfgs K (ct_qualifiedName e, e)"
      if "e \<in> set (take (cg_maxTools cfg) (concat (map (listed_entries K) targets)))" for e
      by (rule listed_indexed [OF kept r(2) in_set_takeD [OF that]])
    moreover have "c' = \<lparr>cat_servers = K, cat_index = map (\<lambda>e. (ct_qualifiedName e, e))
        (take (cg_maxTools cfg) (concat (map (listed_entries K) targets)))\<rparr>"
      unfolding c' K [symmetric] ix ..
    ultimately show ?thesis
      using kept by (simp add: catalog_inv_def comp_def list_all_iff ball_set_map del: set_concat)
  qed
qed

inductive catalog_reachable ::
    "hash_fun \<Rightarrow> catalog_settings \<Rightarrow> tool_scanner option \<Rightarrow> server_settings list \<Rightarrow> tool_catalog \<Rightarrow> bool"
  for sha cfg scanner cfgs where
  catalog_start: "catalog_reachable sha cfg scanner cfgs empty_catalog"
| catalog_round: "catalog_reachable sha cfg scanner cfgs c \<Longrightarrow> round_ok cfgs targets arrivals \<Longrightarrow>
    catalog_reachable sha cfg scanner cfgs (snd (refresh_once sha cfg scanner targets arrivals listing c))"

lemma reachable_inv: "catalog_reachable sha cfg scanner cfgs c \<Longrightarrow> catalog_inv sha cfg cfgs c"
proof (induction rule: catalog_reachable.induct)
  case catalog_start
  show ?case by (simp add: catalog_inv_def empty_catalog_def servers_ok_def)
next
  case (catalog_round c targets arrivals listing)
  from catalog_inv_refresh [OF this(2,3) surjective_pairing] show ?case .
qed

text \<open>Several rounds, each given by its targets, the order of the answers and the answers.\<close>

fun refresh_rounds ::
    "hash_fun \<Rightarrow> catalog_settings \<Rightarrow> tool_scanner option
      \<Rightarrow> (server_settings list \<times> server_settings list \<times> (jstring \<Rightarrow> exn + listed_tool list)) list
      \<Rightarrow> tool_catalog \<Rightarrow> tool_catalog" where
  "refresh_rounds sha cfg scanner [] c = c"
| "refresh_rounds sha cfg scanner ((targets, arrivals, listing) # r) c =
     refresh_rounds sha cfg scanner r (snd (refresh_once sha cfg scanner targets arrivals listing c))"

lemma rounds_reachable:
  "catalog_reachable sha cfg scanner cfgs c \<Longrightarrow> list_all (\<lambda>(t, a, _). round_ok cfgs t a) rs \<Longrightarrow>
    catalog_reachable sha cfg scanner cfgs (refresh_rounds sha cfg scanner rs c)"
proof (induction rs arbitrary: c)
  case (Cons x rs)
  obtain targets arrivals listing where x: "x = (targets, arrivals, listing)" by (metis prod_cases3)
  with Cons.prems have "catalog_reachable sha cfg scanner cfgs (snd (refresh_once sha cfg scanner targets arrivals listing c))"
    by (intro catalog_round) simp_all
  from Cons.IH [OF this] Cons.prems show ?case by (simp add: x)
qed simp

definition baseline_of :: "tool_catalog \<Rightarrow> jstring \<Rightarrow> jstring \<Rightarrow> jstring option" where
  "baseline_of c i t = (case get_prop (cat_servers c) i of None \<Rightarrow> None | Some st \<Rightarrow> get_prop (st_baseline st) t)"

lemma baseline_round:
  assumes "round_ok cfgs targets arrivals" "catalog_inv sha cfg cfgs c" "cg_onDefinitionDrift cfg = DriftWithhold"
    and "sv \<in> set targets" "baseline_of c (us_id sv) t = Some d"
  shows "baseline_of (snd (refresh_once sha cfg scanner targets arrivals listing c)) (us_id sv) t = Some d"
proof -
  note r = round_okD [OF assms(1)]
  let ?created = "fold (\<lambda>sv. state_for (us_id sv)) targets (cat_servers c)"
  obtain out c' where run: "refresh_once sha cfg scanner targets arrivals listing c = (out, c')" by fastforce
  then obtain outs servers where arr: "refresh_arrivals sha cfg scanner listing arrivals ?created = (outs, servers)"
    and res: "(\<exists>e. first_error outs = Some e \<and> out = Inl e \<and> c' = c\<lparr>cat_servers := servers\<rparr>)
      \<or> (first_error outs = None \<and> (\<exists>r. out = Inr r)
         \<and> c' = \<lparr>cat_servers = filter (\<lambda>(i, _). i \<in> set (map us_id targets)) servers,
              cat_index = rebuild_index (cg_maxTools cfg) targets (filter (\<lambda>(i, _). i \<in> set (map us_id targets)) servers) []\<rparr>)"
    by (rule refresh_once_cases)
  from assms(5) obtain st where st: "get_prop (cat_servers c) (us_id sv) = Some st" "get_prop (st_baseline st) t = Some d"
    by (auto simp: baseline_of_def split: option.splits)
  from assms(2) have "servers_ok sha cfg cfgs ?created" by (auto simp: catalog_inv_def intro: servers_ok_created)
  from arrivals_ok(2) [OF r(1,4,5) this arr, of sv st] st(1) assms(4) r(2) obtain st' where
    st': "get_prop servers (us_id sv) = Some st'" "extends cfg (st_baseline st) (st_baseline st')"
    by (auto simp: created_get)
  have "get_prop (st_baseline st') t = Some d"
    using st'(2) st(2) assms(3) by (auto simp: extends_def map_le_def dom_def)
  moreover have "get_prop (cat_servers c') (us_id sv) = Some st'"
    using res st'(1) assms(4) by (auto simp: get_filter_live)
  ultimately show ?thesis by (simp add: run baseline_of_def)
qed

lemma baseline_rounds:
  assumes "catalog_reachable sha cfg scanner cfgs c" "list_all (\<lambda>(t, a, _). round_ok cfgs t a \<and> sv \<in> set t) rs"
    and "cg_onDefinitionDrift cfg = DriftWithhold" "baseline_of c (us_id sv) t = Some d"
  shows "baseline_of (refresh_rounds sha cfg scanner rs c) (us_id sv) t = Some d"
  using assms(1,2,4)
proof (induction rs arbitrary: c)
  case (Cons x rs)
  obtain targets arrivals listing where x: "x = (targets, arrivals, listing)" by (metis prod_cases3)
  with Cons.prems have r: "round_ok cfgs targets arrivals" "sv \<in> set targets" by simp_all
  show ?case unfolding x refresh_rounds.simps
    by (rule Cons.IH)
       (use Cons.prems x r in \<open>auto intro: catalog_round baseline_round [OF _ reachable_inv] assms(3)\<close>)
qed simp

lemma get_indexed:
  assumes "catalog_reachable sha cfg scanner cfgs c" "catalog_get c q = Some e"
  shows "indexed_ok sha cfg cfgs (cat_servers c) (q, e)"
  using reachable_inv [OF assms(1)] assms(2)
  by (auto simp: catalog_inv_def list_all_iff catalog_get_def dest: map_of_SomeD)

lemma first_error_None: "first_error xs = None \<longleftrightarrow> (\<forall>x \<in> set xs. \<not> isl (snd x))"
  by (induction xs rule: first_error.induct) auto

lemma same_keys_same_list:
  assumes "map fst m = map fst m'" "map_of m = map_of m'" "distinct (map fst m)"
  shows "m = m'"
proof -
  have rebuild: "map (\<lambda>k. (k, the (map_of xs k))) (map fst xs) = xs" if "distinct (map fst xs)" for xs :: "('a \<times> 'b) list"
    using that by (auto intro!: map_idI simp: comp_def)
  have "m = map (\<lambda>k. (k, the (map_of m' k))) (map fst m')"
    using rebuild [OF assms(3)] unfolding assms(1,2) by (rule sym)
  also have "\<dots> = m'" using assms(1,3) by (intro rebuild) simp
  finally show ?thesis .
qed

lemma refresh_reference:
  assumes "catalog_reachable sha cfg scanner cfgs c" "round_ok cfgs targets arrivals"
    and "refresh_once sha cfg scanner targets arrivals listing c = (Inr result, c')"
  shows "catalog_all c' = take (cg_maxTools cfg) (concat (map (\<lambda>sv. for_server c' (us_id sv)) targets))
    \<and> (\<forall>sv \<in> set targets. isl (listing (us_id sv)) \<longrightarrow> for_server c' (us_id sv) = for_server c (us_id sv))"
proof -
  let ?created = "fold (\<lambda>sv. state_for (us_id sv)) targets (cat_servers c)"
  note r = round_okD [OF assms(2)]
  from refresh_once_cases [OF assms(3)] obtain outs servers where
    arr: "refresh_arrivals sha cfg scanner listing arrivals ?created = (outs, servers)"
    and fin: "c' = \<lparr>cat_servers = filter (\<lambda>(i, _). i \<in> set (map us_id targets)) servers,
        cat_index = rebuild_index (cg_maxTools cfg) targets (filter (\<lambda>(i, _). i \<in> set (map us_id targets)) servers) []\<rparr>"
    by (metis sum.simps(4))
  obtain K where K: "K = filter (\<lambda>(i, _). i \<in> set (map us_id targets)) servers" by blast
  note c' = fin [folded K]
  have "servers_ok sha cfg cfgs ?created"
    using reachable_inv [OF assms(1)] by (auto simp: catalog_inv_def intro: servers_ok_created)
  from servers_ok_filter [OF arrivals_ok(1) [OF r(1,4,5) this arr]] have kept: "servers_ok sha cfg cfgs K" unfolding K .
  have "for_server c' (us_id sv) = listed_entries K sv" for sv
    by (simp add: for_server_def listed_entries_def c')
  then have "catalog_all c' = take (cg_maxTools cfg) (concat (map (\<lambda>sv. for_server c' (us_id sv)) targets))"
    by (simp add: catalog_all_def c' rebuild_index_reference [OF kept r(2,3)] comp_def)
  moreover have "for_server c' (us_id sv) = for_server c (us_id sv)"
    if "sv \<in> set targets" "listing (us_id sv) = Inl cause" for sv cause
  proof -
    have "find (\<lambda>x. us_id x = us_id sv) arrivals = Some sv" using that(1) r(5,6) by (intro find_unique) auto
    then have "get_prop K (us_id sv) = get_prop ?created (us_id sv)"
      using that by (simp add: K get_filter_live arrivals_get [OF r(5) arr] refresh_server_def option.map_ident)
    then show ?thesis using that(1) by (auto simp: for_server_def c' created_get split: option.splits)
  qed
  ultimately show ?thesis by (auto simp: isl_def)
qed

lemma index_entries_from:
  assumes "catalog_reachable sha cfg scanner cfgs c" "round_ok cfgs targets arrivals"
    and "refresh_once sha cfg scanner targets arrivals listing c = (Inr result, c')"
  shows "set (catalog_all c') \<subseteq> set (concat (map (\<lambda>sv. for_server c' (us_id sv)) targets))"
proof -
  from refresh_reference [OF assms]
  have "catalog_all c' = take (cg_maxTools cfg) (concat (map (\<lambda>sv. for_server c' (us_id sv)) targets))" by (rule conjunct1)
  then show ?thesis by (metis set_take_subset)
qed

text \<open>Only tools of servers that may be dialled are advertised.\<close>

lemma advertised_dialable:
  assumes "catalog_reachable sha cfg scanner cfgs c" "round_ok cfgs (map uc_server (registry_dialable reg)) arrivals"
    and "catalog_refresh sha cfg scanner reg arrivals listing c = (Inr result, c')" "catalog_get c' q = Some e"
  shows "\<exists>cl \<in> set (registry_dialable reg). us_id (uc_server cl) = ct_serverId e"
proof -
  let ?t = "map uc_server (registry_dialable reg)"
  have run: "refresh_once sha cfg scanner ?t arrivals listing c = (Inr result, c')"
    using assms(3) by (simp add: catalog_refresh_def)
  have reach: "catalog_reachable sha cfg scanner cfgs c'"
    using catalog_round [OF assms(1,2), of listing] by (simp add: run)
  from assms(4) have "e \<in> set (catalog_all c')" by (force simp: catalog_get_def catalog_all_def dest: map_of_SomeD)
  with index_entries_from [OF assms(1,2) run] have "e \<in> set (concat (map (\<lambda>sv. for_server c' (us_id sv)) ?t))" by blast
  then obtain sv where sv: "sv \<in> set ?t" "e \<in> set (for_server c' (us_id sv))" by auto
  have "sv \<in> set cfgs" using round_okD(2) [OF assms(2)] sv(1) by blast
  with listed_one(2) [of sha cfg cfgs "cat_servers c'" sv e] reachable_inv [OF reach] sv
  show ?thesis by (auto simp: catalog_inv_def for_server_def listed_entries_def)
qed

section \<open>Properties\<close>

text \<open>
  C24: whatever upstreams list over any sequence of refreshes, a name resolves only to a tool whose
  server is configured, whose name parses back to that server and tool, which the server's allow list
  admits, whose definition is within the size bound and hashes to the recorded digest; and the catalog
  never holds more tools than the cap.
\<close>

theorem catalog_entries_sound:
  assumes "catalog_reachable sha cfg scanner cfgs c" "catalog_get c q = Some e"
  shows "catalog_size c \<le> cg_maxTools cfg \<and> (\<exists>sv \<in> set cfgs. us_id sv = ct_serverId e
      \<and> parse_qualified_tool_name q = Some (us_id sv, ct_toolName e)
      \<and> tool_name_of (en_definition e) = ct_toolName e
      \<and> (case us_allowTools sv of None \<Rightarrow> True | Some allowed \<Rightarrow> ct_toolName e \<in> set allowed)
      \<and> measure_tool sha cfg (en_definition e) = Inr (en_definitionDigest e))"
  using get_indexed [OF assms] reachable_inv [OF assms(1)]
  by (auto simp: indexed_ok_def entry_ok_def catalog_inv_def catalog_size_def tool_names.qual_parse_iff)

definition sample_tool :: listed_tool where
  "sample_tool = [(js ''name'', JString (js ''read''))]"

definition sample_listing :: "jstring \<Rightarrow> exn + listed_tool list" where
  "sample_listing = (\<lambda>_. Inr [sample_tool])"

definition sample_catalog :: tool_catalog where
  "sample_catalog = snd (refresh_once (take 2) default_catalog None [sample_server Trusted] [sample_server Trusted]
     sample_listing empty_catalog)"

lemma sample_round: "round_ok [sample_server Trusted] [sample_server Trusted] [sample_server Trusted]"
  by (simp add: round_ok_def)

lemma sample_reachable:
  "catalog_reachable (take 2) default_catalog None [sample_server Trusted] sample_catalog"
  unfolding sample_catalog_def by (rule catalog_round [OF catalog_start sample_round])

lemma length_code_points: "length (code_points s) \<le> length s"
  by (induction s rule: code_points.induct) auto

lemma length_concat_le: "(\<And>x. x \<in> set xs \<Longrightarrow> length (f x) \<le> k) \<Longrightarrow> length (concat (map f xs)) \<le> k * length xs"
proof (induction xs)
  case (Cons x xs)
  then have "length (f x) \<le> k" "length (concat (map f xs)) \<le> k * length xs" by auto
  then show ?case by simp
qed simp

lemma byte_length_le: "byte_length s \<le> 4 * length s"
proof -
  have "length (utf8 s) \<le> 4 * length (code_points s)"
    unfolding utf8_def by (rule length_concat_le) (simp add: utf8_cp_def)
  with length_code_points [of s] show ?thesis by (simp add: byte_length_def)
qed

lemma length_json_quote: "length (json_quote s) \<le> 6 * length s + 2"
proof -
  have "length (concat (map esc_cp (code_points s))) \<le> 6 * length (code_points s)"
    by (rule length_concat_le) (simp add: esc_cp_def hex4_def utf16_def)
  with length_code_points [of s] show ?thesis by (simp add: json_quote_def)
qed

lemma sample_measure: "\<exists>d. measure_tool (take 2) default_catalog sample_tool = Inr d"
proof -
  let ?t = "bracketed 123 [json_quote (js ''name'') @ 58 # json_quote (js ''read'')] 125"
  have "canonicalize (JObject sample_tool) = Inr ?t" by (simp add: sample_tool_def omitted_def)
  moreover have "length ?t \<le> 100"
    using length_json_quote [of "js ''name''"] length_json_quote [of "js ''read''"] by (simp add: bracketed_def)
  then have "byte_length ?t \<le> 65536" using byte_length_le [of ?t] by linarith
  ultimately show ?thesis by (simp add: measure_tool_def default_catalog_def)
qed

lemma sample_name [simp]: "is_valid_tool_name (js ''read'')" "is_valid_server_id (js ''files'')"
  by (simp_all add: is_valid_tool_name_def is_valid_server_id_def js_def char_class_defs)

definition sample_entry :: "jstring \<Rightarrow> catalog_entry" where
  "sample_entry d = \<lparr>ct_qualifiedName = js ''files__read'', ct_serverId = js ''files'', ct_toolName = js ''read'',
     ct_scan = None, en_definition = sample_tool, en_definitionDigest = d\<rparr>"

lemma sample_catalog_eq:
  obtains d where "sample_catalog = \<lparr>cat_servers = [(js ''files'', \<lparr>st_entries = [(js ''read'', sample_entry d)],
      st_baseline = [(js ''read'', d)]\<rparr>)], cat_index = [(js ''files__read'', sample_entry d)]\<rparr>"
proof -
  obtain d where d: "measure_tool (take 2) default_catalog sample_tool = Inr d" using sample_measure by blast
  have q: "qualify_tool_name (js ''files'') (js ''read'') = Inr (js ''files__read'')"
    using sample_name by (simp add: qualify_tool_name_def qualify_Inr_iff) (simp add: js_def)
  have n: "tool_name_of sample_tool = js ''read''" by (simp add: tool_name_of_def sample_tool_def)
  have caps: "cg_maxToolsPerServer default_catalog = 256" "cg_maxTools default_catalog = 1024"
    by (simp_all add: default_catalog_def)
  show thesis
    by (rule that [of d])
       (simp add: sample_catalog_def refresh_once_def empty_catalog_def sample_server_def state_for_def
         sample_listing_def refresh_server_def catalog_tool_def d q n caps accept_tool_def sample_entry_def Let_def)
qed

lemma sample_get: "\<exists>d. catalog_get sample_catalog (js ''files__read'') = Some (sample_entry d)"
proof -
  obtain d where d: "sample_catalog = \<lparr>cat_servers = [(js ''files'', \<lparr>st_entries = [(js ''read'', sample_entry d)],
      st_baseline = [(js ''read'', d)]\<rparr>)], cat_index = [(js ''files__read'', sample_entry d)]\<rparr>" by (rule sample_catalog_eq)
  show ?thesis unfolding d by (auto simp: catalog_get_def)
qed

lemma catalog_entries_sound_witness:
  "\<exists>e. catalog_get sample_catalog (js ''files__read'') = Some e \<and> catalog_size sample_catalog \<le> 1024
     \<and> parse_qualified_tool_name (js ''files__read'') = Some (js ''files'', js ''read'')"
proof -
  obtain d where g: "catalog_get sample_catalog (js ''files__read'') = Some (sample_entry d)" using sample_get by blast
  with catalog_entries_sound [OF sample_reachable g] show ?thesis
    by (simp add: default_catalog_def sample_server_def sample_entry_def)
qed

text \<open>Two measured definitions of one digest are the same data, or an explicit collision of the hash function.\<close>

lemma measured_alike:
  assumes "measure_tool sha cfg v = Inr d" and "measure_tool sha cfg w = Inr d"
  shows "\<exists>t u. canonicalize (JObject v) = Inr t \<and> canonicalize (JObject w) = Inr u
    \<and> (collision sha (utf8 t) (utf8 u) \<or> t = u \<and> (wf_value (JObject v) \<and> wf_value (JObject w)
         \<longrightarrow> normal (JObject v) = normal (JObject w)))"
proof -
  obtain t u where c: "canonicalize (JObject v) = Inr t" "canonicalize (JObject w) = Inr u"
    and h: "sha256_hex sha t = sha256_hex sha u"
    using assms by (auto simp: measure_tool_def split: sum.splits if_splits)
  from sha256_hex_inject [OF c [THEN well_formed_canonical] h] canonicalize_normal [OF _ _ c] c show ?thesis by blast
qed

text \<open>
  C25: against the rug pull, in the default mode: the definition an agent can see under a name never
  changes. Over any number of further refreshes, failed, partial and hostile listings included, as long as
  the server is among the targets of each, the digest advertised under a name is the digest first
  advertised under it; and the two definitions have one canonical text, so that as JSON data they are equal
  up to the order of keys, or their canonical texts are a collision of the hash function.
\<close>

theorem advertised_definition_pinned:
  assumes "catalog_reachable sha cfg scanner cfgs c" "cg_onDefinitionDrift cfg = DriftWithhold"
    and "catalog_get c q = Some e" "us_id sv = ct_serverId e"
    and "list_all (\<lambda>(t, a, _). round_ok cfgs t a \<and> sv \<in> set t) rounds"
    and "catalog_get (refresh_rounds sha cfg scanner rounds c) q = Some e'"
  shows "en_definitionDigest e' = en_definitionDigest e
    \<and> (\<exists>t u. canonicalize (JObject (en_definition e)) = Inr t \<and> canonicalize (JObject (en_definition e')) = Inr u
         \<and> (collision sha (utf8 t) (utf8 u)
            \<or> t = u \<and> (wf_value (JObject (en_definition e)) \<and> wf_value (JObject (en_definition e'))
                 \<longrightarrow> normal (JObject (en_definition e)) = normal (JObject (en_definition e')))))"
proof -
  let ?c = "refresh_rounds sha cfg scanner rounds c"
  have "list_all (\<lambda>(t, a, _). round_ok cfgs t a) rounds" using assms(5) by (auto simp: list_all_iff)
  then have reach: "catalog_reachable sha cfg scanner cfgs ?c" by (rule rounds_reachable [OF assms(1)])
  have pin: "baseline_of c' (ct_serverId x) (ct_toolName x) = Some (en_definitionDigest x)
      \<and> parse_qualified_tool_name q = Some (ct_serverId x, ct_toolName x)
      \<and> measure_tool sha cfg (en_definition x) = Inr (en_definitionDigest x)"
    if "catalog_reachable sha cfg scanner cfgs c'" "catalog_get c' q = Some x" for c' x
    using get_indexed [OF that] assms(2)
    by (auto simp: indexed_ok_def entry_ok_def baseline_of_def tool_names.qual_parse_iff)
  from pin [OF assms(1,3)] pin [OF reach assms(6)]
  have "ct_serverId e' = us_id sv" "ct_toolName e' = ct_toolName e" using assms(4) by auto
  moreover have "baseline_of ?c (us_id sv) (ct_toolName e) = Some (en_definitionDigest e)"
    by (rule baseline_rounds [OF assms(1,5,2)]) (use pin [OF assms(1,3)] assms(4) in simp)
  ultimately have d: "en_definitionDigest e' = en_definitionDigest e" using pin [OF reach assms(6)] by simp
  with measured_alike [of sha cfg "en_definition e" _ "en_definition e'"] pin [OF assms(1,3)] pin [OF reach assms(6)]
  show ?thesis by simp
qed

lemma sample_pinned:
  "\<exists>d. catalog_get sample_catalog (js ''files__read'') = Some (sample_entry d)
     \<and> catalog_get (refresh_rounds (take 2) default_catalog None
         [([sample_server Trusted], [sample_server Trusted], \<lambda>_. Inl TypeError)] sample_catalog) (js ''files__read'')
       = Some (sample_entry d)"
proof -
  obtain d where d: "sample_catalog = \<lparr>cat_servers = [(js ''files'', \<lparr>st_entries = [(js ''read'', sample_entry d)],
      st_baseline = [(js ''read'', d)]\<rparr>)], cat_index = [(js ''files__read'', sample_entry d)]\<rparr>" by (rule sample_catalog_eq)
  have i: "us_id (sample_server Trusted) = js ''files''" "ct_qualifiedName (sample_entry d) = js ''files__read''"
    "cg_maxTools default_catalog = 1024"
    by (simp_all add: sample_server_def sample_entry_def default_catalog_def)
  show ?thesis unfolding d by (auto simp: catalog_get_def refresh_once_def state_for_def refresh_server_def i Let_def)
qed

lemma advertised_definition_pinned_witness:
  "\<exists>e e'. catalog_get sample_catalog (js ''files__read'') = Some e
     \<and> catalog_get (refresh_rounds (take 2) default_catalog None
         [([sample_server Trusted], [sample_server Trusted], \<lambda>_. Inl TypeError)] sample_catalog) (js ''files__read'') = Some e'
     \<and> en_definitionDigest e' = en_definitionDigest e"
proof -
  let ?r = "[([sample_server Trusted], [sample_server Trusted], \<lambda>_ :: jstring. Inl TypeError :: exn + listed_tool list)]"
  obtain d where d: "catalog_get sample_catalog (js ''files__read'') = Some (sample_entry d)"
    "catalog_get (refresh_rounds (take 2) default_catalog None ?r sample_catalog) (js ''files__read'') = Some (sample_entry d)"
    using sample_pinned by blast
  have "us_id (sample_server Trusted) = ct_serverId (sample_entry d)"
    "cg_onDefinitionDrift default_catalog = DriftWithhold"
    by (simp_all add: sample_server_def sample_entry_def default_catalog_def)
  from advertised_definition_pinned [OF sample_reachable this(2) d(1) this(1) _ d(2)] d sample_round show ?thesis by auto
qed

text \<open>What the servers reported, as one multiset whatever the order they answered in.\<close>

lemma mset_concat_map: "mset xs = mset ys \<Longrightarrow> mset (concat (map f xs)) = mset (concat (map f ys))"
  by (simp only: mset_concat map_map [symmetric] mset_map) (metis mset_map sum_mset_sum_list)

lemma ok_values_keys: "subseq (map fst (ok_values xs)) (map fst xs)"
  by (induction xs) (auto simp: ok_values_def split: sum.splits)

lemma one_key:
  assumes "distinct (map fst xs)" and "mset xs = mset ys"
  shows "filter (\<lambda>(i, _). i = k) xs = filter (\<lambda>(i, _). i = k) ys"
proof -
  have "length (filter (\<lambda>(i, _). i = k) xs) \<le> 1" using assms(1)
    by (induction xs) (auto simp: filter_empty_conv rev_image_eqI)
  moreover have "mset (filter (\<lambda>(i, _). i = k) xs) = mset (filter (\<lambda>(i, _). i = k) ys)" using assms(2) by simp
  ultimately show ?thesis
    by (cases "filter (\<lambda>(i, _). i = k) xs"; cases "filter (\<lambda>(i, _). i = k) ys") auto
qed

lemma answers_alike:
  assumes "round_ok cfgs targets arrivals" and "mset arrivals' = mset arrivals"
    and "refresh_arrivals sha cfg scanner listing arrivals m = (outs, m1)"
    and "refresh_arrivals sha cfg scanner listing arrivals' m = (outs', m2)"
  shows "mset outs = mset outs' \<and> distinct (map fst (ok_values outs))"
proof -
  have r': "round_ok cfgs targets arrivals'" using assms(1,2) by (simp add: round_ok_def)
  note d = round_okD(5) [OF assms(1)] round_okD(5) [OF r']
  note outs = arrivals_out [OF d(1) assms(3)] arrivals_out [OF d(2) assms(4)]
  have "subseq (map fst (concat (map (answer_of sha cfg scanner listing m) xs))) (map us_id xs)" for xs
    by (induction xs) (auto simp: answer_of_def split: option.splits)
  then have "subseq (map fst (ok_values outs)) (map us_id arrivals)"
    using ok_values_keys [of outs] unfolding outs(1) by (meson subseq_order.trans)
  with d(1) have "distinct (map fst (ok_values outs))" by (metis subseq_distinct)
  moreover have "mset outs = mset outs'" unfolding outs by (rule mset_concat_map) (use assms(2) in simp)
  ultimately show ?thesis by simp
qed


text \<open>
  The index is exactly its reference definition: the entries of the dialable servers in
  configuration order and then listed order, cut at the global cap, so a server listed later never
  displaces one listed earlier; and a server whose listing failed keeps the entries it had.
\<close>

theorem index_is_configuration_prefix:
  assumes "catalog_reachable sha cfg scanner cfgs c" "round_ok cfgs targets arrivals"
    and "refresh_once sha cfg scanner targets arrivals listing c = (Inr result, c')"
  shows "catalog_all c' = take (cg_maxTools cfg) (concat (map (\<lambda>sv. for_server c' (us_id sv)) targets))
    \<and> (\<forall>sv \<in> set targets. isl (listing (us_id sv)) \<longrightarrow> for_server c' (us_id sv) = for_server c (us_id sv))"
  by (rule refresh_reference [OF assms])

lemma index_is_configuration_prefix_witness:
  "\<exists>r c'. refresh_once (take 2) default_catalog None [sample_server Trusted] [sample_server Trusted]
       (\<lambda>_. Inl TypeError) sample_catalog = (Inr r, c') \<and> for_server c' (js ''files'') = for_server sample_catalog (js ''files'')"
proof -
  obtain d where d: "sample_catalog = \<lparr>cat_servers = [(js ''files'', \<lparr>st_entries = [(js ''read'', sample_entry d)],
      st_baseline = [(js ''read'', d)]\<rparr>)], cat_index = [(js ''files__read'', sample_entry d)]\<rparr>" by (rule sample_catalog_eq)
  have i: "us_id (sample_server Trusted) = js ''files''" by (simp add: sample_server_def)
  have "\<exists>r c'. refresh_once (take 2) default_catalog None [sample_server Trusted] [sample_server Trusted]
       (\<lambda>_. Inl TypeError) sample_catalog = (Inr r, c')"
    unfolding d by (auto simp: refresh_once_def state_for_def refresh_server_def i Let_def)
  then obtain r c' where run: "refresh_once (take 2) default_catalog None [sample_server Trusted] [sample_server Trusted]
       (\<lambda>_. Inl TypeError) sample_catalog = (Inr r, c')" by blast
  from index_is_configuration_prefix [OF sample_reachable sample_round this] i run show ?thesis by auto
qed


end
