(* ===== verification/OwnTools.thy ===== *)
theory OwnTools
  imports Catalog
begin

text \<open>
  The gateway's own tools, \<open>apps/gateway/src/server/sentinel-tools.ts\<close>: their names, and the definitions
  \<open>tools/list\<close> appends to those of the catalog.
\<close>

definition sentinel_tool_names :: "jstring list" where
  "sentinel_tool_names = map js [''sentinel__explain_decision'', ''sentinel__query_audit_log'',
     ''sentinel__list_active_policies'', ''sentinel__verify_audit_chain'', ''sentinel__approve_request'']"

definition is_sentinel_own_tool :: "jstring \<Rightarrow> bool" where
  "is_sentinel_own_tool name = (name \<in> set sentinel_tool_names)"

definition own_tool :: "string \<Rightarrow> jstring \<Rightarrow> jvalue props \<Rightarrow> string list \<Rightarrow> listed_tool" where
  "own_tool name description properties required =
     [(js ''name'', JString (js name)), (js ''description'', JString description),
      (js ''inputSchema'', JObject [(js ''type'', JString (js ''object'')), (js ''properties'', JObject properties),
        (js ''required'', JArray (map (\<lambda>r. JString (js r)) required)),
        (js ''additionalProperties'', JBool False)])]"

definition explain_decision_tool :: listed_tool where
  "explain_decision_tool = own_tool ''sentinel__explain_decision''
     (js ''Explain why a past gateway decision was made. Returns the Cedar policies that ''
      @ js ''determined the outcome, the obligation they carried, the risk score if one was ''
      @ js ''computed, and whether human approval was involved. Use this when a call was denied ''
      @ js ''or held and you need to understand why.'')
     [(js ''decisionId'', JObject [(js ''type'', JString (js ''string'')),
          (js ''description'', JString (js ''The dec_<ULID> identifier from the JSON-RPC error data, or from query_audit_log.''))])]
     [''decisionId'']"

definition query_audit_log_tool :: listed_tool where
  "query_audit_log_tool = own_tool ''sentinel__query_audit_log''
     (js ''Query the hash-chained audit trail. Returns decision records matching the given ''
      @ js ''filters, ordered newest-first. Arguments are present in redacted form only '' @ 0x2014 # js '' values ''
      @ js ''are replaced with a keyed HMAC placeholder. Use explain_decision for the full story ''
      @ js ''of a single decision.'')
     [(js ''agentId'', JObject [(js ''type'', JString (js ''string'')),
          (js ''description'', JString (js ''Filter to decisions made for this agent id.''))]),
      (js ''serverId'', JObject [(js ''type'', JString (js ''string'')),
          (js ''description'', JString (js ''Filter to decisions involving this upstream server id.''))]),
      (js ''verdict'', JObject [(js ''type'', JString (js ''string'')),
          (js ''enum'', JArray [JString (js ''allow''), JString (js ''deny''), JString (js ''pending_approval'')]),
          (js ''description'', JString (js ''Filter to decisions with this verdict.''))]),
      (js ''since'', JObject [(js ''type'', JString (js ''string'')),
          (js ''description'', JString (js ''ISO-8601 timestamp; only decisions at or after this time.''))]),
      (js ''until'', JObject [(js ''type'', JString (js ''string'')),
          (js ''description'', JString (js ''ISO-8601 timestamp; only decisions before this time.''))]),
      (js ''limit'', JObject [(js ''type'', JString (js ''integer'')),
          (js ''minimum'', j_nat 1),
          (js ''maximum'', j_nat 200),
          (js ''default'', j_nat 50),
          (js ''description'', JString (js ''Maximum number of records to return.''))])]
     []"

definition list_active_policies_tool :: listed_tool where
  "list_active_policies_tool = own_tool ''sentinel__list_active_policies''
     (js ''List the Cedar policies currently loaded by the gateway, with their ids, ''
      @ js ''obligations and a human-readable summary. Use this to understand what rules govern ''
      @ js ''a call before making it, or to explain an unexpected denial.'')
     [(js ''file'', JObject [(js ''type'', JString (js ''string'')),
          (js ''description'', JString (js ''If provided, show only policies from this policy file (e.g. \"20-filesystem.cedar\").''))])]
     []"

definition verify_audit_chain_tool :: listed_tool where
  "verify_audit_chain_tool = own_tool ''sentinel__verify_audit_chain''
     (js ''Run the standalone audit-chain verifier over a range of the log and return the ''
      @ js ''result. A passing result means no row in the range has been tampered with since it ''
      @ js ''was written. A failing result names the first broken link. Remember: the property ''
      @ js ''is tamper-evidence, not tamper-proofing '' @ 0x2014 # js '' an attacker who can write every copy can ''
      @ js ''forge a consistent chain.'')
     [(js ''fromSeq'', JObject [(js ''type'', JString (js ''integer'')),
          (js ''minimum'', j_nat 1),
          (js ''description'', JString (js ''First sequence number to verify (inclusive). Defaults to the beginning.''))]),
      (js ''toSeq'', JObject [(js ''type'', JString (js ''integer'')),
          (js ''minimum'', j_nat 1),
          (js ''description'', JString (js ''Last sequence number to verify (inclusive). Defaults to the latest.''))])]
     []"

definition approve_request_tool :: listed_tool where
  "approve_request_tool = own_tool ''sentinel__approve_request''
     (js ''Approve or deny a pending approval request using a one-time signed token. The token ''
      @ js ''is delivered to the human operator through the notification channel and is never ''
      @ js ''returned to the agent '' @ 0x2014 # js '' this is intentional. An agent that calls this tool without ''
      @ js ''a valid token will receive an error; prompt injection cannot self-authorise through ''
      @ js ''here because the token is not in any response the agent has ever seen.'')
     [(js ''token'', JObject [(js ''type'', JString (js ''string'')),
          (js ''description'', JString (js ''The HMAC-signed one-time token from the approval notification. ''
            @ js ''Encodes the approval id, outcome and expiry; verified server-side ''
            @ js ''with a constant-time compare.''))])]
     [''token'']"

definition sentinel_tool_definitions :: "listed_tool list" where
  "sentinel_tool_definitions = [explain_decision_tool, query_audit_log_tool, list_active_policies_tool,
     verify_audit_chain_tool, approve_request_tool]"

lemma own_definition_names: "map tool_name_of sentinel_tool_definitions = sentinel_tool_names"
  by (simp add: sentinel_tool_definitions_def sentinel_tool_names_def tool_name_of_def own_tool_def
      explain_decision_tool_def query_audit_log_tool_def list_active_policies_tool_def
      verify_audit_chain_tool_def approve_request_tool_def)

lemma own_names_reserved: "is_sentinel_own_tool n \<Longrightarrow> starts_with n (js ''sentinel__'')"
  by (auto simp: is_sentinel_own_tool_def sentinel_tool_names_def starts_with_def js_simps)

end
