(* ===== verification/Meta.thy ===== *)
theory Meta
  imports Values
begin

text \<open>
  \<open>stripReservedMeta\<close> of \<open>packages/mcp-core/src/meta.ts\<close>: which keys of an inbound \<open>_meta\<close> reach an
  upstream.
\<close>

definition reserved_meta_prefix :: jstring where
  "reserved_meta_prefix = js ''io.modelcontextprotocol/''"

definition reserved_key :: "jstring \<Rightarrow> bool" where
  "reserved_key k = starts_with k reserved_meta_prefix"

fun strip_entries :: "jvalue props \<Rightarrow> jvalue props \<Rightarrow> jstring list \<Rightarrow> jvalue props \<times> jstring list" where
  "strip_entries [] kept stripped = (kept, stripped)"
| "strip_entries ((key, value) # r) kept stripped =
     (if starts_with key reserved_meta_prefix then strip_entries r kept (stripped @ [key])
      else strip_entries r (js_assign key value kept) stripped)"

definition strip_reserved_meta :: "jvalue option \<Rightarrow> jvalue props option \<times> jstring list" where
  "strip_reserved_meta meta =
     (case meta of
        Some (JObject m) \<Rightarrow>
          let (kept, stripped) = strip_entries m [] []
          in (if length kept = 0 then None else Some kept, stripped)
      | _ \<Rightarrow> (None, []))"

definition relayed :: "jvalue props \<Rightarrow> jvalue props" where
  "relayed m = filter (\<lambda>(k, v). \<not> reserved_key k \<and> k \<noteq> js ''__proto__'') m"

lemma strip_entries_eq:
  "distinct (map fst (kept @ m)) \<Longrightarrow>
    strip_entries m kept stripped = (kept @ relayed m, stripped @ filter reserved_key (map fst m))"
proof (induction m kept stripped rule: strip_entries.induct)
  case (2 key v r kept stripped)
  from 2(3) have n: "key \<notin> fst ` set kept" "distinct (map fst (kept @ r))" "key \<notin> fst ` set r" by auto
  show ?case
  proof (cases "starts_with key reserved_meta_prefix")
    case True
    with 2(1) n show ?thesis by (simp add: relayed_def reserved_key_def)
  next
    case False
    have "distinct (map fst (js_assign key v kept @ r))"
      using n by (auto simp: js_assign_def put_new)
    with 2(2) [OF False] False n show ?thesis
      by (simp add: relayed_def reserved_key_def js_assign_def put_new)
  qed
qed (simp add: relayed_def)

lemma strip_reserved_meta_eq:
  "wf_props m \<Longrightarrow> strip_reserved_meta (Some (JObject m)) =
    (if relayed m = [] then None else Some (relayed m), filter reserved_key (map fst m))"
  using strip_entries_eq [of "[]" m "[]"] by (simp add: strip_reserved_meta_def wf_props_def)

text \<open>
  What reaches the upstream under \<open>_meta\<close> is exactly what the agent sent outside the reserved
  prefix, in order and untouched (\<open>__proto__\<close> aside), and the keys reported as stripped are
  exactly the reserved ones. An empty remainder is dropped.
\<close>

theorem strip_reserved_meta_exact:
  assumes "wf_props m"
  shows "strip_reserved_meta (Some (JObject m)) =
    (if filter (\<lambda>(k, v). \<not> reserved_key k \<and> k \<noteq> js ''__proto__'') m = [] then None
     else Some (filter (\<lambda>(k, v). \<not> reserved_key k \<and> k \<noteq> js ''__proto__'') m),
     filter reserved_key (map fst m))"
  using strip_reserved_meta_eq [OF assms] by (simp add: relayed_def)

lemma strip_reserved_meta_exact_witness:
  "strip_reserved_meta (Some (JObject
     [(js ''traceparent'', JNull), (js ''io.modelcontextprotocol/clientInfo'', JBool True)]))
   = (Some [(js ''traceparent'', JNull)], [js ''io.modelcontextprotocol/clientInfo''])"
  by (subst strip_reserved_meta_exact)
     (simp_all add: wf_props_def js_def reserved_key_def starts_with_def reserved_meta_prefix_def)

end
