(* ===== verification/Forward.thy ===== *)
theory Forward
  imports Catalog Headers Meta
begin

text \<open>
  Forwarding: \<open>apps/gateway/src/forward/route.ts\<close> resolves a request to an upstream or refuses it,
  \<open>forwarder.ts\<close> sends it and measures the answer, \<open>discover.ts\<close> says what the gateway serves. The SDK's
  verbs are a parameter: a function from the request it is given to what it throws or answers.
\<close>

section \<open>Routing\<close>

definition forward_methods :: "jstring list" where
  "forward_methods = [js_tools_call, js_resources_read, js_prompts_get]"

definition discover_method :: jstring where
  "discover_method = js ''server/discover''"

definition is_forward_method :: "jstring \<Rightarrow> bool" where
  "is_forward_method m = (m \<in> set forward_methods)"

definition target_kind :: "jstring \<Rightarrow> name_kind" where
  "target_kind m = (if m = js_tools_call then KTool else if m = js_resources_read then KResource else KPrompt)"

record forward_target =
  ft_method :: jstring
  ft_kind :: name_kind
  ft_serverId :: jstring
  ft_qualifiedName :: jstring
  ft_upstreamName :: jstring
  ft_params :: "jvalue props"
  ft_entry :: "catalog_entry option"
  ft_argsDigest :: jstring
  ft_paramsBytes :: nat
  ft_strippedMetaKeys :: "jstring list"
  ft_expectedOutboundMetadata :: "jstring props"

datatype route = ForwardRoute forward_target | DiscoverRoute

record inbound_request =
  ir_method :: "jvalue option"
  ir_params :: "jvalue option"

definition plain_object :: "jvalue option \<Rightarrow> jvalue props option" where
  "plain_object v = (case v of Some (JObject kvs) \<Rightarrow> Some kvs | _ \<Rightarrow> None)"

definition measure_params ::
    "hash_fun \<Rightarrow> forward_settings \<Rightarrow> jvalue props \<Rightarrow> exn + jstring \<times> nat" where
  "measure_params sha cfg params = (case canonicalize (JObject params) of
      Inl _ \<Rightarrow> Inl (SentinelError (malformed_params_error (js ''params could not be canonicalised for auditing'')))
    | Inr canonical \<Rightarrow>
        let bytes = byte_length canonical in
        if bytes > fw_maxArgumentBytes cfg
        then Inl (SentinelError (request_too_large_error (js ''request params'') bytes (fw_maxArgumentBytes cfg)))
        else Inr (sha256_hex sha canonical, bytes))"

definition require_dialable :: "upstream_registry \<Rightarrow> jstring \<Rightarrow> jstring \<Rightarrow> name_kind \<Rightarrow> exn + unit" where
  "require_dialable reg serverId qualifiedName kind =
     (case registry_get reg serverId of
        Some c \<Rightarrow> if client_dialable c then Inr () else Inl (SentinelError (unknown_tool_error qualifiedName kind))
      | None \<Rightarrow> Inl (SentinelError (unknown_tool_error qualifiedName kind)))"

record gateway_view =
  gv_catalog :: tool_catalog
  gv_registry :: upstream_registry

definition resolve_target ::
    "forward_settings \<Rightarrow> gateway_view \<Rightarrow> jstring \<Rightarrow> name_kind \<Rightarrow> jstring
      \<Rightarrow> exn + jstring \<times> jstring \<times> catalog_entry option" where
  "resolve_target cfg gw m kind q =
     (let unknown = Inl (SentinelError (unknown_tool_error q kind)) in
      if m = js_tools_call then
        (case catalog_get (gv_catalog gw) q of
           None \<Rightarrow> unknown
         | Some e \<Rightarrow> bind_r (require_dialable (gv_registry gw) (ct_serverId e) q kind)
             (\<lambda>_. Inr (ct_serverId e, ct_toolName e, Some e)))
      else if m = js_resources_read then
        let uriBytes = byte_length q in
        if uriBytes > fw_maxResourceUriBytes cfg
        then Inl (SentinelError (request_too_large_error (js ''resource uri'') uriBytes (fw_maxResourceUriBytes cfg)))
        else bind_r (parse_qualified_resource_uri q) (\<lambda>parsed. case parsed of
            None \<Rightarrow> unknown
          | Some (serverId, uri) \<Rightarrow> bind_r (require_dialable (gv_registry gw) serverId q kind)
              (\<lambda>_. Inr (serverId, uri, None)))
      else (case parse_qualified_prompt_name q of
            None \<Rightarrow> unknown
          | Some (serverId, promptName) \<Rightarrow> bind_r (require_dialable (gv_registry gw) serverId q kind)
              (\<lambda>_. Inr (serverId, promptName, None))))"

text \<open>\<open>{ ...params }\<close> with the name rewritten and \<open>_meta\<close> replaced or removed.\<close>

definition forwarded_params :: "jvalue props \<Rightarrow> jstring \<Rightarrow> jstring \<Rightarrow> jvalue props option \<Rightarrow> jvalue props" where
  "forwarded_params params sourceField upstreamName meta =
     (let p = put_prop sourceField (JString upstreamName) params in
      case meta of None \<Rightarrow> del_prop (js ''_meta'') p | Some m \<Rightarrow> put_prop (js ''_meta'') (JObject m) p)"

definition route_request ::
    "hash_fun \<Rightarrow> forward_settings \<Rightarrow> gateway_view \<Rightarrow> request_metadata \<Rightarrow> inbound_request \<Rightarrow> exn + route" where
  "route_request sha cfg gw md request =
     (let params = plain_object (ir_params request) in
      bind_r (assert_header_matches_body md (ir_method request) params) (\<lambda>meth.
      if meth = discover_method then Inr DiscoverRoute
      else if \<not> is_forward_method meth then Inl (SentinelError (method_not_found_error meth))
      else case (params, mcp_name_source_field meth) of
          (Some ps, Some sourceField) \<Rightarrow>
            bind_r (measure_params sha cfg ps) (\<lambda>(digest, bytes).
            let kind = target_kind meth;
                qualifiedName = (case as_string (get_prop ps sourceField) of Some s \<Rightarrow> s | None \<Rightarrow> [])
            in bind_r (resolve_target cfg gw meth kind qualifiedName) (\<lambda>(serverId, upstreamName, entry).
               let (meta, stripped) = strip_reserved_meta (get_prop ps (js ''_meta''));
                   fparams = forwarded_params ps sourceField upstreamName meta
               in bind_r (assert_outbound meth upstreamName fparams) (\<lambda>_.
                  Inr (ForwardRoute \<lparr>ft_method = meth, ft_kind = kind, ft_serverId = serverId,
                    ft_qualifiedName = qualifiedName, ft_upstreamName = upstreamName, ft_params = fparams,
                    ft_entry = entry, ft_argsDigest = digest, ft_paramsBytes = bytes,
                    ft_strippedMetaKeys = stripped,
                    ft_expectedOutboundMetadata = build_request_metadata_headers meth (Some upstreamName)\<rparr>))))
        | _ \<Rightarrow> Inl (SentinelError (malformed_params_error (meth @ js '' requires a name'')))))"

section \<open>Executing\<close>

text \<open>What the SDK is asked to do; every verb runs with \<open>allowInputRequired\<close>.\<close>

datatype sdk_request =
    CallToolRequest "jvalue props" "listed_tool option"
  | ReadResourceRequest "jvalue props" bool
  | GetPromptRequest "jvalue props"

definition required_capability :: "jstring \<Rightarrow> jstring" where
  "required_capability m = (if m = js_tools_call then js ''tools''
     else if m = js_resources_read then js ''resources'' else js ''prompts'')"

text \<open>One of the gateway's own errors, as the code that inspects thrown values sees it.\<close>

definition sentinel_failure :: "sentinel_error \<Rightarrow> failure" where
  "sentinel_failure e = \<lparr>fl_kind = ErrorFailure, fl_code = NumberCode (num_of_int (se_code e)),
     fl_name = se_name e, fl_thrown = SentinelError e\<rparr>"

definition require_capability :: "jvalue props option \<Rightarrow> forward_target \<Rightarrow> failure + unit" where
  "require_capability capabilities t =
     (case Option.bind capabilities (\<lambda>c. get_prop c (required_capability (ft_method t))) of
        Some _ \<Rightarrow> Inr ()
      | None \<Rightarrow> Inl (sentinel_failure (unknown_tool_error (ft_qualifiedName t) (ft_kind t))))"

definition sdk_request_of :: "forward_target \<Rightarrow> sdk_request" where
  "sdk_request_of t = (if ft_method t = js_tools_call
       then CallToolRequest (ft_params t) (map_option en_definition (ft_entry t))
     else if ft_method t = js_resources_read then ReadResourceRequest (ft_params t) True
     else GetPromptRequest (ft_params t))"

text \<open>What the call throws or answers, and the requests the SDK was given.\<close>

definition invoke_upstream ::
    "jvalue props option \<Rightarrow> (sdk_request \<Rightarrow> failure + jvalue) \<Rightarrow> forward_target
      \<Rightarrow> (failure + jvalue) \<times> sdk_request list" where
  "invoke_upstream capabilities sdk t =
     (case require_capability capabilities t of
        Inl f \<Rightarrow> (Inl f, [])
      | Inr _ \<Rightarrow> (sdk (sdk_request_of t), [sdk_request_of t]))"

definition measure_result ::
    "hash_fun \<Rightarrow> forward_settings \<Rightarrow> forward_target \<Rightarrow> jvalue \<Rightarrow> exn + jstring \<times> nat" where
  "measure_result sha cfg t result = (case canonicalize result of
      Inl _ \<Rightarrow> Inl (SentinelError (upstream_unavailable_error (ft_serverId t) (js ''malformed response'')))
    | Inr canonical \<Rightarrow>
        let bytes = byte_length canonical in
        if bytes > fw_maxResultBytes cfg
        then Inl (SentinelError (upstream_unavailable_error (ft_serverId t) (js ''response too large'')))
        else Inr (sha256_hex sha canonical, bytes))"

record forward_outcome =
  fo_target :: forward_target
  fo_result :: jvalue
  fo_inputRequired :: bool
  fo_resultDigest :: jstring
  fo_resultBytes :: nat
  fo_latencyMs :: int

text \<open>
  \<open>forward\<close>: \<open>ready\<close> is how \<open>ensureReady\<close> ended, with the capabilities of the connected client;
  \<open>generation\<close> is what \<open>call\<close> read after it; the clock is read before and after.
\<close>

record upstream_answer =
  ua_ready :: "exn + jvalue props option"
  ua_generation :: nat
  ua_sdk :: "sdk_request \<Rightarrow> failure + jvalue"
  ua_started :: int
  ua_finished :: int

text \<open>The outcome, the requests that left for the upstream, in order, and the registry afterwards.\<close>

definition forward_call ::
    "hash_fun \<Rightarrow> (jvalue \<Rightarrow> bool) \<Rightarrow> forward_settings \<Rightarrow> upstream_answer \<Rightarrow> forward_target \<Rightarrow> upstream_registry
      \<Rightarrow> (exn + forward_outcome) \<times> sdk_request list \<times> upstream_registry" where
  "forward_call sha is_input_required cfg ans t reg =
     (case registry_require reg (ft_serverId t) of
        Inl e \<Rightarrow> (Inl e, [], reg)
      | Inr client \<Rightarrow>
          (case ua_ready ans of
             Inl e \<Rightarrow> (Inl e, [], reg)
           | Inr capabilities \<Rightarrow>
               let (answer, sent) = invoke_upstream capabilities (ua_sdk ans) t;
                   (called, client') = finish_call (ua_generation ans) answer client;
                   reg' = reg\<lparr>rg_clients := put_prop (ft_serverId t) client' (rg_clients reg)\<rparr>
               in (bind_r called (\<lambda>raw.
                   bind_r (measure_result sha cfg t raw) (\<lambda>(digest, bytes).
                   Inr \<lparr>fo_target = t, fo_result = raw, fo_inputRequired = is_input_required raw,
                        fo_resultDigest = digest, fo_resultBytes = bytes,
                        fo_latencyMs = ua_finished ans - ua_started ans\<rparr>)), sent, reg')))"

section \<open>Discovery\<close>

fun aggregate_flags :: "upstream_snapshot list \<Rightarrow> bool \<times> bool \<Rightarrow> bool \<times> bool" where
  "aggregate_flags [] flags = flags"
| "aggregate_flags (s # r) (resources, prompts) =
     (if sn_health s \<noteq> Ready then aggregate_flags r (resources, prompts)
      else case sn_capabilities s of
          None \<Rightarrow> aggregate_flags r (resources, prompts)
        | Some c \<Rightarrow> aggregate_flags r
            (resources \<or> get_prop c (js ''resources'') \<noteq> None, prompts \<or> get_prop c (js ''prompts'') \<noteq> None))"

definition aggregate_capabilities :: "upstream_snapshot list \<Rightarrow> jvalue props" where
  "aggregate_capabilities snapshots =
     (let (resources, prompts) = aggregate_flags snapshots (False, False) in
      [(js ''tools'', JObject [])]
      @ (if resources then [(js ''resources'', JObject [])] else [])
      @ (if prompts then [(js ''prompts'', JObject [])] else []))"

definition gateway_instructions :: "jstring \<Rightarrow> jstring" where
  "gateway_instructions instanceName =
     instanceName @ js '' is a security gateway in front of one or more MCP servers. ''
     @ js ''Tools and prompts are namespaced as \"<serverId>'' @ namespace_separator @ js ''<name>\"; ''
     @ js ''resources as \"'' @ js ''mcp-sentinel'' @ js ''://<serverId>/<percent-encoded upstream uri>\". ''
     @ js ''Every call is evaluated against policy before it reaches an upstream server, so a ''
     @ js ''call may be denied or held for human approval. A denial is a decision, not an error ''
     @ js ''to retry: read it and choose a different action.''"

definition build_discover_result :: "jstring \<Rightarrow> jvalue props \<Rightarrow> upstream_snapshot list \<Rightarrow> jvalue props" where
  "build_discover_result serverName serverInfo snapshots =
     [(js ''supportedVersions'', JArray [JString sentinel_protocol_version]),
      (js ''capabilities'', JObject (aggregate_capabilities snapshots)),
      (js ''instructions'', JString (gateway_instructions serverName)),
      (js ''_meta'', JObject [(js ''io.modelcontextprotocol/serverInfo'', JObject serverInfo)])]"

section \<open>Facts about the parts\<close>

lemma header_check_iff: "assert_header_matches_body md meth params = Inr m \<longleftrightarrow>
    md_method md = Some m \<and> meth = Some (JString m) \<and>
    (case mcp_name_source_field m of None \<Rightarrow> True
     | Some f \<Rightarrow> (\<exists>p n. params = Some p \<and> get_prop p f = Some (JString n) \<and> md_name md = Some n))"
  by (cases params) (auto simp: assert_header_matches_body_def split: option.splits if_splits)

lemma require_dialable_Inr: "require_dialable reg i q k = Inr u \<longleftrightarrow> (\<exists>c. registry_get reg i = Some c \<and> client_dialable c)"
  by (auto simp: require_dialable_def split: option.splits)

lemma require_dialable_Inl: "require_dialable reg i q k = Inl e \<Longrightarrow> e = SentinelError (unknown_tool_error q k)"
  by (auto simp: require_dialable_def split: option.splits if_splits)

lemma forward_method_iff: "is_forward_method m \<longleftrightarrow> forward_method m"
  by (simp add: is_forward_method_def forward_methods_def forward_method_def)

lemma source_not_meta: "forward_method m \<Longrightarrow> mcp_name_source_field m = Some f \<Longrightarrow> f \<noteq> js ''_meta''"
  by (auto dest: forward_source_field)

lemma get_forwarded:
  assumes "f \<noteq> js ''_meta''"
  shows "get_prop (forwarded_params ps f n meta) k =
    (if k = js ''_meta'' then map_option JObject meta else if k = f then Some (JString n) else get_prop ps k)"
  using assms by (auto simp: forwarded_params_def Let_def update_conv' split: option.splits)

text \<open>A tool name survives the outbound check.\<close>

lemma tool_name_chars: "is_valid_tool_name n \<Longrightarrow> c \<in> set n \<Longrightarrow> unat c < 128"
  by (auto simp: is_valid_tool_name_def list_all_iff char_class_defs word_le_nat_alt)

lemma tool_name_header:
  assumes "is_valid_tool_name n" shows "well_formed n" "take 1 n \<noteq> [0xFEFF]"
proof -
  show "well_formed n"
    by (rule well_formed_ascii) (auto dest: tool_name_chars [OF assms] simp: word_less_nat_alt)
  show "take 1 n \<noteq> [0xFEFF]"
    using tool_name_chars [OF assms, of "0xFEFF"] by (cases n) auto
qed

lemma resolve_method_cases: "forward_method m \<Longrightarrow> m = js_tools_call \<or> m = js_resources_read \<or> m = js_prompts_get"
  by (auto simp: forward_method_def)

text \<open>What a resolved target is, for each method.\<close>

lemma resolve_target_Inr:
  assumes "resolve_target cfg gw m kind q = Inr (i, n, entry)"
  shows "(\<exists>c. registry_get (gv_registry gw) i = Some c \<and> client_dialable c)
    \<and> (m = js_tools_call \<longrightarrow> (\<exists>e. entry = Some e \<and> catalog_get (gv_catalog gw) q = Some e \<and> i = ct_serverId e \<and> n = ct_toolName e))
    \<and> (m = js_resources_read \<longrightarrow> entry = None \<and> byte_length q \<le> fw_maxResourceUriBytes cfg
         \<and> parse_qualified_resource_uri q = Inr (Some (i, n)))
    \<and> (m \<noteq> js_tools_call \<and> m \<noteq> js_resources_read \<longrightarrow> entry = None \<and> parse_qualified_prompt_name q = Some (i, n))"
  using assms
  by (auto simp: resolve_target_def Let_def result_iffs require_dialable_Inr)

text \<open>A refusal to resolve depends on the name and the limits, not on the gateway.\<close>

definition refusal_of :: "forward_settings \<Rightarrow> jstring \<Rightarrow> name_kind \<Rightarrow> jstring \<Rightarrow> exn" where
  "refusal_of cfg m kind q =
     (if m = js_resources_read \<and> byte_length q > fw_maxResourceUriBytes cfg
      then SentinelError (request_too_large_error (js ''resource uri'') (byte_length q) (fw_maxResourceUriBytes cfg))
      else case (if m = js_resources_read then parse_qualified_resource_uri q else Inr None) of
          Inl e \<Rightarrow> e
        | Inr _ \<Rightarrow> SentinelError (unknown_tool_error q kind))"

lemma resolve_refusal: "resolve_target cfg gw m kind q = Inl e \<Longrightarrow> e = refusal_of cfg m kind q"
  by (auto simp: resolve_target_def refusal_of_def Let_def bind_r_Inl_iff split: if_splits option.splits prod.splits
      dest: require_dialable_Inl)

lemma reachable_names:
  "catalog_reachable sha ccfg scanner cfgs c \<Longrightarrow> catalog_get c q = Some e \<Longrightarrow> is_valid_tool_name (ct_toolName e)"
  using get_indexed [of sha ccfg scanner cfgs c q e]
  by (auto simp: indexed_ok_def entry_ok_def qualify_tool_name_def qualify_Inr_iff)

lemma resolved_valid:
  assumes "catalog_reachable sha ccfg scanner cfgs (gv_catalog gw)" "forward_method m"
    and "resolve_target cfg gw m kind q = Inr (i, n, entry)" "m \<noteq> js_resources_read"
  shows "is_valid_tool_name n"
  using resolve_target_Inr [OF assms(3)] assms(4) reachable_names [OF assms(1)]
  by (cases "m = js_tools_call") (auto simp: prompt_parse_is_tool_parse parse_tool_Some_iff)

text \<open>What a gateway resolves passes the check on what it sends, byte order marks aside.\<close>

lemma resolved_outbound:
  assumes "catalog_reachable sha ccfg scanner cfgs (gv_catalog gw)" "forward_method m"
    and "mcp_name_source_field m = Some f" "resolve_target cfg gw m kind q = Inr (i, n, entry)"
    and "\<And>s u. parse_qualified_resource_uri q = Inr (Some (s, u)) \<Longrightarrow> take 1 u \<noteq> [0xFEFF]"
  shows "assert_outbound m n (forwarded_params ps f n meta) = Inr m"
proof -
  have "well_formed n \<and> take 1 n \<noteq> [0xFEFF]"
  proof (cases "m = js_resources_read")
    case True
    with resolve_target_Inr [OF assms(4)] have p: "parse_qualified_resource_uri q = Inr (Some (i, n))" by simp
    then have "encode_uri_component n \<noteq> None" using parse_resource_Some [OF p] by (auto simp: qualify_resource_Inr_iff)
    with p assms(5) show ?thesis by (simp add: encode_uri_component_None)
  next
    case False
    show ?thesis using resolved_valid [OF assms(1,2,4) False] tool_name_header by blast
  qed
  moreover have "get_prop (forwarded_params ps f n meta) f = Some (JString n)"
    using source_not_meta [OF assms(2,3)] by (simp add: get_forwarded)
  ultimately show ?thesis using assert_outbound_Inr_iff(1) [OF assms(2,3)] by blast
qed

text \<open>The part of a request that routing looks at before it looks at the gateway.\<close>

definition screened ::
    "hash_fun \<Rightarrow> forward_settings \<Rightarrow> request_metadata \<Rightarrow> inbound_request
      \<Rightarrow> jstring \<Rightarrow> jvalue props \<Rightarrow> jstring \<Rightarrow> jstring \<Rightarrow> jstring \<times> nat \<Rightarrow> bool" where
  "screened sha cfg md request m ps f q d =
     (plain_object (ir_params request) = Some ps \<and> assert_header_matches_body md (ir_method request) (Some ps) = Inr m
      \<and> m \<noteq> discover_method \<and> forward_method m \<and> mcp_name_source_field m = Some f
      \<and> get_prop ps f = Some (JString q) \<and> md_name md = Some q \<and> measure_params sha cfg ps = Inr d)"

lemma screened_unique:
  "screened sha cfg md rq m ps f q d \<Longrightarrow> screened sha cfg md rq m' ps' f' q' d' \<Longrightarrow>
    m = m' \<and> ps = ps' \<and> f = f' \<and> q = q' \<and> d = d'"
  by (auto simp: screened_def)

lemma route_screened:
  assumes "screened sha cfg md rq m ps f q (digest, bytes)"
  shows "route_request sha cfg gw md rq =
     bind_r (resolve_target cfg gw m (target_kind m) q) (\<lambda>(serverId, upstreamName, entry).
       let (meta, stripped) = strip_reserved_meta (get_prop ps (js ''_meta''));
           fparams = forwarded_params ps f upstreamName meta
       in bind_r (assert_outbound m upstreamName fparams) (\<lambda>_.
          Inr (ForwardRoute \<lparr>ft_method = m, ft_kind = target_kind m, ft_serverId = serverId,
            ft_qualifiedName = q, ft_upstreamName = upstreamName, ft_params = fparams,
            ft_entry = entry, ft_argsDigest = digest, ft_paramsBytes = bytes,
            ft_strippedMetaKeys = stripped,
            ft_expectedOutboundMetadata = build_request_metadata_headers m (Some upstreamName)\<rparr>)))"
  using assms by (simp add: screened_def route_request_def forward_method_iff Let_def)

lemma route_unscreened:
  assumes "\<And>m ps f q d. \<not> screened sha cfg md rq m ps f q d"
  shows "(\<exists>e. \<forall>gw. route_request sha cfg gw md rq = Inl e) \<or> (\<forall>gw. route_request sha cfg gw md rq = Inr DiscoverRoute)"
proof (cases "assert_header_matches_body md (ir_method rq) (plain_object (ir_params rq))")
  case (Inl e)
  then show ?thesis by (simp add: route_request_def)
next
  case (Inr m)
  show ?thesis
  proof (cases "m = discover_method \<or> \<not> forward_method m")
    case True
    with Inr show ?thesis by (auto simp: route_request_def forward_method_iff)
  next
    case False
    then obtain f where f: "mcp_name_source_field m = Some f" using forward_source_field by blast
    with Inr obtain ps q where ps: "plain_object (ir_params rq) = Some ps" "get_prop ps f = Some (JString q)" "md_name md = Some q"
      by (auto simp: header_check_iff)
    show ?thesis
    proof (cases "measure_params sha cfg ps")
      case (Inl e)
      with Inr False f ps show ?thesis by (simp add: route_request_def forward_method_iff)
    next
      case (Inr d)
      with assms [of m ps f q d] \<open>assert_header_matches_body _ _ _ = _\<close> False f ps show ?thesis by (simp add: screened_def)
    qed
  qed
qed

text \<open>Whether some ready upstream declares a capability.\<close>

definition offered :: "upstream_snapshot list \<Rightarrow> jstring \<Rightarrow> bool" where
  "offered snapshots k = list_ex (\<lambda>s. sn_health s = Ready
     \<and> (case sn_capabilities s of None \<Rightarrow> False | Some c \<Rightarrow> get_prop c k \<noteq> None)) snapshots"

lemma aggregate_flags_offered:
  "aggregate_flags ss (r, p) = (r \<or> offered ss (js ''resources''), p \<or> offered ss (js ''prompts''))"
  by (induction ss arbitrary: r p) (auto simp: offered_def split: option.splits)

text \<open>What a call sends, when, and what it leaves of the registry.\<close>

lemma forward_call_effects:
  assumes "forward_call sha ir cfg ans t reg = (r, sent, reg')"
  shows "(sent = [] \<or> sent = [sdk_request_of t])
    \<and> (sent \<noteq> [] \<longleftrightarrow> registry_get reg (ft_serverId t) \<noteq> None
         \<and> (\<exists>caps. ua_ready ans = Inr (Some caps) \<and> get_prop caps (required_capability (ft_method t)) \<noteq> None))
    \<and> (\<forall>i. i \<noteq> ft_serverId t \<longrightarrow> registry_get reg' i = registry_get reg i)
    \<and> (\<forall>o'. r = Inr o' \<longrightarrow> sent = [sdk_request_of t] \<and> ua_sdk ans (sdk_request_of t) = Inr (fo_result o') \<and> fo_target o' = t
         \<and> (\<exists>canonical. canonicalize (fo_result o') = Inr canonical \<and> fo_resultDigest o' = sha256_hex sha canonical
              \<and> fo_resultBytes o' = byte_length canonical \<and> byte_length canonical \<le> fw_maxResultBytes cfg)
         \<and> (\<forall>i. registry_get reg' i = registry_get reg i))"
proof (cases "registry_require reg (ft_serverId t)")
  case (Inl e)
  with assms show ?thesis by (auto simp: forward_call_def registry_require_def registry_get_def split: option.splits)
next
  case c: (Inr client)
  then have g: "registry_get reg (ft_serverId t) = Some client"
    by (auto simp: registry_get_def registry_require_def split: option.splits)
  show ?thesis
  proof (cases "ua_ready ans")
    case (Inl e)
    with assms c show ?thesis by (auto simp: forward_call_def)
  next
    case (Inr caps)
    obtain answer s where inv: "invoke_upstream caps (ua_sdk ans) t = (answer, s)" by fastforce
    obtain called client' where fin: "finish_call (ua_generation ans) answer client = (called, client')" by fastforce
    from assms c Inr inv fin have s: "s = sent"
      and reg': "reg' = reg\<lparr>rg_clients := put_prop (ft_serverId t) client' (rg_clients reg)\<rparr>"
      and r: "r = bind_r called (\<lambda>raw. bind_r (measure_result sha cfg t raw) (\<lambda>(digest, bytes).
                   Inr \<lparr>fo_target = t, fo_result = raw, fo_inputRequired = ir raw,
                        fo_resultDigest = digest, fo_resultBytes = bytes,
                        fo_latencyMs = ua_finished ans - ua_started ans\<rparr>))"
      by (auto simp: forward_call_def)
    have declared: "sent \<noteq> [] \<longleftrightarrow> (\<exists>cs. caps = Some cs \<and> get_prop cs (required_capability (ft_method t)) \<noteq> None)"
      "sent = [] \<or> sent = [sdk_request_of t]" "sent = [] \<longrightarrow> isl answer"
      "sent \<noteq> [] \<longrightarrow> answer = ua_sdk ans (sdk_request_of t)"
      using inv by (cases caps; auto simp: invoke_upstream_def require_capability_def s split: option.splits)+
    have done_ok: "answer = Inr raw \<and> client' = client" if "called = Inr raw" for raw
      using fin that by (auto simp: finish_call_def Let_def split: sum.splits if_splits)
    have frame: "registry_get reg' i = (if i = ft_serverId t then Some client' else registry_get reg i)" for i
      by (simp add: reg' registry_get_def update_conv')
    show ?thesis
      using declared r g Inr frame done_ok
      by (auto simp: result_iffs measure_result_def Let_def split: sum.splits if_splits)
  qed
qed

text \<open>What a successful routing went through.\<close>

lemma routed:
  assumes "route_request sha cfg gw md request = Inr (ForwardRoute t)"
  obtains m ps f q digest bytes i n entry out where "screened sha cfg md request m ps f q (digest, bytes)"
    "resolve_target cfg gw m (target_kind m) q = Inr (i, n, entry)" "forward_method m"
    "mcp_name_source_field m = Some f" "f \<noteq> js ''_meta''"
    "assert_outbound m n (ft_params t) = Inr out"
    "t = \<lparr>ft_method = m, ft_kind = target_kind m, ft_serverId = i, ft_qualifiedName = q, ft_upstreamName = n,
       ft_params = forwarded_params ps f n (fst (strip_reserved_meta (get_prop ps (js ''_meta'')))),
       ft_entry = entry, ft_argsDigest = digest, ft_paramsBytes = bytes,
       ft_strippedMetaKeys = snd (strip_reserved_meta (get_prop ps (js ''_meta''))),
       ft_expectedOutboundMetadata = build_request_metadata_headers m (Some n)\<rparr>"
proof -
  have "\<exists>m ps f q d. screened sha cfg md request m ps f q d"
    using assms route_unscreened [of sha cfg md request] by (metis Inl_Inr_False route.distinct(1) sum.inject(2))
  then obtain m ps f q digest bytes where scr: "screened sha cfg md request m ps f q (digest, bytes)"
    by (metis prod.exhaust)
  then have m: "forward_method m" "mcp_name_source_field m = Some f" and f: "f \<noteq> js ''_meta''"
    using source_not_meta by (auto simp: screened_def)
  obtain meta stripped where st: "strip_reserved_meta (get_prop ps (js ''_meta'')) = (meta, stripped)" by fastforce
  from assms route_screened [OF scr, of gw] obtain i n entry out where
    res: "resolve_target cfg gw m (target_kind m) q = Inr (i, n, entry)" and
    o: "assert_outbound m n (forwarded_params ps f n meta) = Inr out" and
    t: "t = \<lparr>ft_method = m, ft_kind = target_kind m, ft_serverId = i, ft_qualifiedName = q, ft_upstreamName = n,
       ft_params = forwarded_params ps f n meta, ft_entry = entry, ft_argsDigest = digest, ft_paramsBytes = bytes,
       ft_strippedMetaKeys = stripped, ft_expectedOutboundMetadata = build_request_metadata_headers m (Some n)\<rparr>"
    by (auto simp: result_iffs Let_def st)
  show thesis by (rule that [OF scr res m f]) (simp_all add: o t st)
qed

lemma screened_body:
  assumes "screened sha cfg md request m ps f q (digest, bytes)"
  obtains canonical where "ir_params request = Some (JObject ps)" "ir_method request = Some (JString m)"
    "md_method md = Some m" "md_name md = Some q" "get_prop ps f = Some (JString q)"
    "canonicalize (JObject ps) = Inr canonical" "digest = sha256_hex sha canonical"
    "bytes = byte_length canonical" "byte_length canonical \<le> fw_maxArgumentBytes cfg"
proof -
  from assms obtain canonical where "canonicalize (JObject ps) = Inr canonical" "digest = sha256_hex sha canonical"
    "bytes = byte_length canonical" "byte_length canonical \<le> fw_maxArgumentBytes cfg"
    by (auto simp: screened_def measure_params_def Let_def split: sum.splits if_splits)
  moreover have "ir_params request = Some (JObject ps)" using assms
    by (auto simp: screened_def plain_object_def split: option.splits jvalue.splits)
  ultimately show thesis using assms by (intro that) (auto simp: screened_def header_check_iff)
qed

text \<open>The outbound check passes only when the headers to send say the method and the name of the parameters to send.\<close>

lemma outbound_agrees:
  assumes "assert_outbound m n p = Inr out" and "mcp_name_source_field m = Some f" and "get_prop p f = Some (JString n)"
  shows "\<exists>hs sent. new_headers (build_request_metadata_headers m (Some n)) = Inr hs
    \<and> read_request_metadata hs = Inr sent \<and> md_method sent = Some m \<and> md_name sent = Some n"
  using assms by (auto simp: assert_outbound_def bind_r_Inr_iff header_check_iff)

section \<open>Properties\<close>

text \<open>
  C27: what routing hands over for execution. The headers agreed with the body; the server is
  configured and dialable; a tool is the catalog's, a resource and a prompt are what their qualified names
  say; the digest and the bounded size are those of the parameters as received; the parameters to send
  are those parameters with the name replaced by the upstream's and \<open>_meta\<close> by what \<open>stripReservedMeta\<close>
  keeps, nothing else; and the headers expected to leave with them, read as a server reads them, name the
  same method and the upstream's name.
\<close>

theorem route_contract:
  assumes "route_request sha cfg gw md request = Inr (ForwardRoute t)"
  shows "\<exists>ps f canonical hs sent. ir_params request = Some (JObject ps) \<and> ir_method request = Some (JString (ft_method t))
    \<and> md_method md = Some (ft_method t) \<and> md_name md = Some (ft_qualifiedName t)
    \<and> mcp_name_source_field (ft_method t) = Some f \<and> get_prop ps f = Some (JString (ft_qualifiedName t))
    \<and> (\<exists>c. registry_get (gv_registry gw) (ft_serverId t) = Some c \<and> client_dialable c)
    \<and> (ft_method t = js_tools_call \<longrightarrow> ft_kind t = KTool \<and> (\<exists>e. ft_entry t = Some e
         \<and> catalog_get (gv_catalog gw) (ft_qualifiedName t) = Some e
         \<and> ft_serverId t = ct_serverId e \<and> ft_upstreamName t = ct_toolName e))
    \<and> (ft_method t = js_resources_read \<longrightarrow> ft_kind t = KResource \<and> ft_entry t = None
         \<and> byte_length (ft_qualifiedName t) \<le> fw_maxResourceUriBytes cfg
         \<and> parse_qualified_resource_uri (ft_qualifiedName t) = Inr (Some (ft_serverId t, ft_upstreamName t)))
    \<and> (ft_method t = js_prompts_get \<longrightarrow> ft_kind t = KPrompt \<and> ft_entry t = None
         \<and> parse_qualified_prompt_name (ft_qualifiedName t) = Some (ft_serverId t, ft_upstreamName t))
    \<and> canonicalize (JObject ps) = Inr canonical \<and> ft_argsDigest t = sha256_hex sha canonical
    \<and> ft_paramsBytes t = byte_length canonical \<and> byte_length canonical \<le> fw_maxArgumentBytes cfg
    \<and> (\<forall>k. get_prop (ft_params t) k =
         (if k = js ''_meta'' then map_option JObject (fst (strip_reserved_meta (get_prop ps (js ''_meta''))))
          else if k = f then Some (JString (ft_upstreamName t)) else get_prop ps k))
    \<and> new_headers (ft_expectedOutboundMetadata t) = Inr hs \<and> read_request_metadata hs = Inr sent
    \<and> md_method sent = Some (ft_method t) \<and> md_name sent = Some (ft_upstreamName t)"
proof -
  from assms obtain m ps f q digest bytes i n entry out where scr: "screened sha cfg md request m ps f q (digest, bytes)"
    and res: "resolve_target cfg gw m (target_kind m) q = Inr (i, n, entry)" and m: "forward_method m"
    "mcp_name_source_field m = Some f" "f \<noteq> js ''_meta''" and out: "assert_outbound m n (ft_params t) = Inr out" and
    t: "t = \<lparr>ft_method = m, ft_kind = target_kind m, ft_serverId = i, ft_qualifiedName = q, ft_upstreamName = n,
       ft_params = forwarded_params ps f n (fst (strip_reserved_meta (get_prop ps (js ''_meta'')))),
       ft_entry = entry, ft_argsDigest = digest, ft_paramsBytes = bytes,
       ft_strippedMetaKeys = snd (strip_reserved_meta (get_prop ps (js ''_meta''))),
       ft_expectedOutboundMetadata = build_request_metadata_headers m (Some n)\<rparr>" by (rule routed)
  obtain canonical where body: "ir_params request = Some (JObject ps)" "ir_method request = Some (JString m)"
    "md_method md = Some m" "md_name md = Some q" "get_prop ps f = Some (JString q)"
    "canonicalize (JObject ps) = Inr canonical" "digest = sha256_hex sha canonical"
    "bytes = byte_length canonical" "byte_length canonical \<le> fw_maxArgumentBytes cfg" by (rule screened_body [OF scr])
  have params: "get_prop (ft_params t) k =
      (if k = js ''_meta'' then map_option JObject (fst (strip_reserved_meta (get_prop ps (js ''_meta''))))
       else if k = f then Some (JString n) else get_prop ps k)" for k
    by (simp add: t get_forwarded [OF m(3)])
  obtain hs sent where hs: "new_headers (build_request_metadata_headers m (Some n)) = Inr hs"
    "read_request_metadata hs = Inr sent" "md_method sent = Some m" "md_name sent = Some n"
    using outbound_agrees [OF out m(2)] params m(3) by auto
  have kinds: "js_resources_read \<noteq> js_tools_call" "js_prompts_get \<noteq> js_tools_call" "js_prompts_get \<noteq> js_resources_read"
    by (simp_all add: js_tools_call_def js_resources_read_def js_prompts_get_def)
  have fieldsof: "ft_method t = m" "ft_kind t = target_kind m" "ft_serverId t = i" "ft_qualifiedName t = q"
    "ft_upstreamName t = n" "ft_entry t = entry" "ft_argsDigest t = digest" "ft_paramsBytes t = bytes"
    "ft_expectedOutboundMetadata t = build_request_metadata_headers m (Some n)" by (simp_all add: t)
  show ?thesis
    using resolve_target_Inr [OF res] kinds body
    by (rule_tac x = ps in exI, rule_tac x = f in exI, rule_tac x = canonical in exI, rule_tac x = hs in exI,
        rule_tac x = sent in exI) (auto simp: fieldsof params hs m target_kind_def simp del: canonicalize.simps)
qed

text \<open>
  Two gateways, whatever servers are configured, quarantined or down and whatever their catalogs advertise
  or withhold, that both refuse a request refuse it with the same error; the one exception is a resource
  URI that starts with a byte order mark, which a gateway that serves its server cannot send.
\<close>

lemma refusals_agree:
  assumes "catalog_reachable sha ccfg scanner cfgs (gv_catalog gw)"
    and "catalog_reachable sha' ccfg' scanner' cfgs' (gv_catalog gw')"
    and "\<And>q s u. md_name md = Some q \<Longrightarrow> parse_qualified_resource_uri q = Inr (Some (s, u)) \<Longrightarrow> take 1 u \<noteq> [0xFEFF]"
    and "route_request h cfg gw md request = Inl e" "route_request h cfg gw' md request = Inl e'"
  shows "e = e'"
proof (cases "\<exists>m ps f q d. screened h cfg md request m ps f q d")
  case False
  then show ?thesis using assms(4,5) route_unscreened [of h cfg md request] by (metis sum.inject(1) Inl_Inr_False)
next
  case True
  then obtain m ps f q d where scr: "screened h cfg md request m ps f q d" by blast
  then have m: "forward_method m" "mcp_name_source_field m = Some f" "md_name md = Some q" by (auto simp: screened_def)
  have "x = refusal_of cfg m (target_kind m) q"
    if c: "catalog_reachable sha0 ccfg0 scanner0 cfgs0 (gv_catalog g)" and r: "route_request h cfg g md request = Inl x"
    for sha0 ccfg0 scanner0 cfgs0 g x
  proof (cases "resolve_target cfg g m (target_kind m) q")
    case (Inl y)
    with r route_screened [of h cfg md request m ps f q "fst d" "snd d" g] scr resolve_refusal [OF Inl] show ?thesis by simp
  next
    case (Inr y)
    obtain i n entry where y: "y = (i, n, entry)" by (metis prod_cases3)
    note resolved_outbound [OF c m(1,2) Inr [unfolded y], of ps]
    with r route_screened [of h cfg md request m ps f q "fst d" "snd d" g] scr Inr y assms(3) [OF m(3)]
    show ?thesis by (auto simp: Let_def split: prod.splits)
  qed
  from this [OF assms(1,4)] this [OF assms(2,5)] show ?thesis by simp
qed

text \<open>Whether a gateway serves what a request names: it knows the server of that name and may dial it.\<close>

definition server_of :: "gateway_view \<Rightarrow> jstring \<Rightarrow> jstring \<Rightarrow> jstring option" where
  "server_of gw m q =
     (if m = js_tools_call then map_option ct_serverId (catalog_get (gv_catalog gw) q)
      else if m = js_resources_read
      then (case parse_qualified_resource_uri q of Inr (Some (i, _)) \<Rightarrow> Some i | _ \<Rightarrow> None)
      else map_option fst (parse_qualified_prompt_name q))"

definition serves :: "gateway_view \<Rightarrow> jstring \<Rightarrow> jstring \<Rightarrow> bool" where
  "serves gw m q = (case Option.bind (server_of gw m q) (registry_get (gv_registry gw)) of
      None \<Rightarrow> False | Some c \<Rightarrow> client_dialable c)"

lemma resolve_serves:
  assumes "m = js_resources_read \<longrightarrow> byte_length q \<le> fw_maxResourceUriBytes cfg \<and> \<not> isl (parse_qualified_resource_uri q)"
  shows "if serves gw m q then \<exists>i n entry. resolve_target cfg gw m kind q = Inr (i, n, entry)
    else resolve_target cfg gw m kind q = Inl (SentinelError (unknown_tool_error q kind))"
proof (cases "serves gw m q")
  case True
  then obtain i c where "server_of gw m q = Some i" "registry_get (gv_registry gw) i = Some c" "client_dialable c"
    by (auto simp: serves_def Option.bind_eq_Some_conv split: option.splits)
  with assms True show ?thesis
    by (auto simp: server_of_def resolve_target_def require_dialable_def Let_def split: if_splits sum.splits option.splits)
next
  case False
  have "serves gw m q" if "resolve_target cfg gw m kind q = Inr (i, n, entry)" for i n entry
    using resolve_target_Inr [OF that] by (cases "m = js_tools_call"; cases "m = js_resources_read") (auto simp: serves_def server_of_def)
  with False obtain e where e: "resolve_target cfg gw m kind q = Inl e"
    by (cases "resolve_target cfg gw m kind q") auto
  have "refusal_of cfg m kind q = SentinelError (unknown_tool_error q kind)"
    using assms by (auto simp: refusal_of_def split: sum.splits)
  with resolve_refusal [OF e] e False show ?thesis by simp
qed

text \<open>
  C28: a refusal is no oracle. Take any request that some gateway would forward. A gateway that does not
  serve what it names, because the tool is not catalogued or was withheld, or because the server is not
  configured or is quarantined, refuses it with one and the same error, \<open>unknown\<close> and the name as
  the agent wrote it; and every gateway that does serve it forwards it.
\<close>

theorem refusals_are_uniform:
  assumes "catalog_reachable sha ccfg scanner cfgs (gv_catalog gw)"
    and "route_request h cfg gw0 md request = Inr (ForwardRoute t0)"
  shows "if serves gw (ft_method t0) (ft_qualifiedName t0)
    then \<exists>t. route_request h cfg gw md request = Inr (ForwardRoute t) \<and> ft_qualifiedName t = ft_qualifiedName t0
    else route_request h cfg gw md request
      = Inl (SentinelError (unknown_tool_error (ft_qualifiedName t0) (ft_kind t0)))"
proof -
  from assms(2) obtain m ps f q digest bytes i n entry out where scr: "screened h cfg md request m ps f q (digest, bytes)"
    and res0: "resolve_target cfg gw0 m (target_kind m) q = Inr (i, n, entry)" and m: "forward_method m"
    "mcp_name_source_field m = Some f" "f \<noteq> js ''_meta''" and out: "assert_outbound m n (ft_params t0) = Inr out" and
    t: "t0 = \<lparr>ft_method = m, ft_kind = target_kind m, ft_serverId = i, ft_qualifiedName = q, ft_upstreamName = n,
       ft_params = forwarded_params ps f n (fst (strip_reserved_meta (get_prop ps (js ''_meta'')))),
       ft_entry = entry, ft_argsDigest = digest, ft_paramsBytes = bytes,
       ft_strippedMetaKeys = snd (strip_reserved_meta (get_prop ps (js ''_meta''))),
       ft_expectedOutboundMetadata = build_request_metadata_headers m (Some n)\<rparr>" by (rule routed)
  have params: "get_prop (ft_params t0) f = Some (JString n)" using m(3) by (simp add: t get_forwarded)
  have bom: "take 1 u \<noteq> [0xFEFF]" if "parse_qualified_resource_uri q = Inr (Some (s, u))" "m = js_resources_read" for s u
  proof -
    from resolve_target_Inr [OF res0] that have p: "parse_qualified_resource_uri q = Inr (Some (i, n))" and u: "u = n"
      by auto
    have "encode_uri_component n \<noteq> None" using parse_resource_Some [OF p] by (auto simp: qualify_resource_Inr_iff)
    then have w: "well_formed n" by (simp add: encode_uri_component_None)
    have "out = m" using out by (auto simp: assert_outbound_def bind_r_Inr_iff header_check_iff)
    with assert_outbound_Inr_iff(1) [OF m(1,2) w params] out u show ?thesis by simp
  qed
  have fits: "m = js_resources_read \<longrightarrow> byte_length q \<le> fw_maxResourceUriBytes cfg \<and> \<not> isl (parse_qualified_resource_uri q)"
    using resolve_target_Inr [OF res0] by auto
  show ?thesis
  proof (cases "serves gw m q")
    case False
    with resolve_serves [OF fits, of gw "target_kind m"] route_screened [OF scr, of gw] show ?thesis by (simp add: t)
  next
    case True
    with resolve_serves [OF fits, of gw "target_kind m"] obtain i' n' entry' where
      res: "resolve_target cfg gw m (target_kind m) q = Inr (i', n', entry')" by auto
    have "\<exists>out. assert_outbound m n' (forwarded_params ps f n' meta) = Inr out" for meta
    proof (cases "m = js_resources_read")
      case True
      with resolved_outbound [OF assms(1) m(1,2) res] bom show ?thesis by blast
    next
      case False
      with resolved_valid [OF assms(1) m(1) res] tool_name_header assert_outbound_Inr_iff(1) [OF m(1,2)] m(3)
      show ?thesis by (force simp: get_forwarded)
    qed
    note sends = this
    obtain meta stripped where st: "strip_reserved_meta (get_prop ps (js ''_meta'')) = (meta, stripped)" by fastforce
    from sends obtain out' where "assert_outbound m n' (forwarded_params ps f n' meta) = Inr out'" by blast
    with route_screened [OF scr, of gw] res True st show ?thesis by (simp add: t Let_def)
  qed
qed

text \<open>
  C29: execution is faithful. What leaves for the upstream of a routed call is at most one request: the
  SDK's verb for the method as received, over the parameters as received with only the name and \<open>_meta\<close>
  replaced, and for a tool with the catalogued definition. It leaves exactly when the server is known, the
  connection is ready and the upstream has declared the capability of the method. A finished call returns
  exactly what the SDK answered to that request, with its digest and its bounded size, and leaves the
  registry as it was; a failed one touches no other server.
\<close>

theorem forward_faithful:
  assumes "route_request sha cfg gw md request = Inr (ForwardRoute t)"
    and "forward_call sha' ir cfg ans t reg = (r, sent, reg')"
  shows "\<exists>ps f p m. ir_params request = Some (JObject ps) \<and> ir_method request = Some (JString m)
    \<and> mcp_name_source_field m = Some f
    \<and> (\<forall>k. get_prop p k =
         (if k = js ''_meta'' then map_option JObject (fst (strip_reserved_meta (get_prop ps (js ''_meta''))))
          else if k = f then Some (JString (ft_upstreamName t)) else get_prop ps k))
    \<and> (sent = [] \<or> sent = [if m = js_tools_call
           then CallToolRequest p (map_option en_definition (catalog_get (gv_catalog gw) (ft_qualifiedName t)))
         else if m = js_resources_read then ReadResourceRequest p True else GetPromptRequest p])
    \<and> (sent \<noteq> [] \<longleftrightarrow> registry_get reg (ft_serverId t) \<noteq> None \<and> (\<exists>caps. ua_ready ans = Inr (Some caps)
         \<and> get_prop caps (if m = js_tools_call then js ''tools'' else if m = js_resources_read then js ''resources''
              else js ''prompts'') \<noteq> None))
    \<and> (\<forall>i. i \<noteq> ft_serverId t \<longrightarrow> registry_get reg' i = registry_get reg i)
    \<and> (\<forall>o'. r = Inr o' \<longrightarrow> (\<exists>x. sent = [x] \<and> ua_sdk ans x = Inr (fo_result o')) \<and> fo_target o' = t
         \<and> (\<exists>canonical. canonicalize (fo_result o') = Inr canonical \<and> fo_resultDigest o' = sha256_hex sha' canonical
              \<and> fo_resultBytes o' = byte_length canonical \<and> byte_length canonical \<le> fw_maxResultBytes cfg)
         \<and> (\<forall>i. registry_get reg' i = registry_get reg i))"
proof -
  from assms(1) obtain m ps f q digest bytes i n entry out where scr: "screened sha cfg md request m ps f q (digest, bytes)"
    and res: "resolve_target cfg gw m (target_kind m) q = Inr (i, n, entry)" and m: "forward_method m"
    "mcp_name_source_field m = Some f" "f \<noteq> js ''_meta''" and
    t: "t = \<lparr>ft_method = m, ft_kind = target_kind m, ft_serverId = i, ft_qualifiedName = q, ft_upstreamName = n,
       ft_params = forwarded_params ps f n (fst (strip_reserved_meta (get_prop ps (js ''_meta'')))),
       ft_entry = entry, ft_argsDigest = digest, ft_paramsBytes = bytes,
       ft_strippedMetaKeys = snd (strip_reserved_meta (get_prop ps (js ''_meta''))),
       ft_expectedOutboundMetadata = build_request_metadata_headers m (Some n)\<rparr>" by (rule routed)
  have body: "ir_params request = Some (JObject ps)" "ir_method request = Some (JString m)"
    using screened_body [OF scr] by metis+
  have params: "get_prop (ft_params t) k =
      (if k = js ''_meta'' then map_option JObject (fst (strip_reserved_meta (get_prop ps (js ''_meta''))))
       else if k = f then Some (JString (ft_upstreamName t)) else get_prop ps k)" for k
    by (simp add: t get_forwarded [OF m(3)])
  have entry: "ft_method t = m" "m = js_tools_call \<Longrightarrow> ft_entry t = catalog_get (gv_catalog gw) (ft_qualifiedName t)"
    using resolve_target_Inr [OF res] by (auto simp: t)
  have sdk: "sdk_request_of t = (if m = js_tools_call
           then CallToolRequest (ft_params t) (map_option en_definition (catalog_get (gv_catalog gw) (ft_qualifiedName t)))
         else if m = js_resources_read then ReadResourceRequest (ft_params t) True else GetPromptRequest (ft_params t))"
    using entry by (simp add: sdk_request_of_def)
  have cap: "required_capability (ft_method t) = (if m = js_tools_call then js ''tools''
      else if m = js_resources_read then js ''resources'' else js ''prompts'')"
    by (simp add: required_capability_def entry(1))
  note eff = forward_call_effects [OF assms(2)]
  have answered: "\<forall>o'. r = Inr o' \<longrightarrow> (\<exists>x. sent = [x] \<and> ua_sdk ans x = Inr (fo_result o')) \<and> fo_target o' = t
         \<and> (\<exists>canonical. canonicalize (fo_result o') = Inr canonical \<and> fo_resultDigest o' = sha256_hex sha' canonical
              \<and> fo_resultBytes o' = byte_length canonical \<and> byte_length canonical \<le> fw_maxResultBytes cfg)
         \<and> (\<forall>i. registry_get reg' i = registry_get reg i)"
    using eff [THEN conjunct2, THEN conjunct2, THEN conjunct2] by metis
  show ?thesis
    by (rule_tac x = ps in exI, rule_tac x = f in exI, rule_tac x = "ft_params t" in exI, rule_tac x = m in exI,
        unfold sdk [symmetric] cap [symmetric],
        intro conjI body m(2) params [THEN allI] answered eff [THEN conjunct1] eff [THEN conjunct2, THEN conjunct1]
          eff [THEN conjunct2, THEN conjunct2, THEN conjunct1])
qed

text \<open>
  Discovery tells an agent two bits about the upstreams. Two fleets get the same answer exactly
  when they agree on whether some ready upstream offers resources and whether one offers prompts; no
  name, count, health or text of an upstream shows.
\<close>

theorem discovery_reveals_two_bits:
  "build_discover_result name info ss = build_discover_result name info ss' \<longleftrightarrow>
    offered ss (js ''resources'') = offered ss' (js ''resources'') \<and> offered ss (js ''prompts'') = offered ss' (js ''prompts'')"
  by (auto simp: build_discover_result_def aggregate_capabilities_def aggregate_flags_offered)

definition sample_gateway :: gateway_view where
  "sample_gateway = \<lparr>gv_catalog = sample_catalog, gv_registry = build_registry [sample_server Trusted]\<rparr>"

definition sample_call :: inbound_request where
  "sample_call = \<lparr>ir_method = Some (JString js_tools_call),
     ir_params = Some (JObject [(js ''name'', JString (js ''files__read''))])\<rparr>"

definition sample_headers :: request_metadata where
  "sample_headers = \<lparr>md_protocolVersion = None, md_method = Some js_tools_call,
     md_name = Some (js ''files__read''), md_params = []\<rparr>"

lemma sample_screened: "\<exists>d. screened (take 2) default_forward sample_headers sample_call js_tools_call
    [(js ''name'', JString (js ''files__read''))] (js ''name'') (js ''files__read'') d"
proof -
  let ?ps = "[(js ''name'', JString (js ''files__read''))]"
  let ?t = "bracketed 123 [json_quote (js ''name'') @ 58 # json_quote (js ''files__read'')] 125"
  have "canonicalize (JObject ?ps) = Inr ?t" by (simp add: omitted_def)
  moreover have "length ?t \<le> 200"
    using length_json_quote [of "js ''name''"] length_json_quote [of "js ''files__read''"] by (simp add: bracketed_def)
  then have "byte_length ?t \<le> 262144" using byte_length_le [of ?t] by linarith
  ultimately have "\<exists>d. measure_params (take 2) default_forward ?ps = Inr d"
    by (simp add: measure_params_def default_forward_def Let_def)
  then show ?thesis
    by (auto simp: screened_def sample_call_def sample_headers_def plain_object_def header_check_iff
        discover_method_def js_tools_call_def forward_method_def mcp_name_source_field_def)
qed

lemma sample_forward_method [simp]: "forward_method js_tools_call" "mcp_name_source_field js_tools_call = Some (js ''name'')"
  by (simp_all add: forward_method_def mcp_name_source_field_def)

lemma sample_route: "\<exists>t. route_request (take 2) default_forward sample_gateway sample_headers sample_call = Inr (ForwardRoute t)"
proof -
  let ?ps = "[(js ''name'', JString (js ''files__read''))]"
  obtain d where scr: "screened (take 2) default_forward sample_headers sample_call js_tools_call
    ?ps (js ''name'') (js ''files__read'') d" using sample_screened by blast
  obtain x where x: "catalog_get sample_catalog (js ''files__read'') = Some (sample_entry x)" using sample_get by blast
  have reg: "registry_get (gv_registry sample_gateway) (js ''files'') = Some (new_upstream_client (sample_server Trusted))"
    by (simp add: sample_gateway_def build_registry_def registry_get_def sample_server_def)
  have res: "resolve_target default_forward sample_gateway js_tools_call KTool (js ''files__read'')
      = Inr (js ''files'', js ''read'', Some (sample_entry x))"
    using x reg
    by (simp add: resolve_target_def sample_gateway_def sample_entry_def require_dialable_def client_dialable_def
        new_upstream_client_def sample_server_def)
  have "catalog_reachable (take 2) default_catalog None [sample_server Trusted] (gv_catalog sample_gateway)"
    using sample_reachable by (simp add: sample_gateway_def)
  moreover have "parse_qualified_resource_uri (js ''files__read'') = Inr None"
    by (simp add: parse_qualified_resource_uri_def resource_uri_prefix_def starts_with_def js_def)
  ultimately have out: "assert_outbound js_tools_call (js ''read'') (forwarded_params ?ps (js ''name'') (js ''read'') m)
      = Inr js_tools_call" for m
    using resolved_outbound [OF _ _ _ res, of _ _ _ _ "js ''name''" ?ps m] by auto
  have k: "target_kind js_tools_call = KTool" by (simp add: target_kind_def)
  from route_screened [of "take 2" default_forward sample_headers sample_call js_tools_call ?ps "js ''name''"
      "js ''files__read''" "fst d" "snd d" sample_gateway] scr
  show ?thesis by (simp add: res out k Let_def split: prod.splits)
qed

lemma route_contract_witness:
  "\<exists>t c. route_request (take 2) default_forward sample_gateway sample_headers sample_call = Inr (ForwardRoute t)
     \<and> registry_get (gv_registry sample_gateway) (ft_serverId t) = Some c \<and> client_dialable c"
proof -
  obtain t where t: "route_request (take 2) default_forward sample_gateway sample_headers sample_call = Inr (ForwardRoute t)"
    using sample_route by blast
  from route_contract [OF t] t show ?thesis by blast
qed

lemma refusals_are_uniform_witness:
  "route_request (take 2) default_forward \<lparr>gv_catalog = sample_catalog, gv_registry = build_registry [sample_server Quarantined]\<rparr>
        sample_headers sample_call = Inl (SentinelError (unknown_tool_error (js ''files__read'') KTool))
     \<and> route_request (take 2) default_forward \<lparr>gv_catalog = empty_catalog, gv_registry = build_registry []\<rparr>
        sample_headers sample_call = Inl (SentinelError (unknown_tool_error (js ''files__read'') KTool))"
proof -
  let ?gw = "\<lparr>gv_catalog = sample_catalog, gv_registry = build_registry [sample_server Quarantined]\<rparr>"
  let ?gw' = "\<lparr>gv_catalog = empty_catalog, gv_registry = build_registry []\<rparr>"
  obtain t where r: "route_request (take 2) default_forward sample_gateway sample_headers sample_call = Inr (ForwardRoute t)"
    using sample_route by blast
  then have t: "ft_method t = js_tools_call" "ft_kind t = KTool" "ft_qualifiedName t = js ''files__read''"
    by (rule routed; auto dest!: screened_unique simp: screened_def sample_headers_def header_check_iff target_kind_def)+
  obtain x where x: "catalog_get sample_catalog (js ''files__read'') = Some (sample_entry x)" using sample_get by blast
  have no: "\<not> serves ?gw js_tools_call (js ''files__read'')" "\<not> serves ?gw' js_tools_call (js ''files__read'')"
    using x by (simp_all add: serves_def server_of_def build_registry_def registry_get_def sample_server_def sample_entry_def
        client_dialable_def new_upstream_client_def catalog_get_def empty_catalog_def)
  have "catalog_reachable (take 2) default_catalog None [sample_server Trusted] (gv_catalog ?gw)"
    "catalog_reachable (take 2) default_catalog None [] (gv_catalog ?gw')"
    using sample_reachable by (simp_all add: catalog_start)
  from this [THEN refusals_are_uniform, OF r, unfolded t] no show ?thesis by simp
qed

definition sample_answer :: upstream_answer where
  "sample_answer = \<lparr>ua_ready = Inr (Some [(js ''tools'', JObject [])]), ua_generation = 1, ua_sdk = \<lambda>_. Inr JNull,
     ua_started = 0, ua_finished = 5\<rparr>"

lemma forward_faithful_witness:
  "\<exists>t r sent reg'. route_request (take 2) default_forward sample_gateway sample_headers sample_call = Inr (ForwardRoute t)
     \<and> forward_call (take 2) (\<lambda>_. False) default_forward sample_answer t (gv_registry sample_gateway) = (r, sent, reg')
     \<and> length sent = 1"
proof -
  obtain t where t: "route_request (take 2) default_forward sample_gateway sample_headers sample_call = Inr (ForwardRoute t)"
    using sample_route by blast
  then have known: "registry_get (gv_registry sample_gateway) (ft_serverId t) \<noteq> None"
    by (rule routed) (auto dest: resolve_target_Inr)
  obtain r sent reg' where f: "forward_call (take 2) (\<lambda>_. False) default_forward sample_answer t
      (gv_registry sample_gateway) = (r, sent, reg')" by (metis prod_cases3)
  from forward_faithful [OF t f] known have "length sent = 1"
    by (auto simp: sample_call_def sample_answer_def)
  with t f show ?thesis by blast
qed

end
