(* ===== verification/Risk.thy ===== *)
theory Risk
  imports CoreTypes Values
begin

text \<open>
  Risk assessment: the static heuristics of \<open>packages/risk-engine/src/heuristic.ts\<close>, the engine of
  \<open>engine.ts\<close> that combines them with an LLM's assessment and escalates obligations, and the part of
  \<open>provider.ts\<close> that turns a model's reply into an assessment. The network and \<open>JSON.parse\<close> are
  parameters: what \<open>fetch\<close> resolved or rejected with, and a partial function on texts.
\<close>

section \<open>Heuristics\<close>

definition band_of :: "int \<Rightarrow> risk_band" where
  "band_of score = (if score \<ge> 80 then RCritical else if score \<ge> 60 then RHigh
     else if score \<ge> 30 then RMedium else RLow)"

text \<open>The checks on one value: the score it adds and the signals it raises.\<close>

definition value_flags :: "jstring \<Rightarrow> (int \<times> jstring) list" where
  "value_flags val =
     (if str_includes val (js ''; rm -rf '') \<or> str_includes val (js ''; curl '')
         \<or> str_includes val (js ''; wget '')
      then [(100, js ''Suspicious shell commands detected'')] else [])
   @ (if str_includes val (js ''../'') \<or> str_includes val [46, 46, 92]
      then [(50, js ''Directory traversal characters detected'')] else [])
   @ (if str_includes val (js ''/etc/shadow'') \<or> str_includes val (js ''.ssh/id_rsa'')
      then [(100, js ''Sensitive file paths detected'')] else [])"

definition size_flags :: "nat \<Rightarrow> (int \<times> jstring) list" where
  "size_flags n =
     (if n > 50000 then [(80, js ''Payload exceeds 50KB heuristic threshold'')]
      else if n > 10000 then [(30, js ''Payload exceeds 10KB heuristic threshold'')] else [])"

definition heuristic_flags :: "jvalue \<Rightarrow> exn + (int \<times> jstring) list" where
  "heuristic_flags argsOrParams =
     bind_r (stringify (if truthy argsOrParams then argsOrParams else JObject []))
       (\<lambda>payloadStr. case payloadStr of
           None \<Rightarrow> Inl TypeError
         | Some t \<Rightarrow>
             bind_r (map_r js_string (js_values argsOrParams))
               (\<lambda>values. Inr (size_flags (length t) @ concat (map value_flags values))))"

definition heuristic_risk_score :: "jstring \<Rightarrow> jstring \<Rightarrow> jvalue \<Rightarrow> jnum \<Rightarrow> exn + risk_assessment" where
  "heuristic_risk_score meth toolOrResourceName argsOrParams latency =
     bind_r (heuristic_flags argsOrParams) (\<lambda>flags.
       let finalScore = min 100 (max 0 (sum_list (map fst flags)));
           signals = map snd flags
       in Inr \<lparr>ra_score = finalScore, ra_band = band_of finalScore,
               ra_rationale = (if signals \<noteq> [] then js ''Flagged by heuristics: '' @ join_with (js '', '') signals
                               else js ''No heuristic flags''),
               ra_signals = signals, ra_provider = js ''heuristic'', ra_model = js ''static-v1'',
               ra_cached = False, ra_latencyMs = latency\<rparr>)"

section \<open>The engine\<close>

record risk_config =
  rk_heuristicOnly :: "bool option"
  rk_llmTimeoutMs :: "int option"
  rk_escalationThreshold :: "int option"
  rk_escalateObligation :: "obligation option"

definition risk_threshold :: "risk_config \<Rightarrow> int" where
  "risk_threshold c = (case rk_escalationThreshold c of None \<Rightarrow> 80 | Some t \<Rightarrow> t)"

definition escalation_target :: "risk_config \<Rightarrow> obligation" where
  "escalation_target c = (case rk_escalateObligation c of None \<Rightarrow> Approve | Some w \<Rightarrow> w)"

definition escalate_obligation :: "risk_config \<Rightarrow> obligation \<Rightarrow> risk_assessment \<Rightarrow> obligation" where
  "escalate_obligation c baseObligation assessment =
     (if ra_score assessment < risk_threshold c then baseObligation
      else if obligation_rank (escalation_target c) > obligation_rank baseObligation
      then escalation_target c else baseObligation)"

text \<open>
  A provider's promise: it settles after some milliseconds, with an assessment or with the text of
  the error it rejects with, or it never does. \<open>Promise.race\<close> takes it when it settles before the
  timer, which \<open>setTimeout\<close> sets to one millisecond when the delay is out of its range.
\<close>

datatype llm_promise = Settles nat "jstring + risk_assessment" | Hangs

type_synonym llm_provider = "jstring \<Rightarrow> jstring \<Rightarrow> jvalue \<Rightarrow> llm_promise"

definition timer_ms :: "int \<Rightarrow> nat" where
  "timer_ms delay = (if 1 \<le> delay \<and> delay \<le> 2147483647 then nat delay else 1)"

definition llm_race :: "int \<Rightarrow> llm_promise \<Rightarrow> jstring + risk_assessment" where
  "llm_race timeoutMs p = (case p of
      Settles t outcome \<Rightarrow> if t < timer_ms timeoutMs then outcome else Inl (js ''LLM timeout'')
    | Hangs \<Rightarrow> Inl (js ''LLM timeout''))"

definition failed_assessment :: "risk_assessment \<Rightarrow> jstring \<Rightarrow> risk_assessment" where
  "failed_assessment heuristic err =
     heuristic\<lparr>ra_score := 100, ra_band := RCritical,
       ra_rationale := js ''LLM assessment failed: '' @ err @ js ''. Overriding score to maximum.'',
       ra_signals := ra_signals heuristic @ [js ''llm_timeout_or_failure''], ra_cached := False\<rparr>"

definition evaluate_risk ::
    "risk_config \<Rightarrow> llm_provider option \<Rightarrow> jstring \<Rightarrow> jstring \<Rightarrow> jvalue \<Rightarrow> jnum \<Rightarrow> exn + risk_assessment" where
  "evaluate_risk c provider meth name payload latency =
     bind_r (heuristic_risk_score meth name payload latency) (\<lambda>heuristic.
       if ra_score heuristic \<ge> risk_threshold c \<or> rk_heuristicOnly c = Some True then Inr heuristic
       else case provider of
         None \<Rightarrow> Inr heuristic
       | Some p \<Rightarrow>
           let timeoutMs = (case rk_llmTimeoutMs c of None \<Rightarrow> 5000 | Some t \<Rightarrow> t) in
           case llm_race timeoutMs (p meth name payload) of
             Inr llm \<Rightarrow> Inr (if ra_score llm > ra_score heuristic
                             then llm\<lparr>ra_signals := ra_signals heuristic @ ra_signals llm\<rparr>
                             else heuristic)
           | Inl err \<Rightarrow> Inr (failed_assessment heuristic err))"

section \<open>Replies of a model\<close>

text \<open>What \<open>fetch\<close> resolved with; \<open>fr_body\<close> is what \<open>response.json()\<close> gives.\<close>

record fetch_response =
  fr_ok :: bool
  fr_status :: nat
  fr_statusText :: jstring
  fr_body :: "exn + jvalue"

definition structured_output :: "jvalue \<Rightarrow> (int \<times> jstring \<times> jstring list) option" where
  "structured_output v =
     (case (js_opt_get v (js ''score''), js_opt_get v (js ''rationale''), js_opt_get v (js ''signals'')) of
        (JNumber x, JString rationale, JArray xs) \<Rightarrow>
          (case int_of_num x of
             None \<Rightarrow> None
           | Some score \<Rightarrow>
               if 0 \<le> score \<and> score \<le> 100 \<and> list_all (\<lambda>x. as_string (Some x) \<noteq> None) xs
               then Some (score, rationale, map (\<lambda>x. the (as_string (Some x))) xs) else None)
      | _ \<Rightarrow> None)"

text \<open>The common end of both providers: the text is parsed, validated and banded.\<close>

definition reply_assessment ::
    "(jstring \<Rightarrow> exn + jvalue) \<Rightarrow> jstring \<Rightarrow> jstring \<Rightarrow> jnum \<Rightarrow> jvalue \<Rightarrow> exn + risk_assessment" where
  "reply_assessment json_parse provider model latency content =
     bind_r (js_string content) (\<lambda>text.
     bind_r (json_parse text) (\<lambda>parsed.
     case structured_output parsed of
       None \<Rightarrow> Inl (PlainError (js ''ZodError''))
     | Some (score, rationale, signals) \<Rightarrow>
         Inr \<lparr>ra_score = score, ra_band = band_of score, ra_rationale = rationale,
              ra_signals = signals, ra_provider = provider, ra_model = model, ra_cached = False,
              ra_latencyMs = latency\<rparr>))"

definition api_error :: "string \<Rightarrow> fetch_response \<Rightarrow> exn" where
  "api_error name r = PlainError (js name @ js '' API error: '' @ dec (fr_status r) @ [32] @ fr_statusText r)"

definition groq_evaluate_risk ::
    "(jstring \<Rightarrow> exn + jvalue) \<Rightarrow> jstring \<Rightarrow> jnum \<Rightarrow> exn + fetch_response \<Rightarrow> exn + risk_assessment" where
  "groq_evaluate_risk json_parse model latency fetched =
     bind_r fetched (\<lambda>response.
     if \<not> fr_ok response then Inl (api_error ''Groq'' response)
     else bind_r (fr_body response) (\<lambda>data.
       bind_r (js_get data (js ''choices'')) (\<lambda>choices.
       bind_r (js_first choices) (\<lambda>choice.
       let content = js_opt_get (js_opt_get choice (js ''message'')) (js ''content'') in
       if \<not> truthy content then Inl (PlainError (js ''No content in Groq response''))
       else reply_assessment json_parse (js ''groq'') model latency content))))"

definition ollama_evaluate_risk ::
    "(jstring \<Rightarrow> exn + jvalue) \<Rightarrow> jstring \<Rightarrow> jnum \<Rightarrow> exn + fetch_response \<Rightarrow> exn + risk_assessment" where
  "ollama_evaluate_risk json_parse model latency fetched =
     bind_r fetched (\<lambda>response.
     if \<not> fr_ok response then Inl (api_error ''Ollama'' response)
     else bind_r (fr_body response) (\<lambda>data.
       bind_r (js_get data (js ''response'')) (\<lambda>content.
       if \<not> truthy content then Inl (PlainError (js ''No response in Ollama payload''))
       else reply_assessment json_parse (js ''ollama'') model latency content)))"

section \<open>Lemmas\<close>

lemma obligation_le_iff: "obligation_rank a \<le> obligation_rank b \<longleftrightarrow> a \<le> (b :: obligation)"
  by (simp add: less_eq_obligation_def)

lemma escalate_eq:
  "escalate_obligation c w a = (if ra_score a < risk_threshold c then w else max w (escalation_target c))"
  by (cases w; cases "escalation_target c")
    (simp_all add: escalate_obligation_def max_def less_eq_obligation_def obligation_rank_def)

lemma heuristic_Inr:
  "heuristic_risk_score meth name v lat = Inr h \<longleftrightarrow>
     (\<exists>flags. heuristic_flags v = Inr flags \<and>
        h = \<lparr>ra_score = min 100 (max 0 (sum_list (map fst flags))),
             ra_band = band_of (min 100 (max 0 (sum_list (map fst flags)))),
             ra_rationale = (if flags \<noteq> [] then js ''Flagged by heuristics: '' @ join_with (js '', '') (map snd flags)
                             else js ''No heuristic flags''),
             ra_signals = map snd flags, ra_provider = js ''heuristic'', ra_model = js ''static-v1'',
             ra_cached = False, ra_latencyMs = lat\<rparr>)"
  by (cases "heuristic_flags v") (auto simp: heuristic_risk_score_def Let_def)

lemma flag_scores: "list_all (\<lambda>p. fst p \<ge> 30) (value_flags v)" "list_all (\<lambda>p. fst p \<ge> 30) (size_flags n)"
  by (simp_all add: value_flags_def size_flags_def)

lemma sum_flags_nonneg: "list_all (\<lambda>p. fst p \<ge> (30 :: int)) flags \<Longrightarrow> 0 \<le> sum_list (map fst flags)"
  by (induction flags) auto

lemma sum_flags_member:
  "list_all (\<lambda>p. fst p \<ge> (30 :: int)) flags \<Longrightarrow> p \<in> set flags \<Longrightarrow> fst p \<le> sum_list (map fst flags)"
  using sum_flags_nonneg by (induction flags) fastforce+

lemma heuristic_flags_scores:
  "heuristic_flags v = Inr flags \<Longrightarrow> list_all (\<lambda>p. fst p \<ge> 30) flags"
  using flag_scores by (fastforce simp: heuristic_flags_def bind_r_Inr_iff list_all_iff split: option.splits)

lemma heuristic_score_range: "heuristic_risk_score meth name v lat = Inr h \<Longrightarrow> 0 \<le> ra_score h \<and> ra_score h \<le> 100"
  by (auto simp: heuristic_Inr)

lemma value_flag_in_heuristic:
  assumes "heuristic_risk_score meth name v lat = Inr h" "x \<in> set (js_values v)" "js_string x = Inr t"
    "p \<in> set (value_flags t)"
  shows "min 100 (fst p) \<le> ra_score h \<and> snd p \<in> set (ra_signals h)"
proof -
  obtain flags where f: "heuristic_flags v = Inr flags"
    "ra_score h = min 100 (max 0 (sum_list (map fst flags)))" "ra_signals h = map snd flags"
    using assms(1) by (auto simp: heuristic_Inr)
  obtain vals n where v: "map_r js_string (js_values v) = Inr vals" "flags = size_flags n @ concat (map value_flags vals)"
    using f(1) by (auto simp: heuristic_flags_def bind_r_Inr_iff split: option.splits)
  have "t \<in> set vals"
    using v(1) assms(2,3) by (auto simp: map_r_Inr_iff list_all2_conv_all_nth in_set_conv_nth)
  then have p: "p \<in> set flags" using v(2) assms(4) by auto
  then show ?thesis
    using sum_flags_member [OF heuristic_flags_scores [OF f(1)] p] f(2,3) by force
qed

lemma evaluate_cases:
  assumes "heuristic_risk_score meth name v lat = Inr h"
  obtains (kept) "evaluate_risk c provider meth name v lat = Inr h"
      "\<not> (ra_score h < risk_threshold c \<and> rk_heuristicOnly c \<noteq> Some True \<and>
          (\<exists>p err. provider = Some p \<and>
             llm_race (case rk_llmTimeoutMs c of None \<Rightarrow> 5000 | Some t \<Rightarrow> t) (p meth name v) = Inl err))"
    | (raised) llm where
      "evaluate_risk c provider meth name v lat = Inr (llm\<lparr>ra_signals := ra_signals h @ ra_signals llm\<rparr>)"
      "ra_score h < ra_score llm"
      "\<exists>p. provider = Some p \<and>
         llm_race (case rk_llmTimeoutMs c of None \<Rightarrow> 5000 | Some t \<Rightarrow> t) (p meth name v) = Inr llm"
    | (failed) err where "evaluate_risk c provider meth name v lat = Inr (failed_assessment h err)"
proof (cases "ra_score h \<ge> risk_threshold c \<or> rk_heuristicOnly c = Some True")
  case True
  with assms show ?thesis by (intro kept) (auto simp: evaluate_risk_def)
next
  case False
  show ?thesis
  proof (cases provider)
    case None
    with False assms show ?thesis by (intro kept) (simp_all add: evaluate_risk_def)
  next
    case (Some p)
    show ?thesis
    proof (cases "llm_race (case rk_llmTimeoutMs c of None \<Rightarrow> 5000 | Some t \<Rightarrow> t) (p meth name v)")
      case (Inl err)
      with False assms Some show ?thesis by (intro failed [of err]) (simp add: evaluate_risk_def)
    next
      case (Inr llm)
      with False assms Some show ?thesis
        by (cases "ra_score h < ra_score llm") (auto simp: evaluate_risk_def intro: kept raised)
    qed
  qed
qed

section \<open>Properties\<close>

text \<open>
  Escalation only raises an obligation: the result is the policy's obligation below the
  threshold, and the stronger of it and the configured target from the threshold on; a higher score
  never gives a weaker obligation.
\<close>

theorem escalation_never_downgrades:
  "escalate_obligation c w a = (if ra_score a < risk_threshold c then w else max w (escalation_target c))
   \<and> w \<le> escalate_obligation c w a
   \<and> (ra_score a \<le> ra_score b \<longrightarrow> escalate_obligation c w a \<le> escalate_obligation c w b)"
  by (simp add: escalate_eq)

definition default_risk_config :: risk_config where
  "default_risk_config = \<lparr>rk_heuristicOnly = None, rk_llmTimeoutMs = None,
     rk_escalationThreshold = None, rk_escalateObligation = None\<rparr>"

definition sample_assessment :: "int \<Rightarrow> risk_assessment" where
  "sample_assessment n = \<lparr>ra_score = n, ra_band = band_of n, ra_rationale = [], ra_signals = [],
     ra_provider = js ''groq'', ra_model = js ''m'', ra_cached = False, ra_latencyMs = num_of_nat 1\<rparr>"

lemma escalation_never_downgrades_witness:
  "escalate_obligation default_risk_config Review (sample_assessment 10) \<le>
   escalate_obligation default_risk_config Review (sample_assessment 90)
   \<and> escalate_obligation default_risk_config Review (sample_assessment 90) = Approve"
  using escalation_never_downgrades [of default_risk_config Review "sample_assessment 10" "sample_assessment 90"]
    escalation_never_downgrades [of default_risk_config Review "sample_assessment 90"]
  by (simp add: sample_assessment_def default_risk_config_def risk_threshold_def escalation_target_def
      max_def less_eq_obligation_def obligation_rank_def)

text \<open>
  C20: the engine fails closed. Whatever the provider does, the assessment is never milder than the
  heuristic one and keeps its signals; and when the provider was asked and failed or did not answer
  in time, the obligation is the stronger of the policy's and the escalation target, for any
  threshold up to 100.
\<close>

theorem risk_engine_fails_closed:
  assumes "heuristic_risk_score meth name v lat = Inr h"
  shows "\<exists>a. evaluate_risk c provider meth name v lat = Inr a
    \<and> ra_score h \<le> ra_score a \<and> set (ra_signals h) \<subseteq> set (ra_signals a)
    \<and> escalate_obligation c w h \<le> escalate_obligation c w a
    \<and> (ra_score h < risk_threshold c \<and> rk_heuristicOnly c \<noteq> Some True \<and> risk_threshold c \<le> 100
        \<and> (\<exists>p err. provider = Some p \<and>
             llm_race (case rk_llmTimeoutMs c of None \<Rightarrow> 5000 | Some t \<Rightarrow> t) (p meth name v) = Inl err)
       \<longrightarrow> ra_score a = 100 \<and> ra_band a = RCritical
           \<and> escalate_obligation c w a = max w (escalation_target c))"
  using heuristic_score_range [OF assms]
  by (cases rule: evaluate_cases [OF assms, of c provider]) (auto simp: escalate_eq failed_assessment_def)

lemma risk_engine_fails_closed_witness:
  "\<exists>a. evaluate_risk default_risk_config (Some (\<lambda>_ _ _. Hangs)) (js ''tools/call'') (js ''t'') (JObject []) NaN
         = Inr a \<and> escalate_obligation default_risk_config Allow a = Approve"
proof -
  obtain h where h: "heuristic_risk_score (js ''tools/call'') (js ''t'') (JObject []) NaN = Inr h" "ra_score h = 0"
    by (auto simp: heuristic_risk_score_def heuristic_flags_def truthy_def js_values_def bracketed_def
        size_flags_def)
  from risk_engine_fails_closed [OF h(1), of default_risk_config "Some (\<lambda>_ _ _. Hangs)" Allow] h(2)
  show ?thesis
    by (auto simp: default_risk_config_def risk_threshold_def llm_race_def escalation_target_def
        max_def less_eq_obligation_def obligation_rank_def)
qed

text \<open>
  What the heuristics flag. The score is between 0 and 100 and the band is the score's; a shell
  command or a sensitive path in the text of any top-level value gives the maximum, a traversal at
  least 50.
\<close>

theorem heuristic_flags_top_level:
  assumes "heuristic_risk_score meth name v lat = Inr h" "x \<in> set (js_values v)" "js_string x = Inr t"
  shows "0 \<le> ra_score h \<and> ra_score h \<le> 100 \<and> ra_band h = band_of (ra_score h)
    \<and> (str_includes t (js ''; rm -rf '') \<or> str_includes t (js ''; curl '') \<or> str_includes t (js ''; wget '')
       \<or> str_includes t (js ''/etc/shadow'') \<or> str_includes t (js ''.ssh/id_rsa'')
       \<longrightarrow> ra_score h = 100 \<and> ra_band h = RCritical)
    \<and> (str_includes t (js ''../'') \<or> str_includes t [46, 46, 92]
       \<longrightarrow> 50 \<le> ra_score h \<and> js ''Directory traversal characters detected'' \<in> set (ra_signals h))"
proof (intro conjI impI)
  note range = heuristic_score_range [OF assms(1)]
  note flag = value_flag_in_heuristic [OF assms]
  show "0 \<le> ra_score h" "ra_score h \<le> 100" using range by auto
  show band: "ra_band h = band_of (ra_score h)" using assms(1) by (auto simp: heuristic_Inr)
  {
    assume "str_includes t (js ''; rm -rf '') \<or> str_includes t (js ''; curl '')
      \<or> str_includes t (js ''; wget '') \<or> str_includes t (js ''/etc/shadow'')
      \<or> str_includes t (js ''.ssh/id_rsa'')"
    then have "(100, js ''Suspicious shell commands detected'') \<in> set (value_flags t)
        \<or> (100, js ''Sensitive file paths detected'') \<in> set (value_flags t)"
      unfolding value_flags_def set_append by (elim disjE) simp_all
    then obtain m where "(100, m) \<in> set (value_flags t)" by blast
    from flag [OF this] range have "ra_score h = 100" by simp
    with band show "ra_score h = 100" "ra_band h = RCritical" by (simp_all add: band_of_def)
  }
  {
    assume "str_includes t (js ''../'') \<or> str_includes t [46, 46, 92]"
    then have "(50, js ''Directory traversal characters detected'') \<in> set (value_flags t)"
      unfolding value_flags_def by simp
    from flag [OF this] show "50 \<le> ra_score h"
      "js ''Directory traversal characters detected'' \<in> set (ra_signals h)" by simp_all
  }
qed

lemma heuristic_flags_top_level_witness:
  "\<exists>h. heuristic_risk_score (js ''tools/call'') (js ''t'') (JObject [(js ''p'', JString (js ''../x''))]) NaN = Inr h
     \<and> 50 \<le> ra_score h"
proof -
  let ?v = "JObject [(js ''p'', JString (js ''../x''))]"
  obtain h where h: "heuristic_risk_score (js ''tools/call'') (js ''t'') ?v NaN = Inr h"
    by (auto simp: heuristic_risk_score_def heuristic_flags_def truthy_def js_values_def Let_def)
  have "str_includes (js ''../x'') (js ''../'')" by (simp add: str_includes_def starts_with_def js_def)
  with heuristic_flags_top_level [OF h, of "JString (js ''../x'')" "js ''../x''"] h
  show ?thesis by (auto simp: js_values_def)
qed

text \<open>
  The heuristics look at the text of top-level values only. Arguments whose values are all
  objects score 0, whatever the objects hold, as long as the payload is small and no object has a
  property \<open>toString\<close>; with such a property the evaluation throws.
\<close>

theorem heuristic_ignores_nested:
  assumes "list_all (\<lambda>(k, x). \<exists>inner. x = JObject inner) kvs"
    "stringify (JObject kvs) = Inr (Some t)" "length t \<le> 10000"
  shows "if list_all (\<lambda>(k, x). js_string x = Inr (js ''[object Object]'')) kvs
    then \<exists>h. heuristic_risk_score meth name (JObject kvs) lat = Inr h \<and> ra_score h = 0 \<and> ra_signals h = []
    else \<forall>c provider. evaluate_risk c provider meth name (JObject kvs) lat = Inl TypeError"
proof -
  have vals: "if list_all (\<lambda>(k, x). js_string x = Inr (js ''[object Object]'')) kvs
      then map_r js_string (map snd kvs) = Inr (map (\<lambda>_. js ''[object Object]'') kvs)
      else map_r js_string (map snd kvs) = Inl TypeError"
    using assms(1) by (induction kvs) (auto split: if_splits)
  have "value_flags (js ''[object Object]'') = []"
    by (simp add: value_flags_def str_includes_def starts_with_def js_def)
  then have none: "concat (map value_flags (map (\<lambda>_. js ''[object Object]'') kvs)) = []" by (induction kvs) simp_all
  have flags: "heuristic_flags (JObject kvs) = bind_r (map_r js_string (map snd kvs))
      (\<lambda>values. Inr (concat (map value_flags values)))"
    using assms(2,3) by (simp add: heuristic_flags_def truthy_def js_values_def size_flags_def del: stringify.simps)
  show ?thesis
  proof (cases "list_all (\<lambda>(k, x). js_string x = Inr (js ''[object Object]'')) kvs")
    case True
    with vals none flags have "heuristic_flags (JObject kvs) = Inr []" by (simp del: map_map)
    with True show ?thesis by (auto simp: heuristic_Inr)
  next
    case False
    with vals flags have "heuristic_flags (JObject kvs) = Inl TypeError" by simp
    with False show ?thesis by (simp add: evaluate_risk_def heuristic_risk_score_def)
  qed
qed

lemma heuristic_ignores_nested_witness:
  "(\<exists>h. heuristic_risk_score (js ''tools/call'') (js ''t'')
       (JObject [(js ''a'', JObject [(js ''b'', JString (js ''x; rm -rf /''))])]) NaN = Inr h \<and> ra_score h = 0)
   \<and> evaluate_risk default_risk_config None (js ''tools/call'') (js ''t'')
       (JObject [(js ''a'', JObject [(js ''toString'', JNull)])]) NaN = Inl TypeError"
proof -
  obtain t u where t: "stringify (JObject [(js ''a'', JObject [(js ''b'', JString (js ''x; rm -rf /''))])]) = Inr (Some t)"
      "length t \<le> 10000"
    and u: "stringify (JObject [(js ''a'', JObject [(js ''toString'', JNull)])]) = Inr (Some u)" "length u \<le> 10000"
    by (simp add: bracketed_def json_quote_def esc_cp_def utf16_def is_high_def js_def word_le_nat_alt)
  have tl: "list_all (\<lambda>(k, x). \<exists>inner. x = JObject inner) [(js ''a'', JObject [(js ''b'', JString (js ''x; rm -rf /''))])]"
    "list_all (\<lambda>(k, x). \<exists>inner. x = JObject inner) [(js ''a'', JObject [(js ''toString'', JNull)])]" by simp_all
  from heuristic_ignores_nested [OF tl(1) t, of "js ''tools/call''" "js ''t''" NaN]
    heuristic_ignores_nested [OF tl(2) u, of "js ''tools/call''" "js ''t''" NaN]
  show ?thesis by (auto simp: js_def)
qed

end
