(* ===== verification/Approvals.thy ===== *)
theory Approvals
  imports CoreTypes Values
begin

text \<open>
  Human approvals: the signed tokens of \<open>packages/approvals/src/signer.ts\<close> and the request table
  of \<open>packages/approvals/src/store.ts\<close>. HMAC-SHA-256 is OpenSSL's, a parameter from key and
  message to tag; the clock is an argument. A table is the list of its rows in insertion order; a
  statement that the database itself fails is given the error it throws.
\<close>

type_synonym hmac_fun = "byte list \<Rightarrow> byte list \<Rightarrow> byte list"

section \<open>Signed tokens\<close>

record signer =
  secret :: "byte list"
  expirationMs :: int

definition new_signer :: "jstring \<Rightarrow> int option \<Rightarrow> signer" where
  "new_signer secretHex expiration =
     \<lparr>secret = of_hex secretHex,
      expirationMs = (case expiration of None \<Rightarrow> 24 * 60 * 60 * 1000 | Some e \<Rightarrow> e)\<rparr>"

datatype decision_action = ActApprove | ActDeny

definition action_text :: "decision_action \<Rightarrow> jstring" where
  "action_text a = (case a of ActApprove \<Rightarrow> js ''approve'' | ActDeny \<Rightarrow> js ''deny'')"

definition token_payload :: "jstring \<Rightarrow> decision_action \<Rightarrow> int \<Rightarrow> jstring" where
  "token_payload approvalId action expiresAt =
     approvalId @ 58 # action_text action @ 58 # dec_int expiresAt"

definition sign :: "hmac_fun \<Rightarrow> signer \<Rightarrow> int \<Rightarrow> jstring \<Rightarrow> decision_action \<Rightarrow> jstring" where
  "sign hmac sg now approvalId action =
     (let expiresAt = now + expirationMs sg;
          payload = token_payload approvalId action expiresAt
      in payload @ 58 # to_hex (hmac (secret sg) (utf8 payload)))"

text \<open>
  \<open>parseInt(s, 10)\<close>: white space, a sign, the digits up to the first other character; \<open>None\<close> is
  NaN. Exact below \<open>2 ^ 53\<close>, beyond any clock.
\<close>

definition parse_int :: "jstring \<Rightarrow> int option" where
  "parse_int s =
     (let t = dropWhile js_space s;
          minus = take 1 t = [45];
          body = (if minus \<or> take 1 t = [43] then drop 1 t else t);
          ds = takeWhile is_digit body
      in if ds = [] then None else Some (if minus then - int (undec ds) else int (undec ds)))"

definition verify :: "hmac_fun \<Rightarrow> signer \<Rightarrow> int \<Rightarrow> jstring \<Rightarrow> exn + (jstring \<times> decision_action)" where
  "verify hmac sg now token =
     (case split_on 58 token of
        [approvalId, action, expiresAtStr, providedHmac] \<Rightarrow>
          (if action \<noteq> js ''approve'' \<and> action \<noteq> js ''deny''
           then Inl (PlainError (js ''Invalid action in token''))
           else let act = (if action = js ''approve'' then ActApprove else ActDeny) in
             case parse_int expiresAtStr of
               None \<Rightarrow> Inl (PlainError (js ''Token has expired''))
             | Some expiresAt \<Rightarrow>
                 if now > expiresAt then Inl (PlainError (js ''Token has expired''))
                 else let expected = hmac (secret sg) (utf8 (token_payload approvalId act expiresAt));
                          provided = of_hex providedHmac;
                          expected' = of_hex (to_hex expected)
                   in if length provided \<noteq> length expected' \<or> provided \<noteq> expected'
                      then Inl (PlainError (js ''Invalid signature''))
                      else Inr (approvalId, act))
      | _ \<Rightarrow> Inl (PlainError (js ''Invalid token format'')))"

lemma action_text_no_colon: "58 \<notin> set (action_text a)"
  by (simp add: action_text_def js_def split: decision_action.splits)

lemma action_texts [simp]: "js ''deny'' \<noteq> js ''approve''" "js ''approve'' \<noteq> js ''deny''"
  by (simp_all add: js_def)

lemma dec_int_no_colon: "58 \<notin> set (dec_int i)"
proof
  have "\<not> is_digit 58" by (simp add: is_digit_def)
  moreover assume "58 \<in> set (dec_int i)"
  ultimately show False by (auto simp: dec_int_def dest: dec_digits split: if_splits)
qed

lemma to_hex_chars: "c \<in> set (to_hex bs) \<Longrightarrow> \<exists>d < 16. c = hex_lower d"
proof -
  assume "c \<in> set (to_hex bs)"
  then obtain b :: byte where "c = hex_lower (unat b div 16) \<or> c = hex_lower (unat b mod 16)"
    by (auto simp: to_hex_def)
  moreover have "unat b div 16 < 16" "unat b mod 16 < 16" using unat_byte_bound [of b] by auto
  ultimately show ?thesis by blast
qed

lemma to_hex_no_colon: "58 \<notin> set (to_hex bs)"
  by (auto simp: hex_lower_def word_eq_unat unat_cu split: if_splits dest!: to_hex_chars)

lemma takeWhile_digits [simp]: "takeWhile is_digit (dec n) = dec n"
  using dec_digits by (simp add: takeWhile_eq_all_conv)

lemma dec_head: "\<exists>c r. dec n = c # r \<and> is_digit c"
  using dec_digits [of _ n] by (cases "dec n") auto

lemma digit_not_space: "is_digit c \<Longrightarrow> \<not> js_space c \<and> c \<noteq> 45 \<and> c \<noteq> 43"
  by (auto simp: is_digit_def js_space_def word_le_nat_alt)

lemma parse_int_dec: "parse_int (dec n) = Some (int n)"
proof -
  obtain c r where c: "dec n = c # r" "is_digit c" using dec_head by blast
  with digit_not_space [of c] have "dropWhile js_space (dec n) = dec n" "take 1 (dec n) \<noteq> [45]"
    "take 1 (dec n) \<noteq> [43]" by simp_all
  then show ?thesis by (simp add: parse_int_def Let_def)
qed

lemma parse_int_minus: "parse_int (45 # dec n) = Some (- int n)"
  by (simp add: parse_int_def js_space_def Let_def)

lemma parse_int_dec_int [simp]: "parse_int (dec_int i) = Some i"
  by (simp add: dec_int_def parse_int_dec parse_int_minus)

lemma split_token:
  assumes "58 \<notin> set i"
  shows "split_on 58 (token_payload i a e @ 58 # to_hex h) = [i, action_text a, dec_int e, to_hex h]"
proof -
  have "split_on 58 (token_payload i a e @ 58 # to_hex h)
      = split_on 58 (i @ 58 # (action_text a @ 58 # (dec_int e @ 58 # to_hex h)))"
    by (simp add: token_payload_def)
  then show ?thesis
    using assms action_text_no_colon [of a] dec_int_no_colon [of e] to_hex_no_colon [of h]
    by (simp add: split_on_append split_on_single)
qed

lemma token_payload_inject:
  assumes "58 \<notin> set i" "58 \<notin> set j" "token_payload i a e = token_payload j b f"
  shows "i = j \<and> a = b \<and> e = f"
proof -
  from assms split_token [of i a e "[]"] split_token [of j b f "[]"]
  have p: "i = j" "action_text a = action_text b" "dec_int e = dec_int f" by simp_all
  moreover from p(2) have "a = b" by (cases a; cases b) (simp_all add: action_text_def)
  moreover have "e = f" using p(3) by (metis option.inject parse_int_dec_int)
  ultimately show ?thesis by simp
qed

lemma verify_Inr_iff:
  "verify hmac sg now token = Inr (i, a) \<longleftrightarrow>
    (\<exists>es tag e. split_on 58 token = [i, action_text a, es, tag] \<and> parse_int es = Some e \<and> now \<le> e
       \<and> of_hex tag = hmac (secret sg) (utf8 (token_payload i a e)))"
proof -
  have act': "(if action_text b = js ''approve'' then ActApprove else ActDeny) = b"
    "action_text b = js ''approve'' \<or> action_text b = js ''deny''" for b
    by (cases b; simp add: action_text_def)+
  show ?thesis
  proof
    assume "verify hmac sg now token = Inr (i, a)"
    then show "\<exists>es tag e. split_on 58 token = [i, action_text a, es, tag] \<and> parse_int es = Some e
        \<and> now \<le> e \<and> of_hex tag = hmac (secret sg) (utf8 (token_payload i a e))"
      by (auto simp: verify_def Let_def action_text_def split: list.splits option.splits if_splits)
  next
    assume "\<exists>es tag e. split_on 58 token = [i, action_text a, es, tag] \<and> parse_int es = Some e
        \<and> now \<le> e \<and> of_hex tag = hmac (secret sg) (utf8 (token_payload i a e))"
    then show "verify hmac sg now token = Inr (i, a)"
      using act' [of a] by (auto simp: verify_def)
  qed
qed

section \<open>Requests that are decided at most once\<close>

text \<open>
  What the gateway relies on in the table: a rejected operation changes nothing, a decision needs
  the request to be pending and leaves it decided, and a decided request stays as it is. The
  client lemma: over any sequence of operations each request is decided at most once.
\<close>

locale single_use =
  fixes inv :: "'db \<Rightarrow> bool"
    and status :: "'db \<Rightarrow> jstring \<Rightarrow> approval_state option"
    and step :: "'op \<Rightarrow> 'db \<Rightarrow> exn + 'db"
    and decides :: "'op \<Rightarrow> jstring \<Rightarrow> bool"
  assumes step_inv: "inv db \<Longrightarrow> step p db = Inr db' \<Longrightarrow> inv db'"
    and stable: "inv db \<Longrightarrow> step p db = Inr db' \<Longrightarrow> status db i = Some s \<Longrightarrow> s \<noteq> Pending \<Longrightarrow>
      status db' i = Some s"
    and decided: "inv db \<Longrightarrow> step p db = Inr db' \<Longrightarrow> decides p i \<Longrightarrow>
      status db i = Some Pending \<and> (\<exists>s. status db' i = Some s \<and> s \<noteq> Pending)"
begin

definition after :: "'op \<Rightarrow> 'db \<Rightarrow> 'db" where
  "after p db = (case step p db of Inl _ \<Rightarrow> db | Inr db' \<Rightarrow> db')"

definition takes_effect :: "jstring \<Rightarrow> 'op \<Rightarrow> 'db \<Rightarrow> bool" where
  "takes_effect i p db = (decides p i \<and> (case step p db of Inl _ \<Rightarrow> False | Inr _ \<Rightarrow> True))"

fun decisions :: "jstring \<Rightarrow> 'op list \<Rightarrow> 'db \<Rightarrow> nat" where
  "decisions i [] db = 0"
| "decisions i (p # ps) db = (if takes_effect i p db then 1 else 0) + decisions i ps (after p db)"

lemma inv_after: "inv db \<Longrightarrow> inv (after p db)"
  using step_inv [of db p] by (auto simp: after_def split: sum.splits)

lemma no_more: "inv db \<Longrightarrow> status db i = Some s \<Longrightarrow> s \<noteq> Pending \<Longrightarrow> decisions i ps db = 0"
proof (induction ps arbitrary: db)
  case (Cons p ps)
  have "status (after p db) i = Some s"
    using Cons.prems stable [of db p] by (auto simp: after_def split: sum.splits)
  moreover have "\<not> takes_effect i p db"
    using Cons.prems decided [of db p] by (auto simp: takes_effect_def split: sum.splits)
  ultimately show ?case using Cons.IH [of "after p db"] Cons.prems inv_after by simp
qed simp

lemma at_most_once: "inv db \<Longrightarrow> decisions i ps db \<le> 1"
proof (induction ps arbitrary: db)
  case (Cons p ps)
  show ?case
  proof (cases "takes_effect i p db")
    case True
    then obtain db' where s: "step p db = Inr db'" "decides p i"
      by (auto simp: takes_effect_def split: sum.splits)
    with Cons.prems decided obtain t where "status db' i = Some t" "t \<noteq> Pending" by blast
    with s True step_inv [OF Cons.prems s(1)] no_more [of db' i t ps] show ?thesis
      by (simp add: after_def)
  next
    case False
    with Cons inv_after show ?thesis by simp
  qed
qed simp

end

section \<open>The approvals table\<close>

record approval_request =
  ap_approvalId :: jstring
  ap_agentId :: jstring
  ap_method :: jstring
  ap_qualifiedName :: jstring
  ap_params :: jstring
  ap_state :: approval_state
  ap_requestedAt :: jstring
  ap_decidedAt :: "jstring option"
  ap_approver :: "jstring option"
  ap_reason :: "jstring option"

type_synonym approvals_table = "approval_request list"

text \<open>The \<open>INSERT\<close> names seven columns; the other three are \<open>NULL\<close>. The id is the primary key.\<close>

definition create_approval ::
    "exn option \<Rightarrow> approval_request \<Rightarrow> approvals_table \<Rightarrow> exn + approvals_table" where
  "create_approval fault request db =
     (case fault of
        Some e \<Rightarrow> Inl e
      | None \<Rightarrow>
          if list_ex (\<lambda>row. ap_approvalId row = ap_approvalId request) db
          then Inl (PlainError (js ''UNIQUE constraint failed: approvals.approvalId''))
          else Inr (db @ [request\<lparr>ap_decidedAt := None, ap_approver := None, ap_reason := None\<rparr>]))"

definition get_approval :: "jstring \<Rightarrow> approvals_table \<Rightarrow> approval_request option" where
  "get_approval approvalId db = find (\<lambda>row. ap_approvalId row = approvalId) db"

text \<open>\<open>UPDATE ... WHERE approvalId = @approvalId AND state = 'pending'\<close>, then the change count.\<close>

definition update_state :: "exn option \<Rightarrow> jstring \<Rightarrow> jstring \<Rightarrow> approval_state \<Rightarrow> jstring option \<Rightarrow>
    jstring option \<Rightarrow> approvals_table \<Rightarrow> exn + approvals_table" where
  "update_state fault decidedAt approvalId st approver reason db =
     (case fault of
        Some e \<Rightarrow> Inl e
      | None \<Rightarrow>
          let hit = (\<lambda>row. ap_approvalId row = approvalId \<and> ap_state row = Pending) in
          if length (filter hit db) = 0
          then Inl (PlainError (js ''Approval '' @ approvalId
                      @ js '' is not in pending state or does not exist''))
          else Inr (map (\<lambda>row. if hit row
                 then row\<lparr>ap_state := st, ap_decidedAt := Some decidedAt, ap_approver := approver,
                          ap_reason := reason\<rparr>
                 else row) db))"

datatype approval_op =
    OpCreate "exn option" approval_request
  | OpUpdate "exn option" jstring jstring approval_state "jstring option" "jstring option"

fun approval_step :: "approval_op \<Rightarrow> approvals_table \<Rightarrow> exn + approvals_table" where
  "approval_step (OpCreate fault request) db = create_approval fault request db"
| "approval_step (OpUpdate fault decidedAt i st approver reason) db =
     update_state fault decidedAt i st approver reason db"

fun decides_approval :: "approval_op \<Rightarrow> jstring \<Rightarrow> bool" where
  "decides_approval (OpCreate _ _) i = False"
| "decides_approval (OpUpdate _ _ j st _ _) i = (j = i \<and> st \<noteq> Pending)"

definition approval_status :: "approvals_table \<Rightarrow> jstring \<Rightarrow> approval_state option" where
  "approval_status db i = map_option ap_state (get_approval i db)"

definition wf_table :: "approvals_table \<Rightarrow> bool" where
  "wf_table db = distinct (map ap_approvalId db)"

lemma wf_create: "wf_table db \<Longrightarrow> create_approval f r db = Inr db' \<Longrightarrow> wf_table db'"
  by (fastforce simp: wf_table_def create_approval_def list_ex_iff split: option.splits if_splits)

lemma update_ids:
  "update_state f d i st a r db = Inr db' \<Longrightarrow> map ap_approvalId db' = map ap_approvalId db"
  by (auto simp: update_state_def Let_def split: option.splits if_splits)

lemma wf_update: "wf_table db \<Longrightarrow> update_state f d i st a r db = Inr db' \<Longrightarrow> wf_table db'"
  by (simp add: wf_table_def update_ids)

lemma wf_step: "wf_table db \<Longrightarrow> approval_step p db = Inr db' \<Longrightarrow> wf_table db'"
  by (cases p) (auto intro: wf_create wf_update)

lemma find_append': "find P (xs @ ys) = (case find P xs of None \<Rightarrow> find P ys | Some x \<Rightarrow> Some x)"
  by (induction xs) auto

lemma get_after_create:
  assumes "create_approval f r db = Inr db'"
  shows "get_approval i db' = (if ap_approvalId r = i
      then Some (r\<lparr>ap_decidedAt := None, ap_approver := None, ap_reason := None\<rparr>)
      else get_approval i db)"
proof -
  from assms have db': "db' = db @ [r\<lparr>ap_decidedAt := None, ap_approver := None, ap_reason := None\<rparr>]"
    and new: "find (\<lambda>row. ap_approvalId row = ap_approvalId r) db = None"
    by (auto simp: create_approval_def list_ex_iff find_None_iff split: option.splits if_splits)
  show ?thesis
  proof (cases "ap_approvalId r = i")
    case True
    with new show ?thesis by (simp add: db' get_approval_def find_append')
  next
    case False
    then show ?thesis by (simp add: db' get_approval_def find_append' split: option.splits)
  qed
qed

lemma find_map_id:
  "(\<And>x. g (f x) = g x) \<Longrightarrow> find (\<lambda>x. g x = k) (map f xs) = map_option f (find (\<lambda>x. g x = k) xs)"
  by (induction xs) auto

lemma get_after_update:
  "update_state f d j st a r db = Inr db' \<Longrightarrow>
    get_approval i db' = map_option (\<lambda>row. if ap_approvalId row = j \<and> ap_state row = Pending
      then row\<lparr>ap_state := st, ap_decidedAt := Some d, ap_approver := a, ap_reason := r\<rparr> else row)
      (get_approval i db)"
  by (auto simp: update_state_def get_approval_def Let_def find_map_id split: option.splits if_splits)

lemma get_approval_id: "get_approval i db = Some row \<Longrightarrow> ap_approvalId row = i"
  by (auto simp: get_approval_def dest: find_Some_iff_first)

lemma update_hit:
  "wf_table db \<Longrightarrow> update_state f d i st a r db = Inr db' \<Longrightarrow> approval_status db i = Some Pending"
proof -
  assume wf: "wf_table db" and "update_state f d i st a r db = Inr db'"
  then obtain row where row: "row \<in> set db" "ap_approvalId row = i" "ap_state row = Pending"
    by (auto simp: update_state_def Let_def filter_empty_conv split: option.splits if_splits)
  then obtain row' where "get_approval i db = Some row'"
    by (cases "get_approval i db") (auto simp: get_approval_def find_None_iff)
  moreover from this wf row have "row' = row"
    by (auto simp: wf_table_def get_approval_def distinct_map dest!: find_Some_iff_first inj_onD)
  ultimately show ?thesis using row by (simp add: approval_status_def)
qed

lemma status_after_decision:
  assumes "approval_step p db = Inr db'" "approval_status db i = Some s" "s \<noteq> Pending"
  shows "approval_status db' i = Some s"
proof (cases p)
  case (OpCreate f r)
  with assms(1) have c: "create_approval f r db = Inr db'" by simp
  have "ap_approvalId r \<noteq> i"
    using c assms(2) get_approval_id [of i db]
    by (auto simp: create_approval_def approval_status_def get_approval_def list_ex_iff
        dest: find_Some_iff_first split: option.splits if_splits)
  with assms c show ?thesis by (simp add: approval_status_def get_after_create)
next
  case (OpUpdate f d j t a r)
  with assms(1) have u: "update_state f d j t a r db = Inr db'" by simp
  from assms(2,3) show ?thesis by (auto simp: approval_status_def get_after_update [OF u])
qed

lemma decision_needs_pending:
  assumes "wf_table db" "approval_step p db = Inr db'" "decides_approval p i"
  shows "approval_status db i = Some Pending \<and> (\<exists>s. approval_status db' i = Some s \<and> s \<noteq> Pending)"
proof -
  from assms(3) obtain f d t a r where p: "p = OpUpdate f d i t a r" "t \<noteq> Pending" by (cases p) auto
  with assms(2) have u: "update_state f d i t a r db = Inr db'" by simp
  have pend: "approval_status db i = Some Pending" by (rule update_hit [OF assms(1) u])
  then obtain row where "get_approval i db = Some row" "ap_state row = Pending"
    by (auto simp: approval_status_def)
  with get_approval_id [of i db row] p(2) pend show ?thesis
    by (auto simp: approval_status_def get_after_update [OF u])
qed

interpretation approvals: single_use wf_table approval_status approval_step decides_approval
  by unfold_locales (erule (1) wf_step, erule (2) status_after_decision, rule decision_needs_pending)


text \<open>The number of decisions on a request that take effect over a sequence of operations.\<close>

fun count_decisions :: "jstring \<Rightarrow> approval_op list \<Rightarrow> approvals_table \<Rightarrow> nat" where
  "count_decisions i [] db = 0"
| "count_decisions i (p # ps) db =
     (case approval_step p db of
        Inl _ \<Rightarrow> count_decisions i ps db
      | Inr db' \<Rightarrow> (if decides_approval p i then 1 else 0) + count_decisions i ps db')"

lemma count_decisions_eq: "count_decisions i ps db = approvals.decisions i ps db"
  by (induction ps arbitrary: db)
     (auto simp: approvals.takes_effect_def approvals.after_def split: sum.splits)

text \<open>The table after a sequence of operations; one that fails leaves it as it was.\<close>

fun table_after :: "approval_op list \<Rightarrow> approvals_table \<Rightarrow> approvals_table" where
  "table_after [] db = db"
| "table_after (p # ps) db = (case approval_step p db of Inl _ \<Rightarrow> table_after ps db | Inr db' \<Rightarrow> table_after ps db')"

lemma table_after_append: "table_after (as @ bs) db = table_after bs (table_after as db)"
  by (induction as arbitrary: db) (auto split: sum.splits)

text \<open>The whole row of a decided request stays: its state, when, by whom and why it was decided.\<close>

lemma decided_row_step:
  assumes "approval_step p db = Inr db'" "get_approval i db = Some row" "ap_state row \<noteq> Pending"
  shows "get_approval i db' = Some row"
proof (cases p)
  case (OpCreate f r)
  with assms(1) have c: "create_approval f r db = Inr db'" by simp
  have "ap_approvalId r \<noteq> i"
    using c assms(2) get_approval_id [OF assms(2)]
    by (auto simp: create_approval_def get_approval_def list_ex_iff
        dest: find_Some_iff_first split: option.splits if_splits)
  with assms c show ?thesis by (simp add: get_after_create)
next
  case (OpUpdate f d j t a r)
  with assms(1) have u: "update_state f d j t a r db = Inr db'" by simp
  from assms(2,3) show ?thesis by (simp add: get_after_update [OF u])
qed

lemma decided_row_stays:
  "get_approval i db = Some row \<Longrightarrow> ap_state row \<noteq> Pending \<Longrightarrow> get_approval i (table_after ps db) = Some row"
  by (induction ps arbitrary: db) (auto intro: decided_row_step split: sum.splits)

section \<open>Properties\<close>

text \<open>
  C4: an approval is single-use. Whatever operations run on a table, replayed tokens, cancellations
  and database failures included, at most one of them decides a given request; and once it is decided, after
  any of them, its row never changes again: not its state, nor when, by whom and why it was decided.
\<close>

theorem approval_decided_at_most_once:
  assumes "wf_table db"
  shows "count_decisions i ps db \<le> 1
    \<and> (\<forall>done todo row. ps = done @ todo \<and> get_approval i (table_after done db) = Some row \<and> ap_state row \<noteq> Pending
         \<longrightarrow> get_approval i (table_after ps db) = Some row)"
  using approvals.at_most_once [OF assms] decided_row_stays
  by (auto simp: count_decisions_eq table_after_append)

definition sample_request :: approval_request where
  "sample_request = \<lparr>ap_approvalId = js ''t'', ap_agentId = js ''a'', ap_method = js ''m'',
     ap_qualifiedName = js ''q'', ap_params = [], ap_state = Pending, ap_requestedAt = [],
     ap_decidedAt = None, ap_approver = None, ap_reason = None\<rparr>"

lemma approval_decided_at_most_once_witness:
  "count_decisions (js ''t'')
     [OpCreate None sample_request, OpUpdate None [] (js ''t'') Denied None None,
      OpUpdate None [] (js ''t'') Approved None None] [] = 1
   \<and> get_approval (js ''t'') (table_after [OpCreate None sample_request, OpUpdate None [] (js ''t'') Denied None None,
      OpUpdate None [] (js ''t'') Approved None None] []) = Some (sample_request\<lparr>ap_state := Denied, ap_decidedAt := Some []\<rparr>)"
  (is "count_decisions _ ?ps [] = 1 \<and> _")
proof -
  let ?row = "sample_request\<lparr>ap_state := Denied, ap_decidedAt := Some []\<rparr>"
  have "wf_table []" by (simp add: wf_table_def)
  note once = approval_decided_at_most_once [OF this, of "js ''t''" ?ps]
  have one: "count_decisions (js ''t'') ?ps [] \<noteq> 0"
    by (simp add: create_approval_def update_state_def sample_request_def)
  have "get_approval (js ''t'') (table_after (take 2 ?ps) []) = Some ?row"
    by (simp add: create_approval_def update_state_def sample_request_def get_approval_def)
  moreover have "?ps = take 2 ?ps @ drop 2 ?ps" by simp
  moreover have "ap_state ?row \<noteq> Pending" by simp
  ultimately have "get_approval (js ''t'') (table_after ?ps []) = Some ?row" using once by blast
  with once one show ?thesis by linarith
qed

text \<open>
  A signed token is accepted for the id and action it was signed for until it expires, provided
  the id has no colon, and not afterwards; an id with a colon gives a token that never verifies.
\<close>

theorem signed_token_verifies:
  "verify hmac sg now (sign hmac sg t i a) =
     (if 58 \<in> set i then Inl (PlainError (js ''Invalid token format''))
      else if now \<le> t + expirationMs sg then Inr (i, a)
      else Inl (PlainError (js ''Token has expired'')))"
proof (cases "58 \<in> set i")
  case True
  let ?e = "t + expirationMs sg"
  have len: "length (split_on 58 s) = Suc (count_list s 58)" for s :: jstring
    by (induction s) (auto split: list.splits)
  let ?tok = "sign hmac sg t i a"
  from True have "1 \<le> count_list i 58" by (metis count_list_0_iff less_one not_less)
  then have "4 < length (split_on 58 ?tok)"
    unfolding len by (simp add: sign_def Let_def token_payload_def)
  then have "verify hmac sg now ?tok = Inl (PlainError (js ''Invalid token format''))"
    by (auto simp: verify_def split: list.splits)
  with True show ?thesis by simp
next
  case False
  let ?e = "t + expirationMs sg"
  have sp: "split_on 58 (sign hmac sg t i a)
      = [i, action_text a, dec_int ?e, to_hex (hmac (secret sg) (utf8 (token_payload i a ?e)))]"
    using split_token [OF False] by (simp add: sign_def Let_def)
  show ?thesis
  proof (cases "now \<le> ?e")
    case True
    then have "verify hmac sg now (sign hmac sg t i a) = Inr (i, a)"
      unfolding verify_Inr_iff sp by simp
    with True False show ?thesis by simp
  next
    case later: False
    then have "verify hmac sg now (sign hmac sg t i a) = Inl (PlainError (js ''Token has expired''))"
      unfolding verify_def sp by (cases a) (simp_all add: action_text_def)
    with later False show ?thesis by simp
  qed
qed

text \<open>
  C5: tokens cannot be forged. A token is accepted exactly when its last part decodes to the HMAC
  tag of the id, action and expiry it is accepted for, and these three are determined by the
  authenticated payload.
\<close>

theorem accepted_token_is_authentic:
  "verify hmac sg now token = Inr (i, a) \<longleftrightarrow>
    (\<exists>es tag e. split_on 58 token = [i, action_text a, es, tag] \<and> parse_int es = Some e \<and> now \<le> e
       \<and> of_hex tag = hmac (secret sg) (utf8 (token_payload i a e))
       \<and> (\<forall>j b f. 58 \<notin> set j \<and> token_payload j b f = token_payload i a e \<longrightarrow> j = i \<and> b = a \<and> f = e))"
proof -
  have "58 \<notin> set i" if "split_on 58 token = [i, action_text a, es, tag]" for es tag
    using split_on_parts [of i 58 token] that by simp
  then show ?thesis using token_payload_inject unfolding verify_Inr_iff by metis
qed

lemma accepted_token_is_authentic_witness:
  "verify (\<lambda>k m. k) (new_signer (js ''0a'') None) 5 (js ''tsk_1:approve:7:0A'') = Inr (js ''tsk_1'', ActApprove)"
proof -
  have "split_on 58 (js ''tsk_1:approve:7:0A'') = [js ''tsk_1'', action_text ActApprove, js ''7'', js ''0A'']"
    by (simp add: js_def action_text_def)
  moreover have "parse_int (js ''7'') = Some 7"
    by (simp add: parse_int_def js_def js_space_def is_digit_def undec_def digit_val_def)
  moreover have "of_hex (js ''0A'') = [10]"
    by (simp add: js_def hex_val_def char_class_defs)
  moreover have "of_hex (js ''0a'') = [10]"
    by (simp add: js_def hex_val_def char_class_defs)
  moreover have "58 \<notin> set (js ''tsk_1'')" by (simp add: js_def)
  ultimately show ?thesis unfolding accepted_token_is_authentic
    using token_payload_inject by (fastforce simp: new_signer_def)
qed


end
