(* ===== verification/AuditLog.thy ===== *)
theory AuditLog
  imports CoreTypes
begin

text \<open>
  The hash-chained audit trail: the store of \<open>packages/audit/src/store.ts\<close>, the verifier of
  \<open>verifier.ts\<close> and the query of \<open>query.ts\<close>. The table \<open>audit_log\<close> is the list of its rows in
  sequence order with the next \<open>AUTOINCREMENT\<close> value; SHA-256 is a parameter; a statement the
  database refuses is given the message it fails with.
\<close>

section \<open>Rows and the store\<close>

record audit_row =
  au_sequence :: nat
  au_decisionId :: jstring
  au_timestamp :: jstring
  au_agentId :: jstring
  au_method :: jstring
  au_verdict :: jstring
  au_obligation :: jstring
  au_serverId :: "jstring option"
  au_qualifiedName :: "jstring option"
  au_recordJson :: jstring
  au_prevHash :: jstring
  au_hash :: jstring

record audit_store =
  au_rows :: "audit_row list"
  au_nextSequence :: nat
  au_chainHead :: jstring

text \<open>The constructor: the head of the chain is the hash of the last row, or the genesis hash.\<close>

definition tail_hash :: "audit_row list \<Rightarrow> jstring" where
  "tail_hash rows = (if rows = [] then genesis_hash else au_hash (last rows))"

definition open_store :: "audit_row list \<Rightarrow> nat \<Rightarrow> audit_store" where
  "open_store rows nextSeq =
     \<lparr>au_rows = rows, au_nextSequence = nextSeq, au_chainHead = tail_hash rows\<rparr>"

definition insert_row :: "jstring option \<Rightarrow> audit_row \<Rightarrow> audit_store \<Rightarrow> jstring + audit_store" where
  "insert_row fault row st =
     (case fault of
        Some msg \<Rightarrow> Inl msg
      | None \<Rightarrow>
          if list_ex (\<lambda>r. au_decisionId r = au_decisionId row) (au_rows st)
          then Inl (js ''UNIQUE constraint failed: audit_log.decisionId'')
          else Inr (st\<lparr>au_rows := au_rows st @ [row\<lparr>au_sequence := au_nextSequence st\<rparr>],
                       au_nextSequence := au_nextSequence st + 1\<rparr>))"

definition audit_append ::
    "hash_fun \<Rightarrow> jstring option \<Rightarrow> decision_record \<Rightarrow> audit_store \<Rightarrow> exn + audit_store" where
  "audit_append sha fault r st =
     (let prevHash = au_chainHead st in
      bind_r (canonicalize (record_value r)) (\<lambda>recordJson.
      let hash = sha256_hex sha (prevHash @ recordJson);
          row = \<lparr>au_sequence = 0, au_decisionId = dr_decisionId r, au_timestamp = dr_timestamp r,
                 au_agentId = ag_id (dr_agent r), au_method = dr_method r,
                 au_verdict = verdict_text (dr_verdict r),
                 au_obligation = obligation_text (dr_obligation r), au_serverId = dr_serverId r,
                 au_qualifiedName = dr_qualifiedName r, au_recordJson = recordJson,
                 au_prevHash = prevHash, au_hash = hash\<rparr>
      in (case insert_row fault row st of
            Inl cause \<Rightarrow> Inl (AuditWriteError
              (js ''Audit write failed for '' @ dr_decisionId r @ js '': '' @ cause))
          | Inr st' \<Rightarrow> Inr (st'\<lparr>au_chainHead := hash\<rparr>))))"

definition audit_length :: "audit_store \<Rightarrow> nat" where
  "audit_length st = length (au_rows st)"

definition read_all :: "audit_store \<Rightarrow> audit_row list" where
  "read_all st = sort_key au_sequence (au_rows st)"

definition read_page :: "nat \<Rightarrow> nat \<Rightarrow> audit_store \<Rightarrow> audit_row list" where
  "read_page offset limit st = take limit (drop offset (sort_key au_sequence (au_rows st)))"

definition get_by_decision_id :: "jstring \<Rightarrow> audit_store \<Rightarrow> audit_row option" where
  "get_by_decision_id i st = find (\<lambda>r. au_decisionId r = i) (au_rows st)"

definition read_range :: "nat option \<Rightarrow> nat option \<Rightarrow> audit_store \<Rightarrow> audit_row list \<times> jstring" where
  "read_range fromSeq toSeq st =
     (let rows = filter (\<lambda>r. (case fromSeq of None \<Rightarrow> True | Some a \<Rightarrow> a \<le> au_sequence r)
                          \<and> (case toSeq of None \<Rightarrow> True | Some b \<Rightarrow> au_sequence r \<le> b)) (read_all st);
          initialPrevHash =
            (case fromSeq of
               Some a \<Rightarrow> if a > 1 then tail_hash (filter (\<lambda>r. au_sequence r < a) (read_all st))
                         else genesis_hash
             | None \<Rightarrow> genesis_hash)
      in (rows, initialPrevHash))"

section \<open>The verifier\<close>

record row_verification =
  rv_sequence :: nat
  rv_decisionId :: jstring
  rv_storedHash :: jstring
  rv_computedHash :: jstring

record verification_report =
  vr_valid :: bool
  vr_rowCount :: nat
  vr_firstTamperedSequence :: "nat option"
  vr_firstTamperedDecisionId :: "jstring option"
  vr_tamperedCount :: nat
  vr_tampered :: "row_verification list"
  vr_computedHead :: jstring
  vr_storedHead :: jstring

definition max_tampered_detail :: nat where
  "max_tampered_detail = 100"

record verify_state =
  vs_prevHash :: jstring
  vs_first :: "(nat \<times> jstring) option"
  vs_tampered :: "row_verification list"
  vs_storedHead :: jstring

definition verify_row :: "hash_fun \<Rightarrow> audit_row \<Rightarrow> verify_state \<Rightarrow> exn + verify_state" where
  "verify_row sha row s =
     (let computedHash = sha256_hex sha (vs_prevHash s @ au_recordJson row) in
      bind_r (hashes_equal (au_hash row) computedHash) (\<lambda>valid.
      let s1 = (if valid then s
                else s\<lparr>vs_first := (case vs_first s of None \<Rightarrow> Some (au_sequence row, au_decisionId row)
                                    | Some p \<Rightarrow> Some p),
                       vs_tampered := (if length (vs_tampered s) < max_tampered_detail
                         then vs_tampered s @ [\<lparr>rv_sequence = au_sequence row,
                                rv_decisionId = au_decisionId row, rv_storedHash = au_hash row,
                                rv_computedHash = computedHash\<rparr>]
                         else vs_tampered s)\<rparr>)
      in Inr (s1\<lparr>vs_prevHash := au_hash row, vs_storedHead := au_hash row\<rparr>)))"

fun verify_loop :: "hash_fun \<Rightarrow> audit_row list \<Rightarrow> verify_state \<Rightarrow> exn + verify_state" where
  "verify_loop sha [] s = Inr s"
| "verify_loop sha (row # rows) s = bind_r (verify_row sha row s) (\<lambda>s'. verify_loop sha rows s')"

definition verify_chain :: "hash_fun \<Rightarrow> audit_row list \<Rightarrow> jstring \<Rightarrow> exn + verification_report" where
  "verify_chain sha rows initialPrevHash =
     bind_r (verify_loop sha rows \<lparr>vs_prevHash = initialPrevHash, vs_first = None, vs_tampered = [],
                                   vs_storedHead = genesis_hash\<rparr>) (\<lambda>s.
     Inr \<lparr>vr_valid = (length (vs_tampered s) = 0), vr_rowCount = length rows,
          vr_firstTamperedSequence = map_option fst (vs_first s),
          vr_firstTamperedDecisionId = map_option snd (vs_first s),
          vr_tamperedCount = length (vs_tampered s), vr_tampered = vs_tampered s,
          vr_computedHead = vs_prevHash s, vr_storedHead = vs_storedHead s\<rparr>)"

definition verify_chain_with_checkpoint ::
    "hash_fun \<Rightarrow> audit_row list \<Rightarrow> jstring \<Rightarrow> exn + (verification_report \<times> bool)" where
  "verify_chain_with_checkpoint sha rows checkpointHash =
     bind_r (verify_chain sha rows genesis_hash) (\<lambda>report.
     bind_r (if vr_valid report then hashes_equal (vr_storedHead report) checkpointHash else Inr False)
       (\<lambda>checkpointValid. Inr (report, checkpointValid)))"

section \<open>The chain invariant\<close>

text \<open>Each row is linked to its predecessor and hashes its own record.\<close>

fun chained :: "hash_fun \<Rightarrow> jstring \<Rightarrow> audit_row list \<Rightarrow> bool" where
  "chained sha prev [] = True"
| "chained sha prev (r # rs) = (au_prevHash r = prev \<and> au_hash r = sha256_hex sha (prev @ au_recordJson r)
     \<and> chained sha (au_hash r) rs)"

definition wf_store :: "hash_fun \<Rightarrow> audit_store \<Rightarrow> bool" where
  "wf_store sha st = (chained sha genesis_hash (au_rows st) \<and> au_chainHead st = tail_hash (au_rows st)
     \<and> sorted_wrt (<) (map au_sequence (au_rows st))
     \<and> (\<forall>r \<in> set (au_rows st). 1 \<le> au_sequence r \<and> au_sequence r < au_nextSequence st)
     \<and> 1 \<le> au_nextSequence st \<and> distinct (map au_decisionId (au_rows st)))"

definition last_hash :: "jstring \<Rightarrow> audit_row list \<Rightarrow> jstring" where
  "last_hash prev rows = (if rows = [] then prev else au_hash (last rows))"

lemma tail_last: "tail_hash rows = last_hash genesis_hash rows"
  by (simp add: tail_hash_def last_hash_def)

lemma last_hash_simps [simp, chain_rules]:
  "last_hash p [] = p" "last_hash p (r # rs) = last_hash (au_hash r) rs"
  "last_hash p (xs @ ys) = last_hash (last_hash p xs) ys"
  by (simp_all add: last_hash_def)

lemma chained_append [chain_rules]:
  "chained sha p (xs @ ys) \<longleftrightarrow> chained sha p xs \<and> chained sha (last_hash p xs) ys"
  by (induction xs arbitrary: p) auto

lemma wf_open: "wf_store sha (open_store [] 1)"
  by (simp add: wf_store_def open_store_def)

text \<open>A reopened store continues the chain.\<close>

lemma reopen_same: "wf_store sha st \<Longrightarrow> open_store (au_rows st) (au_nextSequence st) = st"
  by (simp add: wf_store_def open_store_def)

lemma append_cases:
  assumes "audit_append sha fault r st = Inr st'"
  obtains t row where "canonicalize (record_value r) = Inr t" "fault = None"
    "row = \<lparr>au_sequence = au_nextSequence st, au_decisionId = dr_decisionId r,
        au_timestamp = dr_timestamp r, au_agentId = ag_id (dr_agent r), au_method = dr_method r,
        au_verdict = verdict_text (dr_verdict r), au_obligation = obligation_text (dr_obligation r),
        au_serverId = dr_serverId r, au_qualifiedName = dr_qualifiedName r, au_recordJson = t,
        au_prevHash = au_chainHead st, au_hash = sha256_hex sha (au_chainHead st @ t)\<rparr>"
    "st' = \<lparr>au_rows = au_rows st @ [row], au_nextSequence = au_nextSequence st + 1,
        au_chainHead = au_hash row\<rparr>"
    "dr_decisionId r \<notin> au_decisionId ` set (au_rows st)"
  using assms
  by (fastforce simp: audit_append_def insert_row_def Let_def bind_r_Inr_iff list_ex_iff
      split: option.splits sum.splits if_splits)

lemma wf_append:
  assumes "wf_store sha st" "audit_append sha fault r st = Inr st'"
  shows "wf_store sha st'"
  using assms(2)
proof (rule append_cases)
  fix t row
  assume row: "row = \<lparr>au_sequence = au_nextSequence st, au_decisionId = dr_decisionId r,
        au_timestamp = dr_timestamp r, au_agentId = ag_id (dr_agent r), au_method = dr_method r,
        au_verdict = verdict_text (dr_verdict r), au_obligation = obligation_text (dr_obligation r),
        au_serverId = dr_serverId r, au_qualifiedName = dr_qualifiedName r, au_recordJson = t,
        au_prevHash = au_chainHead st, au_hash = sha256_hex sha (au_chainHead st @ t)\<rparr>"
    and st': "st' = \<lparr>au_rows = au_rows st @ [row], au_nextSequence = au_nextSequence st + 1,
        au_chainHead = au_hash row\<rparr>"
    and new: "dr_decisionId r \<notin> au_decisionId ` set (au_rows st)"
  from assms(1) have wf: "chained sha genesis_hash (au_rows st)"
    "au_chainHead st = last_hash genesis_hash (au_rows st)"
    "sorted_wrt (<) (map au_sequence (au_rows st))"
    "\<forall>r \<in> set (au_rows st). 1 \<le> au_sequence r \<and> au_sequence r < au_nextSequence st"
    "1 \<le> au_nextSequence st" "distinct (map au_decisionId (au_rows st))"
    by (simp_all add: wf_store_def tail_last)
  have "chained sha genesis_hash (au_rows st')"
    using wf(1,2) by (simp add: st' row chained_append)
  moreover have "sorted_wrt (<) (map au_sequence (au_rows st'))"
    using wf(3,4) by (simp add: st' row sorted_wrt_append)
  moreover have "distinct (map au_decisionId (au_rows st'))" using wf(6) new by (simp add: st' row)
  moreover have "\<forall>r \<in> set (au_rows st'). 1 \<le> au_sequence r \<and> au_sequence r < au_nextSequence st'"
    using wf(4,5) by (auto simp: st' row)
  ultimately show "wf_store sha st'" using wf(5) by (simp add: wf_store_def tail_last st')
qed

section \<open>What the verifier reports\<close>

text \<open>The rows whose stored hash is not the hash of the previous stored hash and their record.\<close>

fun mismatches :: "hash_fun \<Rightarrow> jstring \<Rightarrow> audit_row list \<Rightarrow> audit_row list" where
  "mismatches sha prev [] = []"
| "mismatches sha prev (r # rs) =
     (if au_hash r = sha256_hex sha (prev @ au_recordJson r) then [] else [r])
       @ mismatches sha (au_hash r) rs"

text \<open>Text as SQLite returns it: no lone surrogates. Hash columns hold ASCII.\<close>

definition ascii :: "jstring \<Rightarrow> bool" where
  "ascii s = list_all (\<lambda>c. c < 128) s"

definition ascii_hashes :: "audit_row list \<Rightarrow> bool" where
  "ascii_hashes rows = list_all (\<lambda>r. ascii (au_hash r)) rows"

definition text_rows :: "audit_row list \<Rightarrow> bool" where
  "text_rows rows = list_all (\<lambda>r. well_formed (au_recordJson r) \<and> well_formed (au_hash r)) rows"

lemma ascii_well_formed: "ascii s \<Longrightarrow> well_formed s"
  by (rule well_formed_ascii) (auto simp: ascii_def list_all_iff)

lemma ascii_not_high: "ascii s \<Longrightarrow> c \<in> set s \<Longrightarrow> \<not> is_high c"
  by (auto simp: ascii_def list_all_iff surrogate_defs word_less_nat_alt)

lemma utf8_ascii: "ascii s \<Longrightarrow> length (utf8 s) = length s"
proof -
  assume a: "ascii s"
  then have cp: "code_points s = map unat s"
    by (induction s rule: code_points.induct) (auto simp: ascii_def surrogate_defs word_less_nat_alt)
  have "utf8 s = concat (map (\<lambda>c. [of_nat (unat c)]) s)"
    unfolding utf8_def cp map_map comp_def
    by (rule arg_cong [where f = concat], rule map_cong)
       (use a in \<open>auto simp: ascii_def list_all_iff scalar_def utf8_cp_def word_less_nat_alt\<close>)
  then show ?thesis by (simp add: length_concat comp_def sum_list_triv)
qed

lemma ascii_hex: "ascii (sha256_hex sha s)"
  by (auto simp: ascii_def list_all_iff sha256_hex_def to_hex_def hex_lower_ascii
      less_mult_imp_div_less unat_byte_bound)

lemma hashes_equal_ascii: "ascii a \<Longrightarrow> ascii b \<Longrightarrow> hashes_equal a b = Inr (a = b)"
  using utf8_inject [of a b] by (auto simp: hashes_equal_def utf8_ascii ascii_well_formed)

lemma hashes_equal_True: "well_formed a \<Longrightarrow> well_formed b \<Longrightarrow> hashes_equal a b = Inr True \<Longrightarrow> a = b"
  using utf8_inject [of a b] by (auto simp: hashes_equal_def split: if_splits)

definition detail :: "hash_fun \<Rightarrow> jstring \<Rightarrow> audit_row \<Rightarrow> row_verification" where
  "detail sha prev r = \<lparr>rv_sequence = au_sequence r, rv_decisionId = au_decisionId r,
     rv_storedHash = au_hash r, rv_computedHash = sha256_hex sha (prev @ au_recordJson r)\<rparr>"

fun details :: "hash_fun \<Rightarrow> jstring \<Rightarrow> audit_row list \<Rightarrow> row_verification list" where
  "details sha prev [] = []"
| "details sha prev (r # rs) =
     (if au_hash r = sha256_hex sha (prev @ au_recordJson r) then [] else [detail sha prev r])
       @ details sha (au_hash r) rs"

lemma length_details: "length (details sha prev rs) = length (mismatches sha prev rs)"
  by (induction rs arbitrary: prev) auto

definition first_of :: "audit_row list \<Rightarrow> (nat \<times> jstring) option" where
  "first_of rs = (case rs of [] \<Rightarrow> None | r # _ \<Rightarrow> Some (au_sequence r, au_decisionId r))"

lemma verify_row_eq:
  fixes sha :: hash_fun
  assumes "ascii (au_hash r)" "length (vs_tampered s) \<le> max_tampered_detail"
  defines "ok \<equiv> au_hash r = sha256_hex sha (vs_prevHash s @ au_recordJson r)"
  shows "verify_row sha r s = Inr
    \<lparr>vs_prevHash = au_hash r,
     vs_first = (if ok \<or> vs_first s \<noteq> None then vs_first s else Some (au_sequence r, au_decisionId r)),
     vs_tampered = take max_tampered_detail
       (vs_tampered s @ (if ok then [] else [detail sha (vs_prevHash s) r])),
     vs_storedHead = au_hash r\<rparr>"
proof -
  have h: "hashes_equal (au_hash r) (sha256_hex sha (vs_prevHash s @ au_recordJson r)) = Inr ok"
    unfolding ok_def by (rule hashes_equal_ascii [OF assms(1) ascii_hex])
  have "take max_tampered_detail (vs_tampered s @ [d])
      = (if length (vs_tampered s) < max_tampered_detail then vs_tampered s @ [d] else vs_tampered s)" for d
    using assms(2) by auto
  then show ?thesis
    using assms(2) unfolding verify_row_def Let_def h
    by (cases "vs_first s"; cases ok) (simp_all add: detail_def)
qed

lemma verify_loop_eq:
  "ascii_hashes rows \<Longrightarrow> length (vs_tampered s) \<le> max_tampered_detail \<Longrightarrow>
    verify_loop sha rows s = Inr
     \<lparr>vs_prevHash = last_hash (vs_prevHash s) rows,
      vs_first = (case vs_first s of Some p \<Rightarrow> Some p | None \<Rightarrow> first_of (mismatches sha (vs_prevHash s) rows)),
      vs_tampered = take max_tampered_detail (vs_tampered s @ details sha (vs_prevHash s) rows),
      vs_storedHead = last_hash (vs_storedHead s) rows\<rparr>"
proof (induction rows arbitrary: s)
  case Nil
  then show ?case by (auto simp: first_of_def split: option.splits)
next
  case (Cons r rs)
  have ah: "ascii_hashes rs" and a: "ascii (au_hash r)" using Cons.prems(1) by (simp_all add: ascii_hashes_def)
  have t: "take m (take m x @ y) = take m (x @ y)" for m and x y :: "row_verification list"
    by (simp add: min_def)
  show ?case
    unfolding verify_loop.simps verify_row_eq [OF a Cons.prems(2)] bind_r_simps
    by (subst Cons.IH [OF ah])
       (auto simp: t first_of_def append_assoc [symmetric] simp del: append_assoc take_append
          split: option.splits)
qed

lemma verify_chain_eq:
  "ascii_hashes rows \<Longrightarrow> verify_chain sha rows prev = Inr
    \<lparr>vr_valid = (mismatches sha prev rows = []), vr_rowCount = length rows,
     vr_firstTamperedSequence = map_option fst (first_of (mismatches sha prev rows)),
     vr_firstTamperedDecisionId = map_option snd (first_of (mismatches sha prev rows)),
     vr_tamperedCount = min 100 (length (mismatches sha prev rows)),
     vr_tampered = take 100 (details sha prev rows),
     vr_computedHead = last_hash prev rows, vr_storedHead = last_hash genesis_hash rows\<rparr>"
  by (simp add: verify_chain_def verify_loop_eq max_tampered_detail_def length_details min.commute)
     (metis length_0_conv length_details)

lemma chained_mismatches: "chained sha p rows \<Longrightarrow> mismatches sha p rows = []"
  by (induction rows arbitrary: p) auto

lemma chained_ascii: "chained sha p rows \<Longrightarrow> ascii_hashes rows"
  by (induction rows arbitrary: p) (auto simp: ascii_hashes_def ascii_hex)


section \<open>Tamper evidence\<close>

text \<open>The byte strings a chain hashes.\<close>

fun chain_inputs :: "jstring \<Rightarrow> audit_row list \<Rightarrow> byte list list" where
  "chain_inputs prev [] = []"
| "chain_inputs prev (r # rs) = utf8 (prev @ au_recordJson r) # chain_inputs (au_hash r) rs"

lemma chain_inputs_append:
  "chain_inputs p (xs @ ys) = chain_inputs p xs @ chain_inputs (last_hash p xs) ys"
  by (induction xs arbitrary: p) auto

lemma mismatches_append:
  "mismatches sha p (xs @ ys) = mismatches sha p xs @ mismatches sha (last_hash p xs) ys"
  by (induction xs arbitrary: p) auto

text \<open>
  What it takes to present a different log under the same head: two different inputs of the two
  chains with one hash, or an input whose hash is the all-zero genesis value.
\<close>

definition forged :: "hash_fun \<Rightarrow> audit_row list \<Rightarrow> audit_row list \<Rightarrow> bool" where
  "forged sha rows rows' =
     ((\<exists>x \<in> set (chain_inputs genesis_hash rows). \<exists>y \<in> set (chain_inputs genesis_hash rows').
         collision sha x y)
      \<or> (\<exists>x \<in> set (chain_inputs genesis_hash rows) \<union> set (chain_inputs genesis_hash rows').
           to_hex (sha x) = genesis_hash))"

lemma genesis_ascii: "ascii genesis_hash"
  by (simp add: ascii_def genesis_hash_def list_all_iff)

lemma last_hash_shape:
  assumes "\<And>x. length (sha x) = 32" "mismatches sha genesis_hash rows = []"
  shows "length (last_hash genesis_hash rows) = 64 \<and> ascii (last_hash genesis_hash rows)"
proof (cases rows rule: rev_cases)
  case (snoc xs r)
  with assms(2) have "au_hash r = sha256_hex sha (last_hash genesis_hash xs @ au_recordJson r)"
    by (simp add: mismatches_append split: if_splits)
  with snoc assms(1) ascii_hex show ?thesis by (simp add: sha256_hex_def length_to_hex)
qed (simp add: genesis_ascii, simp add: genesis_hash_def)

lemma same_head_same_records:
  assumes len: "\<And>x. length (sha x) = 32"
  shows "mismatches sha genesis_hash rows = [] \<Longrightarrow> mismatches sha genesis_hash rows' = [] \<Longrightarrow>
    list_all (\<lambda>r. well_formed (au_recordJson r)) rows \<Longrightarrow>
    list_all (\<lambda>r. well_formed (au_recordJson r)) rows' \<Longrightarrow>
    last_hash genesis_hash rows = last_hash genesis_hash rows' \<Longrightarrow>
    map au_recordJson rows = map au_recordJson rows' \<or> forged sha rows rows'"
proof (induction rows arbitrary: rows' rule: rev_induct)
  case Nil
  show ?case
  proof (cases rows' rule: rev_cases)
    case (snoc ys r')
    with Nil have "to_hex (sha (utf8 (last_hash genesis_hash ys @ au_recordJson r'))) = genesis_hash"
      by (simp add: mismatches_append sha256_hex_def split: if_splits)
    with snoc show ?thesis by (auto simp: forged_def chain_inputs_append)
  qed simp
next
  case (snoc r xs)
  let ?i = "utf8 (last_hash genesis_hash xs @ au_recordJson r)"
  have hr: "au_hash r = to_hex (sha ?i)" "mismatches sha genesis_hash xs = []"
    using snoc.prems(1) by (simp_all add: mismatches_append sha256_hex_def split: if_splits)
  show ?case
  proof (cases rows' rule: rev_cases)
    case Nil
    with snoc.prems(5) hr have "to_hex (sha ?i) = genesis_hash" by simp
    then show ?thesis by (auto simp: forged_def chain_inputs_append)
  next
    case ys: (snoc ys r')
    let ?j = "utf8 (last_hash genesis_hash ys @ au_recordJson r')"
    have hr': "au_hash r' = to_hex (sha ?j)" "mismatches sha genesis_hash ys = []"
      using snoc.prems(2) ys by (simp_all add: mismatches_append sha256_hex_def split: if_splits)
    from snoc.prems(5) ys hr hr' have same: "sha ?i = sha ?j" by (simp add: to_hex_inject)
    show ?thesis
    proof (cases "?i = ?j")
      case False
      with same have "collision sha ?i ?j" by (simp add: collision_def)
      then show ?thesis using ys by (auto simp: forged_def chain_inputs_append)
    next
      case True
      note sh = last_hash_shape [OF len hr(2)] last_hash_shape [OF len hr'(2)]
      from True have "last_hash genesis_hash xs @ au_recordJson r = last_hash genesis_hash ys @ au_recordJson r'"
        by (rule utf8_inject [rotated 2])
           (use sh ascii_well_formed snoc.prems(3,4) ys in \<open>auto intro!: well_formed_append\<close>)
      with sh have eq: "last_hash genesis_hash xs = last_hash genesis_hash ys"
        "au_recordJson r = au_recordJson r'" by (simp_all add: append_eq_append_conv)
      have "map au_recordJson xs = map au_recordJson ys \<or> forged sha xs ys"
        by (rule snoc.IH) (use hr(2) hr'(2) snoc.prems(3,4) ys eq(1) in auto)
      moreover have "forged sha xs ys \<Longrightarrow> forged sha (xs @ [r]) rows'"
        unfolding forged_def ys chain_inputs_append by auto
      ultimately show ?thesis using eq(2) ys by auto
    qed
  qed
qed

lemma chained_text:
  "chained sha p rows \<Longrightarrow> list_all (\<lambda>r. well_formed (au_recordJson r)) rows \<Longrightarrow> text_rows rows"
  by (induction rows arbitrary: p) (auto simp: text_rows_def ascii_hex ascii_well_formed)

text \<open>Stores reached by opening an empty database and appending; errors and reopening included.\<close>

inductive audit_reachable :: "hash_fun \<Rightarrow> audit_store \<Rightarrow> bool" for sha where
  fresh: "audit_reachable sha (open_store [] 1)"
| append: "audit_reachable sha st \<Longrightarrow> audit_append sha fault r st = Inr st' \<Longrightarrow> audit_reachable sha st'"
| reopen: "audit_reachable sha st \<Longrightarrow> audit_reachable sha (open_store (au_rows st) (au_nextSequence st))"

lemma reachable_wf: "audit_reachable sha st \<Longrightarrow> wf_store sha st"
proof (induction rule: audit_reachable.induct)
  case fresh
  show ?case by (rule wf_open)
next
  case (append st fault r st')
  show ?case by (rule wf_append [OF append.IH append.hyps(2)])
next
  case (reopen st)
  show ?case by (subst reopen_same [OF reopen.IH]) (rule reopen.IH)
qed

lemma reachable_text: "audit_reachable sha st \<Longrightarrow> list_all (\<lambda>r. well_formed (au_recordJson r)) (au_rows st)"
proof (induction rule: audit_reachable.induct)
  case (append st fault r st')
  from append(2) show ?case
    by (rule append_cases) (use append.IH well_formed_canonical in auto)
qed (simp_all add: open_store_def)

text \<open>The verifier on rows whose text columns are well-formed, as a valid report implies.\<close>

lemma verify_row_first:
  "verify_row sha r s = Inr s' \<Longrightarrow> vs_tampered s' = [] \<Longrightarrow> well_formed (au_hash r) \<Longrightarrow>
    vs_tampered s = [] \<and> au_hash r = sha256_hex sha (vs_prevHash s @ au_recordJson r)
    \<and> vs_prevHash s' = au_hash r \<and> vs_storedHead s' = au_hash r"
  using hashes_equal_True [of "au_hash r" "sha256_hex sha (vs_prevHash s @ au_recordJson r)"]
  by (auto simp: verify_row_def Let_def bind_r_Inr_iff ascii_well_formed ascii_hex
      max_tampered_detail_def split: if_splits)

lemma verify_loop_valid:
  "verify_loop sha rows s = Inr s' \<Longrightarrow> vs_tampered s' = [] \<Longrightarrow> text_rows rows \<Longrightarrow>
    vs_tampered s = [] \<and> mismatches sha (vs_prevHash s) rows = []
    \<and> vs_storedHead s' = last_hash (vs_storedHead s) rows"
proof (induction rows arbitrary: s)
  case (Cons r rs)
  then obtain t where t: "verify_row sha r s = Inr t" "verify_loop sha rs t = Inr s'"
    by (auto simp: bind_r_Inr_iff)
  from Cons.prems(3) have tx: "text_rows rs" "well_formed (au_hash r)" by (simp_all add: text_rows_def)
  from Cons.IH [OF t(2) Cons.prems(2) tx(1)] verify_row_first [OF t(1) _ tx(2)] show ?case by auto
qed simp

lemma verify_chain_valid:
  "verify_chain sha rows prev = Inr rep \<Longrightarrow> vr_valid rep \<Longrightarrow> text_rows rows \<Longrightarrow>
    mismatches sha prev rows = [] \<and> vr_storedHead rep = last_hash genesis_hash rows"
  using verify_loop_valid [of sha rows "\<lparr>vs_prevHash = prev, vs_first = None, vs_tampered = [],
      vs_storedHead = genesis_hash\<rparr>"]
  by (auto simp: verify_chain_def bind_r_Inr_iff)

text \<open>The columns of a chain, seen as lists.\<close>

lemma chained_columns:
  "chained sha prev rows \<Longrightarrow> map au_prevHash rows = take (length rows) (prev # map au_hash rows)
     \<and> list_all (\<lambda>r. au_hash r = sha256_hex sha (au_prevHash r @ au_recordJson r)) rows"
  by (induction rows arbitrary: prev) auto

section \<open>Properties of the chain\<close>

text \<open>
  C10: every store the gateway can reach, by appends that succeed or fail and by reopening the
  database, is well formed: the sequence numbers increase and no decision id occurs twice, each row holds
  the hash of the row before it as its previous hash and the hash of that and its record as its own, and
  the head in memory is the last hash. And it verifies: the report is valid, counts every row, and its head
  is the head in memory.
\<close>

theorem reachable_log_verifies:
  assumes "audit_reachable sha st"
  shows "sorted_wrt (<) (map au_sequence (au_rows st)) \<and> distinct (map au_decisionId (au_rows st))
    \<and> map au_prevHash (au_rows st) = take (length (au_rows st)) (genesis_hash # map au_hash (au_rows st))
    \<and> list_all (\<lambda>r. au_hash r = sha256_hex sha (au_prevHash r @ au_recordJson r)) (au_rows st)
    \<and> au_chainHead st = last (genesis_hash # map au_hash (au_rows st))
    \<and> verify_chain_with_checkpoint sha (read_all st) (au_chainHead st) = Inr
    (\<lparr>vr_valid = True, vr_rowCount = audit_length st, vr_firstTamperedSequence = None,
      vr_firstTamperedDecisionId = None, vr_tamperedCount = 0, vr_tampered = [],
      vr_computedHead = au_chainHead st, vr_storedHead = au_chainHead st\<rparr>, True)"
proof -
  note wf = reachable_wf [OF assms, unfolded wf_store_def]
  have srt: "sorted (map au_sequence (au_rows st))"
    using wf by (metis strict_sorted_imp_sorted)
  then have all: "read_all st = au_rows st" by (simp add: read_all_def sorted_sort_id sort_key_id_if_sorted)
  have ch: "chained sha genesis_hash (au_rows st)" using wf by simp
  have hd: "au_chainHead st = last_hash genesis_hash (au_rows st)" using wf by (simp add: tail_last)
  have head: "au_chainHead st = last (genesis_hash # map au_hash (au_rows st))"
    by (simp add: hd last_hash_def last_map)
  have "details sha genesis_hash (au_rows st) = []"
    using length_details [of sha genesis_hash "au_rows st"] chained_mismatches [OF ch] by simp
  moreover have "ascii (au_chainHead st)"
  proof (cases "au_rows st" rule: rev_cases)
    case (snoc xs r)
    with chained_ascii [OF ch] hd show ?thesis by (simp add: ascii_hashes_def)
  qed (simp add: hd genesis_ascii)
  ultimately show ?thesis
    unfolding verify_chain_with_checkpoint_def all verify_chain_eq [OF chained_ascii [OF ch]]
    using chained_mismatches [OF ch] chained_columns [OF ch] wf head
    by (simp add: first_of_def audit_length_def hd [symmetric] hashes_equal_ascii)
qed


definition sample_agent :: agent_identity where
  "sample_agent = \<lparr>ag_id = js ''anonymous'', ag_name = None, ag_version = None,
     ag_trustTier = TierStandard, ag_authenticated = False, ag_extra = []\<rparr>"

definition sample_record :: "jstring \<Rightarrow> decision_record" where
  "sample_record i = \<lparr>dr_decisionId = i, dr_timestamp = [], dr_agent = sample_agent,
     dr_protocolVersion = [], dr_method = [], dr_qualifiedName = None, dr_serverId = None,
     dr_upstreamName = None, dr_verdict = VAllow, dr_obligation = Allow,
     dr_policy = \<lparr>pd_permit = True, pd_obligation = Allow, pd_reasons = [], pd_errors = [],
       pd_defaultDeny = False\<rparr>,
     dr_risk = None, dr_argsDigest = [], dr_resultDigest = None, dr_latencyMs = 0,
     dr_degraded = False\<rparr>"

lemma append_sample:
  "dr_decisionId (sample_record i) \<notin> au_decisionId ` set (au_rows st) \<Longrightarrow>
    \<exists>st'. audit_append sha None (sample_record i) st = Inr st'
      \<and> au_decisionId ` set (au_rows st') = insert i (au_decisionId ` set (au_rows st))
      \<and> au_rows st' \<noteq> []"
proof -
  assume n: "dr_decisionId (sample_record i) \<notin> au_decisionId ` set (au_rows st)"
  have "record_ok (sample_record i)" by (simp add: record_ok_def sample_record_def sample_agent_def)
  then have "canonicalize (record_value (sample_record i)) = Inr (ser (normal (record_value (sample_record i))))"
    by (intro canonicalize_Inr record_value_ok)
  with n show ?thesis
    by (auto simp: audit_append_def insert_row_def Let_def list_ex_iff image_iff)
       (auto simp: sample_record_def)
qed

lemma reachable_log_verifies_witness:
  "\<exists>st. au_rows st \<noteq> [] \<and> verify_chain_with_checkpoint (take 2) (read_all st) (au_chainHead st) = Inr
    (\<lparr>vr_valid = True, vr_rowCount = audit_length st, vr_firstTamperedSequence = None,
      vr_firstTamperedDecisionId = None, vr_tamperedCount = 0, vr_tampered = [],
      vr_computedHead = au_chainHead st, vr_storedHead = au_chainHead st\<rparr>, True)"
proof -
  have f: "audit_reachable (take 2) (open_store [] 1)" by (rule audit_reachable.fresh)
  obtain st where st: "audit_append (take 2) None (sample_record (js ''a'')) (open_store [] 1) = Inr st"
    "au_rows st \<noteq> []"
    using append_sample [of "js ''a''" "open_store [] 1" "take 2"] by (auto simp: open_store_def)
  from reachable_log_verifies [OF audit_reachable.append [OF f st(1)]] st(2) show ?thesis by blast
qed

text \<open>
  C11: a log that verifies against the head of a reachable store holds the records of that store.
  Whoever presents rows that pass verification with that head as checkpoint has the same records in
  the same order, none edited, inserted, deleted, reordered or truncated, or exhibits among the
  hashed inputs a SHA-256 collision or a preimage of the all-zero hash.
\<close>

theorem checkpointed_log_is_authentic:
  assumes "audit_reachable sha st" and "\<And>x. length (sha x) = 32"
    and "text_rows rows'" and "verify_chain_with_checkpoint sha rows' (au_chainHead st) = Inr (rep, True)"
  shows "map au_recordJson rows' = map au_recordJson (au_rows st) \<or> forged sha rows' (au_rows st)"
proof -
  note wf = reachable_wf [OF assms(1), unfolded wf_store_def]
  have ch: "chained sha genesis_hash (au_rows st)"
    and hd: "au_chainHead st = last_hash genesis_hash (au_rows st)" using wf by (simp_all add: tail_last)
  from assms(4) have v: "verify_chain sha rows' genesis_hash = Inr rep" "vr_valid rep"
    "hashes_equal (vr_storedHead rep) (au_chainHead st) = Inr True"
    by (auto simp: verify_chain_with_checkpoint_def bind_r_Inr_iff split: if_splits)
  note r = verify_chain_valid [OF v(1,2) assms(3)]
  have "ascii (au_chainHead st)" "ascii (vr_storedHead rep)"
    using last_hash_shape [of sha, OF assms(2)] chained_mismatches [OF ch] hd r by auto
  then have "vr_storedHead rep = au_chainHead st"
    using v(3) hashes_equal_True ascii_well_formed by blast
  with same_head_same_records [where sha = sha and rows = rows' and rows' = "au_rows st", OF assms(2)] r hd chained_mismatches [OF ch]
    reachable_text [OF assms(1)] assms(3)
  show ?thesis by (simp add: text_rows_def list_all_iff)
qed

lemma checkpointed_log_is_authentic_witness:
  "map au_recordJson ([] :: audit_row list) = map au_recordJson (au_rows (open_store [] 1))
   \<or> forged (\<lambda>x. replicate 32 1) [] (au_rows (open_store [] 1))"
  by (rule checkpointed_log_is_authentic [where sha = "\<lambda>x. replicate 32 1" and st = "open_store [] 1",
        OF audit_reachable.fresh])
     (auto simp: text_rows_def verify_chain_with_checkpoint_def verify_chain_def open_store_def
        tail_hash_def hashes_equal_def)

text \<open>
  Tampering is localised. If stored hashes are left alone, the verifier flags exactly the rows
  whose record no longer hashes to its stored value, names the first of them, and counts them up
  to the cap of 100.
\<close>

theorem verifier_localises_edits:
  assumes "chained sha genesis_hash rows" and "map au_hash rows' = map au_hash rows"
  shows "\<exists>rep. verify_chain sha rows' genesis_hash = Inr rep \<and>
    (let edited = map fst (filter (\<lambda>(r', r). sha (utf8 (au_prevHash r @ au_recordJson r'))
                     \<noteq> sha (utf8 (au_prevHash r @ au_recordJson r))) (zip rows' rows)) in
     vr_valid rep = (edited = []) \<and> vr_tamperedCount rep = min 100 (length edited)
     \<and> vr_firstTamperedSequence rep = (case edited of [] \<Rightarrow> None | r # _ \<Rightarrow> Some (au_sequence r)))"
proof -
  have m: "mismatches sha p rows' = map fst (filter (\<lambda>(r', r). sha (utf8 (au_prevHash r @ au_recordJson r'))
      \<noteq> sha (utf8 (au_prevHash r @ au_recordJson r))) (zip rows' rows))"
    if "chained sha p rows" "map au_hash rows' = map au_hash rows" for p
    using that
  proof (induction rows arbitrary: rows' p)
    case (Cons r rs)
    then obtain r' rs' where "rows' = r' # rs'" "au_hash r' = au_hash r" "map au_hash rs' = map au_hash rs"
      by (cases rows') auto
    with Cons show ?case by (auto simp: sha256_hex_def to_hex_inject)
  qed simp
  have a: "ascii_hashes rs = list_all ascii (map au_hash rs)" for rs
    by (simp add: ascii_hashes_def list.pred_map comp_def)
  from chained_ascii [OF assms(1)] assms(2) have "ascii_hashes rows'" unfolding a by simp
  note eq = verify_chain_eq [OF this, of sha genesis_hash, unfolded m [OF assms]]
  show ?thesis unfolding Let_def
    by (rule exI, rule conjI, rule eq)
       (simp only: verification_report.simps first_of_def option.map fst_conv, simp split: list.splits)
qed


definition sample_row :: audit_row where
  "sample_row = \<lparr>au_sequence = 1, au_decisionId = js ''d'', au_timestamp = [], au_agentId = [],
     au_method = [], au_verdict = [], au_obligation = [], au_serverId = None,
     au_qualifiedName = None, au_recordJson = js ''a'', au_prevHash = genesis_hash,
     au_hash = sha256_hex (\<lambda>x. x) (genesis_hash @ js ''a'')\<rparr>"

lemma verifier_localises_edits_witness:
  "\<exists>rep. verify_chain (\<lambda>x. x) [sample_row\<lparr>au_recordJson := js ''b''\<rparr>] genesis_hash = Inr rep
     \<and> vr_tamperedCount rep = 1 \<and> vr_firstTamperedSequence rep = Some 1"
proof -
  have "ascii (js ''a'')" "ascii (js ''b'')" by (simp_all add: ascii_def js_def)
  then have "well_formed (genesis_hash @ js ''a'')" "well_formed (genesis_hash @ js ''b'')"
    by (blast intro: well_formed_append ascii_well_formed genesis_ascii)+
  then have "utf8 (genesis_hash @ js ''b'') \<noteq> utf8 (genesis_hash @ js ''a'')"
    using utf8_inject by (fastforce simp: js_def)
  moreover have "chained (\<lambda>x. x) genesis_hash [sample_row]" by (simp add: sample_row_def)
  ultimately show ?thesis
    using verifier_localises_edits [of "\<lambda>x. x" "[sample_row]" "[sample_row\<lparr>au_recordJson := js ''b''\<rparr>]"]
    by (auto simp: sample_row_def)
qed

text \<open>
  What verification does not cover. Rows with the records and hashes of a prefix of a genuine
  log verify, whatever their other columns say: dropping the newest rows is not noticed without a
  checkpoint, nor is an edit of the agent, method, verdict, obligation, server, name, timestamp,
  decision id or \<open>prevHash\<close> columns that queries filter on.
\<close>

theorem verifier_blind_spots:
  assumes "chained sha genesis_hash rows"
    and "map au_hash rows' = map au_hash (take n rows)"
    and "map au_recordJson rows' = map au_recordJson (take n rows)"
  shows "\<exists>rep. verify_chain sha rows' genesis_hash = Inr rep \<and> vr_valid rep"
proof -
  have "chained sha genesis_hash (take n rows @ drop n rows)" using assms(1) by simp
  then have t: "chained sha genesis_hash (take n rows)" by (simp only: chained_append)
  have m: "mismatches sha p rows' = [] \<longleftrightarrow> mismatches sha p rs = []"
    if "map au_hash rows' = map au_hash rs" "map au_recordJson rows' = map au_recordJson rs" for p rs
    using that
  proof (induction rs arbitrary: p rows')
    case (Cons r rs)
    then obtain r' rs' where rs: "rows' = r' # rs'" by (cases rows') auto
    with Cons.IH [of rs' "au_hash r"] Cons.prems show ?case unfolding rs by simp
  qed simp
  have a: "ascii_hashes rs = list_all ascii (map au_hash rs)" for rs
    by (simp add: ascii_hashes_def list.pred_map comp_def)
  from chained_ascii [OF t] assms(2) have "ascii_hashes rows'" unfolding a by simp
  then show ?thesis using m [OF assms(2,3)] chained_mismatches [OF t] by (simp add: verify_chain_eq)
qed

lemma verifier_blind_spots_witness:
  "\<exists>rep. verify_chain (\<lambda>x. x) [sample_row\<lparr>au_verdict := js ''allow''\<rparr>] genesis_hash = Inr rep \<and> vr_valid rep"
  by (rule verifier_blind_spots [of _ "[sample_row]" _ 1]) (simp_all add: sample_row_def)

text \<open>
  A stored hash of the right length with a character outside ASCII makes the verifier throw a
  RangeError instead of reporting the row.
\<close>

theorem verifier_throws_on_non_ascii_hash:
  assumes "\<And>x. length (sha x) = 32"
  shows "verify_chain sha [sample_row\<lparr>au_hash := 0xE9 # replicate 63 48\<rparr>] genesis_hash = Inl RangeError"
proof -
  have z: "code_points (replicate n 48) = replicate n 48" for n
    by (subst code_points_single) (auto simp: surrogate_defs)
  have "code_points (0xE9 # replicate 63 48) = 0xE9 # replicate 63 48"
    by (subst code_points_single) (auto simp: surrogate_defs)
  moreover have "concat (map (\<lambda>n. utf8_cp (if scalar n then n else 0xFFFD)) (replicate n 48)) = replicate n 48" for n
    by (induction n) (simp_all add: scalar_def utf8_cp_def)
  ultimately have "length (utf8 (0xE9 # replicate 63 48)) = 65"
    by (simp add: utf8_def scalar_def utf8_cp_def)
  moreover have "length (utf8 (sha256_hex sha s)) = 64" "length (sha256_hex sha s) = 64" for s
    using utf8_ascii [OF ascii_hex] assms by (simp_all add: sha256_hex_def length_to_hex)
  ultimately show ?thesis
    by (simp add: verify_chain_def verify_row_def hashes_equal_def)
qed

lemma verifier_throws_on_non_ascii_hash_witness:
  "verify_chain (\<lambda>x. replicate 32 7) [sample_row\<lparr>au_hash := 0xE9 # replicate 63 48\<rparr>] genesis_hash
   = Inl RangeError"
  by (rule verifier_throws_on_non_ascii_hash) simp

section \<open>Queries\<close>

record audit_query_filter =
  qf_agentId :: "jstring option"
  qf_method :: "jstring option"
  qf_verdict :: "jstring option"
  qf_obligation :: "jstring option"
  qf_serverId :: "jstring option"
  qf_since :: "jstring option"
  qf_until :: "jstring option"
  qf_afterSequence :: "nat option"
  qf_limit :: "int option"

text \<open>SQLite compares text by its bytes; a comparison with \<open>NULL\<close> is not true.\<close>

definition opt_holds :: "'a option \<Rightarrow> ('a \<Rightarrow> bool) \<Rightarrow> bool" where
  "opt_holds x P = (case x of None \<Rightarrow> True | Some v \<Rightarrow> P v)"

definition row_matches :: "audit_query_filter \<Rightarrow> audit_row \<Rightarrow> bool" where
  "row_matches f r =
     (opt_holds (qf_agentId f) (\<lambda>v. au_agentId r = v)
      \<and> opt_holds (qf_method f) (\<lambda>v. au_method r = v)
      \<and> opt_holds (qf_verdict f) (\<lambda>v. au_verdict r = v)
      \<and> opt_holds (qf_obligation f) (\<lambda>v. au_obligation r = v)
      \<and> opt_holds (qf_serverId f) (\<lambda>v. au_serverId r = Some v)
      \<and> opt_holds (qf_since f) (\<lambda>v. utf8 v \<le> utf8 (au_timestamp r))
      \<and> opt_holds (qf_until f) (\<lambda>v. utf8 (au_timestamp r) \<le> utf8 v)
      \<and> opt_holds (qf_afterSequence f) (\<lambda>v. v < au_sequence r))"

text \<open>\<open>LIMIT n\<close>: a negative limit is no limit.\<close>

definition sql_limit :: "int \<Rightarrow> 'a list \<Rightarrow> 'a list" where
  "sql_limit n xs = (if n < 0 then xs else take (nat n) xs)"

record audit_query_result =
  qr_rows :: "audit_row list"
  qr_total :: nat
  qr_hasMore :: bool

definition query_audit_log :: "audit_row list \<Rightarrow> audit_query_filter \<Rightarrow> audit_query_result" where
  "query_audit_log db f =
     (let limit = min (case qf_limit f of None \<Rightarrow> 100 | Some l \<Rightarrow> l) 1000;
          total = length (filter (row_matches f) db);
          rows = sql_limit (limit + 1) (sort_key au_sequence (filter (row_matches f) db));
          hasMore = int (length rows) > limit
      in \<lparr>qr_rows = (if hasMore then butlast rows else rows), qr_total = total, qr_hasMore = hasMore\<rparr>)"

text \<open>The pagination protocol of the documentation: pass the last sequence number seen.\<close>

fun fetch_pages :: "nat \<Rightarrow> audit_row list \<Rightarrow> audit_query_filter \<Rightarrow> audit_row list" where
  "fetch_pages 0 db f = []"
| "fetch_pages (Suc k) db f =
     (let res = query_audit_log db f in
      if qr_hasMore res \<and> qr_rows res \<noteq> []
      then qr_rows res @ fetch_pages k db (f\<lparr>qf_afterSequence := Some (au_sequence (last (qr_rows res)))\<rparr>)
      else qr_rows res)"

definition effective_limit :: "audit_query_filter \<Rightarrow> int" where
  "effective_limit f = min (case qf_limit f of None \<Rightarrow> 100 | Some l \<Rightarrow> l) 1000"

lemma sorted_filter_id:
  "sorted_wrt (<) (map au_sequence db) \<Longrightarrow> sort_key au_sequence (filter P db) = filter P db"
  by (rule sort_key_id_if_sorted) (simp add: sorted_filter strict_sorted_imp_sorted)

lemma query_eq:
  assumes "sorted_wrt (<) (map au_sequence db)" "0 \<le> effective_limit f"
  defines "sel \<equiv> filter (row_matches f) db" and "L \<equiv> nat (effective_limit f)"
  shows "query_audit_log db f = \<lparr>qr_rows = take L sel, qr_total = length sel, qr_hasMore = (L < length sel)\<rparr>"
proof -
  have l: "effective_limit f = int L" using assms(2) by (simp add: L_def)
  have lim: "sql_limit (effective_limit f + 1) sel = take (Suc L) sel"
    using assms(2) by (simp add: sql_limit_def L_def nat_add_distrib)
  have srt: "sort_key au_sequence sel = sel" by (simp add: sel_def sorted_filter_id [OF assms(1)])
  have "butlast (take (Suc L) sel) = take L sel" if "L < length sel"
    using that by (simp add: butlast_take)
  then show ?thesis
    unfolding query_audit_log_def effective_limit_def [symmetric] sel_def [symmetric] Let_def srt lim
    unfolding l by (auto simp: min_def)
qed

lemma filter_after:
  assumes "sorted_wrt (<) (map au_sequence db)" "L < length (filter P db)" "0 < L"
  shows "filter (\<lambda>r. P r \<and> au_sequence (last (take L (filter P db))) < au_sequence r) db
      = drop L (filter P db)"
proof -
  define sel where "sel = filter P db"
  have srt: "sorted_wrt (<) (map au_sequence sel)"
    using assms(1) by (simp add: sel_def sorted_wrt_map sorted_wrt_filter)
  have l: "last (take L sel) = sel ! (L - 1)"
    using assms(2,3) by (subst last_conv_nth) (auto simp: sel_def min_def)
  have "filter (\<lambda>r. au_sequence (sel ! (L - 1)) < au_sequence r) (take L sel @ drop L sel) = drop L sel"
  proof -
    have lt: "i < j \<Longrightarrow> j < length sel \<Longrightarrow> au_sequence (sel ! i) < au_sequence (sel ! j)" for i j
      using srt by (simp add: sorted_wrt_iff_nth_less)
    have "\<forall>r \<in> set (take L sel). \<not> au_sequence (sel ! (L - 1)) < au_sequence r"
    proof
      fix r assume "r \<in> set (take L sel)"
      then obtain i where i: "i < L" "i < length sel" "r = sel ! i"
        by (auto simp: in_set_conv_nth)
      then have "i = L - 1 \<or> i < L - 1" by linarith
      moreover have "L - 1 < length sel" using assms(2) by (simp add: sel_def)
      ultimately show "\<not> au_sequence (sel ! (L - 1)) < au_sequence r"
        using i lt [of i "L - 1"] by auto
    qed
    moreover have "\<forall>r \<in> set (drop L sel). au_sequence (sel ! (L - 1)) < au_sequence r"
      using lt assms(3) by (auto simp: in_set_conv_nth)
    ultimately show ?thesis by (simp only: filter_append) (simp add: filter_False filter_True)
  qed
  then show ?thesis unfolding l [unfolded sel_def] sel_def
    by (simp add: filter_filter conj_commute)
qed


lemma fetch_pages_all:
  assumes "sorted_wrt (<) (map au_sequence db)" "1 \<le> effective_limit f"
    and "length (filter (row_matches f) db) < k"
  shows "fetch_pages k db f = filter (row_matches f) db"
  using assms(2,3)
proof (induction k arbitrary: f)
  case (Suc k)
  define sel L where "sel = filter (row_matches f) db" and "L = nat (effective_limit f)"
  have L: "0 < L" "0 \<le> effective_limit f" using Suc.prems(1) by (auto simp: L_def)
  note q = query_eq [OF assms(1) L(2), folded sel_def L_def]
  show ?case
  proof (cases "L < length sel")
    case False
    then show ?thesis by (simp add: q sel_def [symmetric])
  next
    case True
    define s where "s = au_sequence (last (take L sel))"
    let ?f = "f\<lparr>qf_afterSequence := Some s\<rparr>"
    have "last (take L sel) \<in> set sel"
      using True L by (metis in_set_takeD last_in_set less_nat_zero_code list.size(3) take_eq_Nil neq0_conv)
    then have "row_matches f (last (take L sel))" by (simp add: sel_def)
    then have old: "opt_holds (qf_afterSequence f) (\<lambda>v. v < s)" by (simp add: row_matches_def s_def)
    have "row_matches ?f = (\<lambda>r. row_matches f r \<and> s < au_sequence r)"
      using old by (auto simp: fun_eq_iff row_matches_def opt_holds_def split: option.splits)
    then have sel': "filter (row_matches ?f) db = drop L sel"
      using filter_after [OF assms(1) True [unfolded sel_def] L(1)] by (simp only: sel_def s_def)
    have "fetch_pages k db ?f = drop L sel"
      unfolding sel' [symmetric]
      by (rule Suc.IH) (use Suc.prems True L sel' in \<open>auto simp: effective_limit_def sel_def\<close>)
    moreover have "take L sel \<noteq> []" using True L by auto
    ultimately show ?thesis using True by (simp add: q Let_def s_def sel_def [symmetric])
  qed
qed simp

lemma chained_split:
  assumes "chained sha p rows" "sorted_wrt (<) (map au_sequence rows)"
  shows "chained sha (last_hash p (filter (\<lambda>r. au_sequence r < a) rows)) (filter (\<lambda>r. a \<le> au_sequence r) rows)"
  using assms
proof (induction rows arbitrary: p)
  case (Cons r rs)
  show ?case
  proof (cases "au_sequence r < a")
    case True
    from Cons.IH [of "au_hash r"] Cons.prems True show ?thesis by auto
  next
    case False
    with Cons.prems(2) have "filter (\<lambda>r. au_sequence r < a) rs = []" "filter (\<lambda>r. a \<le> au_sequence r) rs = rs"
      by (auto simp: filter_empty_conv filter_id_conv)
    with False Cons.prems(1) show ?thesis by auto
  qed
qed simp

lemma chained_upto:
  "chained sha p rows \<Longrightarrow> sorted_wrt (<) (map au_sequence rows) \<Longrightarrow>
    chained sha p (filter (\<lambda>r. au_sequence r \<le> b) rows)"
proof (induction rows arbitrary: p)
  case (Cons r rs)
  show ?case
  proof (cases "au_sequence r \<le> b")
    case False
    with Cons.prems(2) have "filter (\<lambda>r. au_sequence r \<le> b) rs = []"
      by (auto simp: filter_empty_conv)
    with False show ?thesis by simp
  qed (use Cons in auto)
qed simp

section \<open>Properties of ranges and queries\<close>

text \<open>
  Any sequence range of a reachable log verifies from the initial hash \<open>readRange\<close> returns with
  it, open ends and empty ranges included.
\<close>

theorem range_verifies:
  assumes "audit_reachable sha st" "read_range a b st = (rows, prev)"
  shows "\<exists>rep. verify_chain sha rows prev = Inr rep \<and> vr_valid rep"
proof -
  note wf = reachable_wf [OF assms(1), unfolded wf_store_def]
  have srt: "sorted_wrt (<) (map au_sequence (au_rows st))" using wf by simp
  then have all: "read_all st = au_rows st"
    by (simp add: read_all_def sort_key_id_if_sorted strict_sorted_imp_sorted)
  let ?low = "\<lambda>rs. (case a of None \<Rightarrow> rs | Some a \<Rightarrow> filter (\<lambda>r. a \<le> au_sequence r) rs)"
  let ?up = "\<lambda>rs. (case b of None \<Rightarrow> rs | Some b \<Rightarrow> filter (\<lambda>r. au_sequence r \<le> b) rs)"
  have rows: "rows = ?up (?low (au_rows st))"
    using assms(2) all by (auto simp: read_range_def Let_def filter_filter conj_commute split: option.splits)
  have low: "chained sha prev (?low (au_rows st))"
  proof (cases a)
    case (Some x)
    show ?thesis
    proof (cases "x > 1")
      case True
      with Some assms(2) all have "prev = last_hash genesis_hash (filter (\<lambda>r. au_sequence r < x) (au_rows st))"
        by (simp add: read_range_def Let_def tail_last)
      with Some chained_split [of sha genesis_hash "au_rows st" x] wf srt show ?thesis by simp
    next
      case False
      with Some assms(2) have "prev = genesis_hash" by (simp add: read_range_def Let_def)
      moreover have "filter (\<lambda>r. x \<le> au_sequence r) (au_rows st) = au_rows st"
        using False wf by (force simp: filter_id_conv)
      ultimately show ?thesis using Some wf by simp
    qed
  qed (use assms(2) wf in \<open>simp add: read_range_def Let_def\<close>)
  have "sorted_wrt (<) (map au_sequence (?low (au_rows st)))"
    using srt by (auto simp: sorted_wrt_map sorted_wrt_filter split: option.splits)
  with low have "chained sha prev rows" unfolding rows
    by (cases b) (simp_all add: chained_upto)
  then show ?thesis by (simp add: verify_chain_eq chained_ascii chained_mismatches)
qed

lemma range_verifies_witness:
  "\<exists>rep. verify_chain (take 2) (fst (read_range (Some 3) None (open_store [] 1)))
     (snd (read_range (Some 3) None (open_store [] 1))) = Inr rep \<and> vr_valid rep"
  by (rule range_verifies [OF audit_reachable.fresh]) simp

text \<open>
  A query with a limit of zero or more returns the first rows that satisfy every given filter,
  in sequence order, at most 1000 of them, with the total number of matches, and says there is more
  exactly when there is.
\<close>

theorem query_page:
  assumes "sorted_wrt (<) (map au_sequence db)" "case qf_limit f of None \<Rightarrow> True | Some l \<Rightarrow> 0 \<le> l"
  shows "qr_rows (query_audit_log db f) = take (nat (effective_limit f)) (filter (row_matches f) db)
    \<and> length (qr_rows (query_audit_log db f)) \<le> 1000
    \<and> qr_total (query_audit_log db f) = length (filter (row_matches f) db)
    \<and> (qr_hasMore (query_audit_log db f) \<longleftrightarrow> nat (effective_limit f) < length (filter (row_matches f) db))"
proof -
  have "0 \<le> effective_limit f" "effective_limit f \<le> 1000"
    using assms(2) by (auto simp: effective_limit_def split: option.splits)
  with query_eq [OF assms(1), of f]
  show ?thesis by simp
qed

definition any_filter :: audit_query_filter where
  "any_filter = \<lparr>qf_agentId = None, qf_method = None, qf_verdict = None, qf_obligation = None,
     qf_serverId = None, qf_since = None, qf_until = None, qf_afterSequence = None, qf_limit = None\<rparr>"

lemma query_page_witness:
  "qr_rows (query_audit_log [sample_row, sample_row\<lparr>au_sequence := 2\<rparr>] (any_filter\<lparr>qf_limit := Some 1\<rparr>))
   = [sample_row]"
  using query_page [of "[sample_row, sample_row\<lparr>au_sequence := 2\<rparr>]" "any_filter\<lparr>qf_limit := Some 1\<rparr>"]
  by (simp add: any_filter_def sample_row_def row_matches_def opt_holds_def effective_limit_def)

text \<open>
  Following the cursor returns every matching row exactly once and in order. The documented
  protocol, asking again after the last sequence number until there is no more, ends after at most
  one request per matching row and one more.
\<close>

theorem pagination_is_complete:
  assumes "sorted_wrt (<) (map au_sequence db)"
    and "case qf_limit f of None \<Rightarrow> True | Some l \<Rightarrow> 1 \<le> l"
    and "length (filter (row_matches f) db) < k"
  shows "fetch_pages k db f = filter (row_matches f) db"
  by (rule fetch_pages_all [OF assms(1) _ assms(3)])
     (use assms(2) in \<open>auto simp: effective_limit_def split: option.splits\<close>)

lemma pagination_is_complete_witness:
  "fetch_pages 3 [sample_row, sample_row\<lparr>au_sequence := 2\<rparr>] (any_filter\<lparr>qf_limit := Some 1\<rparr>)
   = [sample_row, sample_row\<lparr>au_sequence := 2\<rparr>]"
  by (subst pagination_is_complete)
     (simp_all add: any_filter_def sample_row_def row_matches_def opt_holds_def)

text \<open>
  A negative limit defeats the cap. Below -1 the statement runs without a limit: every
  matching row but the last comes back, however many there are, and more are promised.
\<close>

theorem negative_limit_is_unbounded:
  assumes "sorted_wrt (<) (map au_sequence db)" "qf_limit f = Some l" "l < -1"
  shows "qr_rows (query_audit_log db f) = butlast (filter (row_matches f) db)
    \<and> qr_hasMore (query_audit_log db f)"
  using assms(2,3) by (auto simp: query_audit_log_def Let_def sql_limit_def sorted_filter_id [OF assms(1)])

lemma negative_limit_is_unbounded_witness:
  "qr_hasMore (query_audit_log [sample_row] (any_filter\<lparr>qf_limit := Some (-5)\<rparr>))"
  using negative_limit_is_unbounded [of "[sample_row]" "any_filter\<lparr>qf_limit := Some (-5)\<rparr>" "-5"]
  by (simp add: any_filter_def)


end
