(* ===== verification/Regex.thy ===== *)
theory Regex
  imports Values
begin

text \<open>
  Regular expressions of the language without the \<open>u\<close> flag, as the ECMAScript matcher runs them:
  backtracking in priority order over UTF-16 code units. A state is the text before the position, read
  backwards, and the text after it; a match is the list of the states it can end in, best first.
  Captures are left out: the code's patterns use at most one, which its user computes itself.
\<close>

section \<open>Patterns\<close>

datatype regex =
    RSet "code_unit \<Rightarrow> bool"
  | REmpty
  | RSeq regex regex
  | RAlt regex regex
  | RStar regex
  | RLazy regex
  | RBoundary
  | RStart
  | REnd

type_synonym match_state = "jstring \<times> jstring"

definition word_char :: "code_unit \<Rightarrow> bool" where
  "word_char c = (is_upper c \<or> is_lower c \<or> is_digit c \<or> c = 95)"

definition at_boundary :: "match_state \<Rightarrow> bool" where
  "at_boundary st = ((case fst st of [] \<Rightarrow> False | c # _ \<Rightarrow> word_char c)
     \<noteq> (case snd st of [] \<Rightarrow> False | c # _ \<Rightarrow> word_char c))"

text \<open>A repetition: an iteration that consumes nothing is refused, so each makes the rest shorter.\<close>

function star_ends :: "(match_state \<Rightarrow> match_state list) \<Rightarrow> match_state \<Rightarrow> match_state list" where
  "star_ends f st = concat (map (star_ends f) (filter (\<lambda>x. length (snd x) < length (snd st)) (f st))) @ [st]"
  by pat_completeness auto
termination by (relation "measure (\<lambda>(_, st). length (snd st))") auto

function lazy_ends :: "(match_state \<Rightarrow> match_state list) \<Rightarrow> match_state \<Rightarrow> match_state list" where
  "lazy_ends f st = st # concat (map (lazy_ends f) (filter (\<lambda>x. length (snd x) < length (snd st)) (f st)))"
  by pat_completeness auto
termination by (relation "measure (\<lambda>(_, st). length (snd st))") auto

declare star_ends.simps [simp del] lazy_ends.simps [simp del]

primrec ends :: "regex \<Rightarrow> match_state \<Rightarrow> match_state list" where
  "ends (RSet p) st = (case snd st of [] \<Rightarrow> [] | c # r \<Rightarrow> if p c then [(c # fst st, r)] else [])"
| "ends REmpty st = [st]"
| "ends (RSeq a b) st = concat (map (ends b) (ends a st))"
| "ends (RAlt a b) st = ends a st @ ends b st"
| "ends (RStar a) st = star_ends (ends a) st"
| "ends (RLazy a) st = lazy_ends (ends a) st"
| "ends RBoundary st = (if at_boundary st then [st] else [])"
| "ends RStart st = (if fst st = [] then [st] else [])"
| "ends REnd st = (if snd st = [] then [st] else [])"

section \<open>Abbreviations of patterns\<close>

definition r_opt :: "regex \<Rightarrow> regex" where "r_opt a = RAlt a REmpty"
definition r_plus :: "regex \<Rightarrow> regex" where "r_plus a = RSeq a (RStar a)"

fun r_seq :: "regex list \<Rightarrow> regex" where
  "r_seq [] = REmpty"
| "r_seq [a] = a"
| "r_seq (a # b # r) = RSeq a (r_seq (b # r))"

fun r_alt :: "regex list \<Rightarrow> regex" where
  "r_alt [] = RSet (\<lambda>_. False)"
| "r_alt [a] = a"
| "r_alt (a # b # r) = RAlt a (r_alt (b # r))"

fun r_times :: "nat \<Rightarrow> regex \<Rightarrow> regex" where
  "r_times 0 a = REmpty"
| "r_times (Suc n) a = RSeq a (r_times n a)"

fun r_upto :: "nat \<Rightarrow> regex \<Rightarrow> regex" where
  "r_upto 0 a = REmpty"
| "r_upto (Suc n) a = r_opt (RSeq a (r_upto n a))"

definition r_atleast :: "nat \<Rightarrow> regex \<Rightarrow> regex" where "r_atleast n a = RSeq (r_times n a) (RStar a)"
definition r_between :: "nat \<Rightarrow> nat \<Rightarrow> regex \<Rightarrow> regex" where
  "r_between m n a = RSeq (r_times m a) (r_upto (n - m) a)"

text \<open>Literals, and literals under the \<open>i\<close> flag: an ASCII letter stands for both its cases.\<close>

definition fold_case :: "code_unit \<Rightarrow> code_unit" where
  "fold_case c = (if is_upper c then c + 32 else c)"

definition r_lit :: "string \<Rightarrow> regex" where
  "r_lit s = r_seq (map (\<lambda>c. RSet (\<lambda>x. x = of_char c)) s)"

definition r_ilit :: "string \<Rightarrow> regex" where
  "r_ilit s = r_seq (map (\<lambda>c. RSet (\<lambda>x. fold_case x = fold_case (of_char c))) s)"

definition r_any_of :: "string \<Rightarrow> regex" where
  "r_any_of s = RSet (\<lambda>x. x \<in> set (js s))"

definition r_none_of :: "string \<Rightarrow> regex" where
  "r_none_of s = RSet (\<lambda>x. x \<notin> set (js s))"

definition r_alnum_or :: "string \<Rightarrow> regex" where
  "r_alnum_or s = RSet (\<lambda>x. is_upper x \<or> is_lower x \<or> is_digit x \<or> x \<in> set (js s))"

definition r_space :: regex where "r_space = RSet js_space"
definition r_word :: regex where "r_word = RSet word_char"
definition r_digit :: regex where "r_digit = RSet is_digit"
definition r_dot :: regex where "r_dot = RSet (\<lambda>c. c \<noteq> 10 \<and> c \<noteq> 13 \<and> c \<noteq> 0x2028 \<and> c \<noteq> 0x2029)"
definition r_all :: regex where "r_all = RSet (\<lambda>_. True)"

definition r_ilits :: "string list \<Rightarrow> regex" where "r_ilits ss = r_alt (map r_ilit ss)"

section \<open>Searching\<close>

text \<open>The first match from a position on: where it starts and where it ends.\<close>

fun search :: "regex \<Rightarrow> jstring \<Rightarrow> jstring \<Rightarrow> (match_state \<times> match_state) option" where
  "search r before [] = (case ends r (before, []) of [] \<Rightarrow> None | e # _ \<Rightarrow> Some ((before, []), e))"
| "search r before (c # s) = (case ends r (before, c # s) of
      e # _ \<Rightarrow> Some ((before, c # s), e)
    | [] \<Rightarrow> search r (c # before) s)"

text \<open>\<open>r.test(s)\<close> for a pattern without flags \<open>g\<close> and \<open>y\<close>, and the text \<open>r.exec(s)[0]\<close>.\<close>

definition regex_test :: "regex \<Rightarrow> jstring \<Rightarrow> bool" where
  "regex_test r s = (search r [] s \<noteq> None)"

definition matched :: "match_state \<Rightarrow> match_state \<Rightarrow> jstring" where
  "matched st e = take (length (snd st) - length (snd e)) (snd st)"

definition regex_first :: "regex \<Rightarrow> jstring \<Rightarrow> jstring option" where
  "regex_first r s = map_option (\<lambda>(st, e). matched st e) (search r [] s)"

text \<open>The states of a match keep the text: what is before and after the position is the whole.\<close>

definition text_of :: "match_state \<Rightarrow> jstring" where
  "text_of st = rev (fst st) @ snd st"

definition forward :: "match_state \<Rightarrow> match_state \<Rightarrow> bool" where
  "forward st e = (\<exists>m. snd st = m @ snd e \<and> fst e = rev m @ fst st)"

lemma forward_refl [simp]: "forward st st"
  by (simp add: forward_def)

lemma forward_trans: "forward a b \<Longrightarrow> forward b c \<Longrightarrow> forward a c"
  unfolding forward_def by (metis append_assoc rev_append)

lemma forward_step: "forward (b, c # r) (c # b, r)"
  by (auto simp: forward_def intro: exI [of _ "[c]"])

lemma forward_length: "forward st e \<Longrightarrow> length (snd e) \<le> length (snd st)"
  by (auto simp: forward_def)

lemma forward_text: "forward st e \<Longrightarrow> text_of e = text_of st"
  by (auto simp: forward_def text_of_def)

lemma star_forward: "(\<And>st e. e \<in> set (f st) \<Longrightarrow> forward st e) \<Longrightarrow> e \<in> set (star_ends f st) \<Longrightarrow> forward st e"
proof (induction f st arbitrary: e rule: star_ends.induct)
  case (1 f st)
  from 1(3) consider "e = st" | x where "x \<in> set (f st)" "length (snd x) < length (snd st)" "e \<in> set (star_ends f x)"
    by (subst (asm) star_ends.simps) auto
  then show ?case
  proof cases
    case (2 x)
    then have "forward x e" using 1(1) [of x e] 1(2) by simp
    with 1(2) [OF 2(1)] show ?thesis by (rule forward_trans)
  qed simp
qed

lemma lazy_forward: "(\<And>st e. e \<in> set (f st) \<Longrightarrow> forward st e) \<Longrightarrow> e \<in> set (lazy_ends f st) \<Longrightarrow> forward st e"
proof (induction f st arbitrary: e rule: lazy_ends.induct)
  case (1 f st)
  from 1(3) consider "e = st" | x where "x \<in> set (f st)" "length (snd x) < length (snd st)" "e \<in> set (lazy_ends f x)"
    by (subst (asm) lazy_ends.simps) auto
  then show ?case
  proof cases
    case (2 x)
    then have "forward x e" using 1(1) [of x e] 1(2) by simp
    with 1(2) [OF 2(1)] show ?thesis by (rule forward_trans)
  qed simp
qed

lemma ends_forward: "e \<in> set (ends r st) \<Longrightarrow> forward st e"
proof (induction r arbitrary: st e)
  case (RSet p)
  then show ?case by (cases st; cases "snd st") (auto simp: forward_step split: if_splits)
next
  case (RSeq a b)
  from RSeq.prems obtain x where x: "x \<in> set (ends a st)" "e \<in> set (ends b x)" by (auto simp del: split_paired_Ex)
  show ?case by (rule forward_trans [OF RSeq.IH(1) [OF x(1)] RSeq.IH(2) [OF x(2)]])
next
  case (RStar a)
  show ?case by (rule star_forward [OF RStar.IH]) (use RStar.prems in simp_all)
next
  case (RLazy a)
  show ?case by (rule lazy_forward [OF RLazy.IH]) (use RLazy.prems in simp_all)
qed (auto split: if_splits)

lemma search_forward: "search r before s = Some (st, e) \<Longrightarrow> forward (before, s) st \<and> forward st e"
proof (induction r before s rule: search.induct)
  case (1 r before)
  then obtain es where "ends r (before, []) = e # es" "st = (before, [])" by (auto split: list.splits)
  with ends_forward [of e r "(before, [])"] show ?case by simp
next
  case (2 r before c s)
  show ?case
  proof (cases "ends r (before, c # s)")
    case Nil
    with 2 have "forward (c # before, s) st \<and> forward st e" by simp
    then show ?thesis using forward_trans [OF forward_step] by blast
  next
    case (Cons x xs)
    then have "x \<in> set (ends r (before, c # s))" by simp
    from ends_forward [OF this] 2(2) Cons show ?thesis by simp
  qed
qed

section \<open>Replacing\<close>

text \<open>
  \<open>s.replace(r, f)\<close> for a global pattern: each match gives way to its replacement, the search goes on
  after it, one unit further when the match was empty; with the matches in order.
\<close>

function replace_from ::
    "regex \<Rightarrow> (jstring \<Rightarrow> jstring) \<Rightarrow> jstring \<Rightarrow> jstring \<Rightarrow> jstring \<times> jstring list" where
  "replace_from r f before s = (case search r before s of
      None \<Rightarrow> (s, [])
    | Some (st, e) \<Rightarrow>
        let skipped = take (length s - length (snd st)) s; m = matched st e in
        if length (snd e) < length (snd st)
        then (let (t, ms) = replace_from r f (fst e) (snd e) in (skipped @ f m @ t, m # ms))
        else (case snd st of
            [] \<Rightarrow> (skipped @ f m, [m])
          | c # rest \<Rightarrow> (let (t, ms) = replace_from r f (c # fst st) rest in (skipped @ f m @ c # t, m # ms))))"
  by pat_completeness auto
termination
proof (relation "measure (\<lambda>(_, _, _, s). length s)")
  fix r :: regex and f :: "jstring \<Rightarrow> jstring" and before s x st e
  assume "search r before s = Some x" "(st, e) = x"
  then have st: "length (snd st) \<le> length s" using search_forward [of r before s st e] forward_length by fastforce
  show "((r, f, fst e, snd e), r, f, before, s) \<in> measure (\<lambda>(_, _, _, s). length s)"
    if "length (snd e) < length (snd st)" using that st by (cases e) simp
  show "((r, f, c # fst st, rest), r, f, before, s) \<in> measure (\<lambda>(_, _, _, s). length s)"
    if "snd st = c # rest" for c rest using that st by simp
qed simp_all

declare replace_from.simps [simp del]

definition regex_replace :: "regex \<Rightarrow> (jstring \<Rightarrow> jstring) \<Rightarrow> jstring \<Rightarrow> jstring" where
  "regex_replace r f s = fst (replace_from r f [] s)"

text \<open>The texts of all the matches of a global pattern.\<close>

definition regex_matches :: "regex \<Rightarrow> jstring \<Rightarrow> jstring list" where
  "regex_matches r s = snd (replace_from r (\<lambda>_. []) [] s)"

lemma replace_from_none: "search r before s = None \<Longrightarrow> replace_from r f before s = (s, [])"
  by (subst replace_from.simps) simp

lemma regex_replace_none: "\<not> regex_test r s \<Longrightarrow> regex_replace r f s = s"
  using replace_from_none [of r "[]" s f] unfolding regex_test_def regex_replace_def by (metis fst_conv)

lemma matches_empty_iff: "regex_matches r s = [] \<longleftrightarrow> \<not> regex_test r s"
proof (cases "search r [] s")
  case (Some x)
  then show ?thesis unfolding regex_matches_def regex_test_def
    by (subst replace_from.simps) (simp add: Let_def split: prod.splits list.splits)
qed (simp add: regex_matches_def regex_test_def replace_from_none)

section \<open>Searching, position by position\<close>

lemma search_None_iff: "search r before s = None \<longleftrightarrow> (\<forall>a b. s = a @ b \<longrightarrow> ends r (rev a @ before, b) = [])"
proof (induction r before s rule: search.induct)
  case (1 r before)
  then show ?case by (auto split: list.splits)
next
  case (2 r before c s)
  show ?case
  proof (cases "ends r (before, c # s)")
    case Nil
    with 2 have "search r before (c # s) = None \<longleftrightarrow> (\<forall>a b. s = a @ b \<longrightarrow> ends r (rev a @ c # before, b) = [])" by simp
    also have "\<dots> \<longleftrightarrow> (\<forall>a b. c # s = a @ b \<longrightarrow> ends r (rev a @ before, b) = [])" (is "?L \<longleftrightarrow> ?R")
    proof
      show ?R if ?L
      proof (intro allI impI)
        fix a b assume "c # s = a @ b"
        with Nil \<open>?L\<close> show "ends r (rev a @ before, b) = []" by (cases a) auto
      qed
      show ?L if ?R
      proof (intro allI impI)
        fix a b assume "s = a @ b"
        with \<open>?R\<close> [rule_format, of "c # a" b] show "ends r (rev a @ c # before, b) = []" by simp
      qed
    qed
    finally show ?thesis .
  next
    case (Cons x xs)
    then have "ends r (rev [] @ before, c # s) \<noteq> []" by simp
    then have "\<not> (\<forall>a b. c # s = a @ b \<longrightarrow> ends r (rev a @ before, b) = [])" by (metis append_Nil)
    with Cons show ?thesis by auto
  qed
qed

lemma regex_test_iff: "regex_test r s \<longleftrightarrow> (\<exists>a b. s = a @ b \<and> ends r (rev a, b) \<noteq> [])"
  using search_None_iff [of r "[]" s] by (auto simp: regex_test_def)

lemma test_set_iff: "regex_test (RSet p) s \<longleftrightarrow> (\<exists>c \<in> set s. p c)"
proof
  assume "regex_test (RSet p) s"
  then obtain a b where "s = a @ b" "ends (RSet p) (rev a, b) \<noteq> []" unfolding regex_test_iff by blast
  then show "\<exists>c \<in> set s. p c" by (cases b) (auto split: if_splits)
next
  assume "\<exists>c \<in> set s. p c"
  then obtain a c b where "s = a @ c # b" "p c" by (meson split_list)
  then show "regex_test (RSet p) s" unfolding regex_test_iff by (intro exI [of _ a] exI [of _ "c # b"]) simp
qed

lemma replace_set: "replace_from (RSet p) (\<lambda>_. []) before s = (filter (\<lambda>c. \<not> p c) s, map (\<lambda>c. [c]) (filter p s))"
proof (induction s arbitrary: before)
  case Nil
  show ?case by (subst replace_from.simps) simp
next
  case (Cons c s)
  show ?case
  proof (cases "p c")
    case True
    then have "search (RSet p) before (c # s) = Some ((before, c # s), (c # before, s))" by simp
    with True Cons show ?thesis by (subst replace_from.simps) (simp add: matched_def)
  next
    case False
    then have q: "search (RSet p) before (c # s) = search (RSet p) (c # before) s" by simp
    show ?thesis
    proof (cases "search (RSet p) (c # before) s")
      case None
      then have "replace_from (RSet p) (\<lambda>_. []) (c # before) s = (s, [])" by (rule replace_from_none)
      with Cons [of "c # before"] False q None show ?thesis by (subst replace_from.simps) auto
    next
      case (Some x)
      obtain st e where x: "x = (st, e)" by (cases x)
      from search_forward [of "RSet p" "c # before" s st e] Some x have "length (snd st) \<le> length s"
        using forward_length by fastforce
      then have skip: "take (length (c # s) - length (snd st)) (c # s) = c # take (length s - length (snd st)) s"
        by (simp add: Suc_diff_le)
      have "replace_from (RSet p) (\<lambda>_. []) before (c # s) =
          (case replace_from (RSet p) (\<lambda>_. []) (c # before) s of (t, ms) \<Rightarrow> (c # t, ms))"
        by (subst (1 2) replace_from.simps)
          (simp only: q Some x option.case prod.case skip Let_def, auto split: prod.splits list.splits)
      with Cons [of "c # before"] False show ?thesis by simp
    qed
  qed
qed

end
