(* ===== verification/Redact.thy ===== *)
theory Redact
  imports Regex Approvals
begin

text \<open>
  Secret redaction, \<open>packages/mcp-core/src/redact.ts\<close>: the value patterns, the key names, and the walk
  that replaces what they find. HMAC is a parameter, used only for correlation ids.
\<close>

text \<open>
  \<open>toLowerCase\<close> on ASCII and on the two other characters whose lower case holds an ASCII letter, the
  Kelvin sign and the dotted capital I. The remaining letters keep their case, which no comparison with
  an ASCII text can tell.
\<close>

definition lower_unit :: "code_unit \<Rightarrow> jstring" where
  "lower_unit c = (if is_upper c then [c + 32] else if c = 0x212A then [107]
     else if c = 0x130 then [105, 0x307] else [c])"

definition js_lower :: "jstring \<Rightarrow> jstring" where
  "js_lower s = concat (map lower_unit s)"

record redaction_finding =
  rn_path :: jstring
  rn_kind :: jstring

record redact_options =
  ro_maxStringLength :: nat
  ro_maxDepth :: nat
  ro_correlationKey :: "jstring option"

definition default_redact_options :: redact_options where
  "default_redact_options = \<lparr>ro_maxStringLength = 4096, ro_maxDepth = 12, ro_correlationKey = None\<rparr>"

section \<open>The patterns\<close>

definition r_alnum :: regex where "r_alnum = r_alnum_or ''''"
definition r_upper :: regex where "r_upper = RSet is_upper"
definition r_key_words :: regex where "r_key_words = RStar (r_seq [r_lit '' '', r_plus r_upper])"

definition value_patterns :: "(jstring \<times> regex) list" where
  "value_patterns =
    [(js ''private-key'', r_seq [r_lit ''-----BEGIN'', r_key_words, r_lit '' PRIVATE KEY-----'', RLazy r_all,
        r_lit ''-----END'', r_key_words, r_lit '' PRIVATE KEY-----'']),
     (js ''private-key-header'', r_seq [r_lit ''-----BEGIN'', r_key_words, r_lit '' PRIVATE KEY-----'']),
     (js ''aws-access-key-id'', r_seq [RBoundary,
        r_alt [r_lit ''AKIA'', r_lit ''ASIA'', r_lit ''ABIA'', r_lit ''ACCA''],
        r_times 16 (RSet (\<lambda>c. is_digit c \<or> is_upper c)), RBoundary]),
     (js ''github-token'', r_seq [RBoundary, r_lit ''gh'', r_any_of ''pousr'', r_lit ''_'',
        r_between 36 255 r_alnum, RBoundary]),
     (js ''slack-token'', r_seq [RBoundary, r_lit ''xox'', r_any_of ''abprse'', r_lit ''-'',
        r_atleast 10 (r_alnum_or ''-'')]),
     (js ''groq-api-key'', r_seq [RBoundary, r_lit ''gsk_'', r_atleast 20 r_alnum, RBoundary]),
     (js ''xai-api-key'', r_seq [RBoundary, r_lit ''xai-'', r_atleast 20 r_alnum, RBoundary]),
     (js ''openai-api-key'', r_seq [RBoundary, r_lit ''sk-'', r_opt (r_lit ''proj-''),
        r_atleast 20 (r_alnum_or ''_-''), RBoundary]),
     (js ''stripe-key'', r_seq [RBoundary, r_alt [r_lit ''sk'', r_lit ''rk''], r_lit ''_'',
        r_alt [r_lit ''live'', r_lit ''test''], r_lit ''_'', r_atleast 16 r_alnum, RBoundary]),
     (js ''npm-token'', r_seq [RBoundary, r_lit ''npm_'', r_times 36 r_alnum, RBoundary]),
     (js ''google-api-key'', r_seq [RBoundary, r_lit ''AIza'', r_times 35 (r_alnum_or ''_-''), RBoundary]),
     (js ''jwt'', r_seq [RBoundary, r_lit ''eyJ'', r_atleast 8 (r_alnum_or ''_-''), r_lit ''.'',
        r_atleast 8 (r_alnum_or ''_-''), r_lit ''.'', r_atleast 8 (r_alnum_or ''_-''), RBoundary]),
     (js ''bearer-token'', r_seq [RBoundary, r_ilit ''Bearer'', r_plus r_space,
        r_atleast 16 (r_alnum_or ''._~+/-''), r_upto 2 (r_lit ''='')]),
     (js ''url-credentials'', r_seq [RBoundary, RSet (\<lambda>c. is_upper c \<or> is_lower c), RStar (r_alnum_or ''+.-''),
        r_lit ''://'', r_plus (RSet (\<lambda>c. \<not> js_space c \<and> c \<notin> set (js '':@/''))), r_lit '':'',
        r_plus (RSet (\<lambda>c. \<not> js_space c \<and> c \<notin> set (js ''@/''))), r_lit ''@''])]"

definition sensitive_tokens :: "jstring list" where
  "sensitive_tokens = map js
    [''password'', ''passwd'', ''pass'', ''passphrase'', ''secret'', ''secrets'', ''token'', ''apikey'',
     ''credential'', ''credentials'', ''authorization'', ''auth'', ''privatekey'', ''privkey'', ''cookie'',
     ''cookies'', ''accesskey'', ''secretkey'', ''refreshtoken'', ''accesstoken'', ''idtoken'',
     ''clientsecret'', ''sessionid'', ''sessiontoken'', ''signature'', ''bearer'', ''jwt'', ''otp'', ''pin'']"

section \<open>Key names\<close>

text \<open>Both replacements put a space before the last one or two units of each match.\<close>

definition space_before_last :: "nat \<Rightarrow> jstring \<Rightarrow> jstring" where
  "space_before_last n m = take (length m - n) m @ 32 # drop (length m - n) m"

definition tokenize_key :: "jstring \<Rightarrow> jstring list" where
  "tokenize_key key =
     (let a = regex_replace (RSeq (RSet (\<lambda>c. is_lower c \<or> is_digit c)) r_upper) (space_before_last 1) key;
          b = regex_replace (r_seq [r_plus r_upper, r_upper, RSet is_lower]) (space_before_last 2) a;
          parts = split_on 32 (map (\<lambda>c. if is_upper c \<or> is_lower c \<or> is_digit c then c else 32) b)
      in map js_lower (filter (\<lambda>t. length t > 0) parts))"

fun any_sensitive :: "jstring list \<Rightarrow> bool" where
  "any_sensitive [] = False"
| "any_sensitive (t # r) =
     (if t \<in> set sensitive_tokens then True
      else case r of
          [] \<Rightarrow> False
        | next # _ \<Rightarrow> if t @ next \<in> set sensitive_tokens then True else any_sensitive r)"

definition is_sensitive_key :: "jstring \<Rightarrow> bool" where
  "is_sensitive_key key = any_sensitive (tokenize_key key)"

section \<open>Redaction\<close>

definition placeholder :: "hmac_fun \<Rightarrow> redact_options \<Rightarrow> jstring \<Rightarrow> jstring \<Rightarrow> jstring" where
  "placeholder hmac opts kind hidden =
     js ''['' @ join_with [58] ([js ''REDACTED:'' @ kind, js ''len='' @ dec (length hidden)]
       @ (case ro_correlationKey opts of
            None \<Rightarrow> []
          | Some key \<Rightarrow> [js ''id='' @ take 12 (to_hex (hmac (utf8 key) (utf8 hidden)))])) @ js '']''"

fun apply_patterns ::
    "hmac_fun \<Rightarrow> redact_options \<Rightarrow> jstring \<Rightarrow> (jstring \<times> regex) list \<Rightarrow> jstring \<Rightarrow> jstring \<times> redaction_finding list" where
  "apply_patterns hmac opts path [] text = (text, [])"
| "apply_patterns hmac opts path ((kind, pat) # r) text =
     (if \<not> regex_test pat text then apply_patterns hmac opts path r text
      else let found = map (\<lambda>_. \<lparr>rn_path = path, rn_kind = kind\<rparr>) (regex_matches pat text);
               (out, more) = apply_patterns hmac opts path r (regex_replace pat (placeholder hmac opts kind) text)
           in (out, found @ more))"

definition truncate_text :: "redact_options \<Rightarrow> jstring \<Rightarrow> jstring" where
  "truncate_text opts s = (let m = ro_maxStringLength opts in
     if length s > m then take m s @ 0x2026 # js ''[truncated '' @ dec (length s - m) @ js '' chars]'' else s)"

definition redact_string :: "hmac_fun \<Rightarrow> redact_options \<Rightarrow> jstring \<Rightarrow> jstring \<Rightarrow> jstring \<times> redaction_finding list" where
  "redact_string hmac opts path s = apply_patterns hmac opts path value_patterns (truncate_text opts s)"

definition child_path :: "jstring \<Rightarrow> jstring \<Rightarrow> jstring" where
  "child_path path key = (if path = [] then key else path @ 46 # key)"

text \<open>What stands for a sensitive value: the text of a string, the JSON text of anything else.\<close>

definition rendered :: "jvalue \<Rightarrow> exn + jstring" where
  "rendered v = (case v of JString s \<Rightarrow> Inr s
     | _ \<Rightarrow> bind_r (stringify v) (\<lambda>t. Inr (case t of None \<Rightarrow> [] | Some s \<Rightarrow> s)))"

definition nullish :: "jvalue \<Rightarrow> bool" where
  "nullish v = (v = JNull \<or> v = JUndefined)"

text \<open>An entry of an object: the key decides first.\<close>

definition redact_entry ::
    "hmac_fun \<Rightarrow> redact_options \<Rightarrow> jstring \<Rightarrow> jstring \<Rightarrow> jvalue
      \<Rightarrow> (exn + jvalue \<times> redaction_finding list) \<Rightarrow> exn + jvalue \<times> redaction_finding list" where
  "redact_entry hmac opts path key v walked =
     (if is_sensitive_key key \<and> \<not> nullish v
      then bind_r (rendered v) (\<lambda>t. Inr (JString (placeholder hmac opts (js ''by-key-name'') t),
             [\<lparr>rn_path = child_path path key, rn_kind = js ''key-name:'' @ js_lower key\<rparr>]))
      else walked)"

definition assign_all :: "jvalue props \<Rightarrow> jvalue props" where
  "assign_all kvs = fold (\<lambda>(k, v) out. js_assign k v out) kvs []"

lemma size_enumerate: "(i, x) \<in> set (enumerate n xs) \<Longrightarrow> size x < Suc (size_list size xs)"
  by (auto simp: in_set_enumerate_eq less_Suc_eq_le intro!: size_list_estimation' [where x = x])

function redact_walk ::
    "hmac_fun \<Rightarrow> redact_options \<Rightarrow> jstring \<Rightarrow> nat \<Rightarrow> jvalue \<Rightarrow> exn + jvalue \<times> redaction_finding list" where
  "redact_walk hmac opts path depth v =
     (if depth > ro_maxDepth opts then Inr (JString (js ''[REDACTED:max-depth-exceeded]''), [])
      else case v of
          JString s \<Rightarrow> (case redact_string hmac opts path s of (t, fs) \<Rightarrow> Inr (JString t, fs))
        | JArray xs \<Rightarrow>
            bind_r (map_r (\<lambda>(i, x). redact_walk hmac opts (path @ 91 # dec i @ [93]) (Suc depth) x) (enumerate 0 xs))
              (\<lambda>ys. Inr (JArray (map fst ys), concat (map snd ys)))
        | JObject kvs \<Rightarrow>
            bind_r (map_r (\<lambda>(k, x). redact_entry hmac opts path k x
                (redact_walk hmac opts (child_path path k) (Suc depth) x)) kvs)
              (\<lambda>ys. Inr (JObject (assign_all (zip (map fst kvs) (map fst ys))), concat (map snd ys)))
        | _ \<Rightarrow> Inr (v, []))"
  by pat_completeness auto
termination
  by (relation "measure (\<lambda>(_, _, _, _, v). size v)") (auto simp: size_prop size_enumerate)

declare redact_walk.simps [simp del]

record redaction_result =
  rd_value :: jvalue
  rd_findings :: "redaction_finding list"
  rd_redacted :: bool

definition redact :: "hmac_fun \<Rightarrow> redact_options \<Rightarrow> jvalue \<Rightarrow> exn + redaction_result" where
  "redact hmac opts v = bind_r (redact_walk hmac opts [] 0 v)
     (\<lambda>(r, fs). Inr \<lparr>rd_value = r, rd_findings = fs, rd_redacted = (length fs > 0)\<rparr>)"

definition redact_text :: "hmac_fun \<Rightarrow> redact_options \<Rightarrow> jstring \<Rightarrow> exn + jstring" where
  "redact_text hmac opts text = bind_r (redact hmac opts (JString text))
     (\<lambda>r. Inr (case rd_value r of JString s \<Rightarrow> s | _ \<Rightarrow> text))"

section \<open>What a redacted record reveals\<close>

text \<open>
  Two values an audit record cannot tell apart: equal but for what stands under sensitive keys, of
  which only the length of the text counts.
\<close>

definition same_length :: "jvalue \<Rightarrow> jvalue \<Rightarrow> bool" where
  "same_length v w = (case (rendered v, rendered w) of
      (Inr a, Inr b) \<Rightarrow> length a = length b
    | _ \<Rightarrow> False)"

inductive alike :: "jvalue \<Rightarrow> jvalue \<Rightarrow> bool" where
  same: "alike v v"
| elements: "list_all2 alike xs ys \<Longrightarrow> alike (JArray xs) (JArray ys)"
| entries: "list_all2 (\<lambda>p q. fst p = fst q \<and>
      (if is_sensitive_key (fst p)
       then snd p = snd q \<or> same_length (snd p) (snd q) \<and> \<not> nullish (snd p) \<and> \<not> nullish (snd q)
       else alike (snd p) (snd q))) kvs kvs' \<Longrightarrow> alike (JObject kvs) (JObject kvs')"

lemma placeholder_length:
  "ro_correlationKey opts = None \<Longrightarrow> length a = length b \<Longrightarrow> placeholder hmac opts kind a = placeholder hmac opts kind b"
  by (simp add: placeholder_def)

lemma redact_entry_masked:
  assumes "ro_correlationKey opts = None" "is_sensitive_key key" "same_length v w"
    and "\<not> nullish v" "\<not> nullish w"
  shows "redact_entry hmac opts path key v f = redact_entry hmac opts path key w g"
proof -
  from assms(3) obtain a b where "rendered v = Inr a" "rendered w = Inr b" "length a = length b"
    by (auto simp: same_length_def split: sum.splits)
  with assms placeholder_length [of opts a b hmac] show ?thesis by (simp add: redact_entry_def)
qed

lemma map_r_list_all2: "list_all2 (\<lambda>x y. f x = g y) xs ys \<Longrightarrow> map_r f xs = map_r g ys"
  by (induction rule: list_all2_induct) simp_all

lemma all2_partner: "list_all2 P xs ys \<Longrightarrow> x \<in> set xs \<Longrightarrow> \<exists>y. y \<in> set ys \<and> P x y"
  by (induction rule: list_all2_induct) auto

lemma all2_origin: "list_all2 P xs ys \<Longrightarrow> y \<in> set ys \<Longrightarrow> \<exists>x. x \<in> set xs \<and> P x y"
  by (induction rule: list_all2_induct) auto

lemma list_all2_enumerate: "list_all2 P xs ys \<Longrightarrow> list_all2 (\<lambda>(i, x) (j, y). i = j \<and> P x y) (enumerate n xs) (enumerate n ys)"
  by (induction arbitrary: n rule: list_all2_induct) auto

lemma redact_walk_alike:
  "alike v w \<Longrightarrow> ro_correlationKey opts = None \<Longrightarrow> redact_walk hmac opts path depth v = redact_walk hmac opts path depth w"
proof (induction arbitrary: path depth rule: alike.induct)
  case (elements xs ys)
  then have "list_all2 (\<lambda>x y. \<forall>path depth. redact_walk hmac opts path depth x = redact_walk hmac opts path depth y) xs ys"
    by (auto elim: list_all2_mono)
  from list_all2_enumerate [OF this, of 0]
  have "map_r (\<lambda>(i, x). redact_walk hmac opts (path @ 91 # dec i @ [93]) (Suc depth) x) (enumerate 0 xs)
      = map_r (\<lambda>(i, x). redact_walk hmac opts (path @ 91 # dec i @ [93]) (Suc depth) x) (enumerate 0 ys)"
    by (intro map_r_list_all2) (auto elim!: list_all2_mono)
  then show ?case by (simp add: redact_walk.simps [of _ _ _ _ "JArray _"])
next
  case (entries kvs kvs')
  have keys: "map fst kvs = map fst kvs'"
    using entries.IH by (auto simp: list_all2_conv_all_nth intro: nth_equalityI)
  have "map_r (\<lambda>(k, x). redact_entry hmac opts path k x
            (redact_walk hmac opts (child_path path k) (Suc depth) x)) kvs
      = map_r (\<lambda>(k, x). redact_entry hmac opts path k x
            (redact_walk hmac opts (child_path path k) (Suc depth) x)) kvs'"
  proof (intro map_r_list_all2 list_all2_mono [OF entries.IH])
    fix p q assume a: "fst p = fst q \<and> (if is_sensitive_key (fst p)
        then snd p = snd q \<or> same_length (snd p) (snd q) \<and> \<not> nullish (snd p) \<and> \<not> nullish (snd q)
        else alike (snd p) (snd q) \<and> (ro_correlationKey opts = None \<longrightarrow>
          (\<forall>path depth. redact_walk hmac opts path depth (snd p) = redact_walk hmac opts path depth (snd q))))"
    show "(case p of (k, x) \<Rightarrow> redact_entry hmac opts path k x (redact_walk hmac opts (child_path path k) (Suc depth) x))
        = (case q of (k, x) \<Rightarrow> redact_entry hmac opts path k x (redact_walk hmac opts (child_path path k) (Suc depth) x))"
    proof (cases "is_sensitive_key (fst p)")
      case True
      with a redact_entry_masked [OF entries.prems True, of "snd p" "snd q"] show ?thesis
        by (cases p; cases q) auto
    next
      case False
      with a entries.prems show ?thesis by (cases p; cases q) (auto simp: redact_entry_def)
    qed
  qed
  with keys show ?case by (simp add: redact_walk.simps [of _ _ _ _ "JObject _"])
qed simp

section \<open>The form of a redacted record\<close>

text \<open>A string after all patterns, each match replaced by its placeholder.\<close>

definition masked_text :: "hmac_fun \<Rightarrow> redact_options \<Rightarrow> jstring \<Rightarrow> jstring" where
  "masked_text hmac opts s =
     fold (\<lambda>(kind, pat). regex_replace pat (placeholder hmac opts kind)) value_patterns (truncate_text opts s)"

definition scalar_value :: "jvalue \<Rightarrow> bool" where
  "scalar_value v = (case v of JString _ \<Rightarrow> False | JArray _ \<Rightarrow> False | JObject _ \<Rightarrow> False | _ \<Rightarrow> True)"

text \<open>
  What becomes of a value under so many containers: the same containers, with the same keys in the same order,
  the same scalars, masked strings, and a placeholder for what a sensitive key name hides.
\<close>

inductive masked :: "hmac_fun \<Rightarrow> redact_options \<Rightarrow> nat \<Rightarrow> jvalue \<Rightarrow> jvalue \<Rightarrow> bool" for hmac opts where
  mask_deep: "ro_maxDepth opts < depth \<Longrightarrow> masked hmac opts depth v (JString (js ''[REDACTED:max-depth-exceeded]''))"
| mask_text: "depth \<le> ro_maxDepth opts \<Longrightarrow> masked hmac opts depth (JString s) (JString (masked_text hmac opts s))"
| mask_scalar: "depth \<le> ro_maxDepth opts \<Longrightarrow> scalar_value v \<Longrightarrow> masked hmac opts depth v v"
| mask_elements: "depth \<le> ro_maxDepth opts \<Longrightarrow> list_all2 (masked hmac opts (Suc depth)) xs ys \<Longrightarrow>
    masked hmac opts depth (JArray xs) (JArray ys)"
| mask_entries: "depth \<le> ro_maxDepth opts \<Longrightarrow>
    list_all2 (\<lambda>p q. fst q = fst p \<and>
      (if is_sensitive_key (fst p) \<and> \<not> nullish (snd p)
       then \<exists>t. rendered (snd p) = Inr t \<and> snd q = JString (placeholder hmac opts (js ''by-key-name'') t)
       else masked hmac opts (Suc depth) (snd p) (snd q)))
      (filter (\<lambda>p. fst p \<noteq> js ''__proto__'') kvs) kvs' \<Longrightarrow>
    masked hmac opts depth (JObject kvs) (JObject kvs')"

lemma apply_patterns_text:
  "fst (apply_patterns hmac opts path ps s) = fold (\<lambda>(kind, pat). regex_replace pat (placeholder hmac opts kind)) ps s"
  by (induction hmac opts path ps s rule: apply_patterns.induct) (auto simp: regex_replace_none split: prod.splits)

lemma assign_all_distinct: "distinct (map fst kvs) \<Longrightarrow> assign_all kvs = filter (\<lambda>p. fst p \<noteq> js ''__proto__'') kvs"
proof -
  have "distinct (map fst (acc @ kvs)) \<Longrightarrow> fold (\<lambda>(k, v). js_assign k v) kvs acc
      = acc @ filter (\<lambda>p. fst p \<noteq> js ''__proto__'') kvs" for acc
    by (induction kvs arbitrary: acc) (auto simp: js_assign_def put_new)
  from this [of "[]"] show "distinct (map fst kvs) \<Longrightarrow> assign_all kvs = filter (\<lambda>p. fst p \<noteq> js ''__proto__'') kvs"
    by (simp add: assign_all_def)
qed

lemma list_all2_filter_fst:
  assumes "list_all2 P xs ys" and "\<And>p q. P p q \<Longrightarrow> fst q = fst p"
  shows "list_all2 P (filter (\<lambda>p. f (fst p)) xs) (filter (\<lambda>p. f (fst p)) ys)"
  using assms by (induction rule: list_all2_induct) auto

lemma redact_walk_masked:
  "redact_walk hmac opts path depth v = Inr (r, fs) \<Longrightarrow> wf_value v \<Longrightarrow> masked hmac opts depth v r"
proof (induction hmac opts path depth v arbitrary: r fs rule: redact_walk.induct)
  case (1 hmac opts path depth v)
  show ?case
  proof (cases "ro_maxDepth opts < depth")
    case True
    with 1(3) show ?thesis by (auto simp: redact_walk.simps [of _ _ _ depth] intro: mask_deep)
  next
    case False
    then have ok: "depth \<le> ro_maxDepth opts" by simp
    show ?thesis
    proof (cases v)
      case (JString s)
      with 1(3) False apply_patterns_text [of hmac opts path value_patterns "truncate_text opts s"] mask_text [OF ok]
      show ?thesis
        by (auto simp: redact_walk.simps [of _ _ _ depth] redact_string_def masked_text_def split: prod.splits)
    next
      case (JArray xs)
      with 1(3) False obtain ys where ys: "list_all2 (\<lambda>p y. redact_walk hmac opts (path @ 91 # dec (fst p) @ [93]) (Suc depth)
          (snd p) = Inr y) (enumerate 0 xs) ys" and r: "r = JArray (map fst ys)"
        by (auto simp: redact_walk.simps [of _ _ _ depth] result_iffs map_r_Inr_iff case_prod_unfold)
      have "masked hmac opts (Suc depth) (xs ! i) (map fst ys ! i)" if i: "i < length xs" for i
      proof -
        from list_all2_nthD [OF ys, of i] i
        have "redact_walk hmac opts (path @ 91 # dec i @ [93]) (Suc depth) (xs ! i) = Inr (ys ! i)"
          by (simp add: nth_enumerate_eq)
        moreover have "(i, xs ! i) \<in> set (enumerate 0 xs)" using i by (simp add: in_set_enumerate_eq)
        moreover have "wf_value (xs ! i)" using 1(4) JArray i by (simp add: list_all_length)
        ultimately show ?thesis
          using 1(1) [OF False JArray, of "(i, xs ! i)" i "xs ! i" "fst (ys ! i)" "snd (ys ! i)"] list_all2_lengthD [OF ys] i
          by simp
      qed
      then have "list_all2 (masked hmac opts (Suc depth)) xs (map fst ys)"
        using list_all2_lengthD [OF ys] by (simp add: list_all2_conv_all_nth)
      from mask_elements [OF ok this] show ?thesis by (simp add: JArray r)
    next
      case (JObject kvs)
      with 1(3) False obtain ys where ys: "list_all2 (\<lambda>p y. redact_entry hmac opts path (fst p) (snd p)
          (redact_walk hmac opts (child_path path (fst p)) (Suc depth) (snd p)) = Inr y) kvs ys"
        and r: "r = JObject (assign_all (zip (map fst kvs) (map fst ys)))"
        by (auto simp: redact_walk.simps [of _ _ _ depth] result_iffs map_r_Inr_iff case_prod_unfold)
      from 1(4) JObject have wf: "distinct (map fst kvs)" "\<And>k x. (k, x) \<in> set kvs \<Longrightarrow> wf_value x"
        by (auto simp: wf_props_def list_all_iff)
      have len: "length ys = length kvs" using list_all2_lengthD [OF ys] by simp
      let ?P = "\<lambda>p q. fst q = fst p \<and> (if is_sensitive_key (fst p) \<and> \<not> nullish (snd p)
         then \<exists>t. rendered (snd p) = Inr t \<and> snd q = JString (placeholder hmac opts (js ''by-key-name'') t)
         else masked hmac opts (Suc depth) (snd p) (snd q))"
      have "?P (kvs ! i) (fst (kvs ! i), fst (ys ! i))" if i: "i < length kvs" for i
      proof -
        obtain k x where p: "kvs ! i = (k, x)" by fastforce
        then have mem: "(k, x) \<in> set kvs" using i by (metis nth_mem)
        have e: "redact_entry hmac opts path k x (redact_walk hmac opts (child_path path k) (Suc depth) x) = Inr (ys ! i)"
          using list_all2_nthD [OF ys i] p by simp
        show ?thesis
        proof (cases "is_sensitive_key k \<and> \<not> nullish x")
          case True
          with e p show ?thesis by (cases "ys ! i") (auto simp: redact_entry_def result_iffs)
        next
          case hidden: False
          with e have "redact_walk hmac opts (child_path path k) (Suc depth) x = Inr (fst (ys ! i), snd (ys ! i))"
            by (auto simp: redact_entry_def)
          from 1(2) [OF False JObject mem refl this wf(2) [OF mem]] hidden p show ?thesis by auto
        qed
      qed
      note each = this
      have "list_all2 ?P kvs (zip (map fst kvs) (map fst ys))"
      proof (rule list_all2_all_nthI)
        fix i assume "i < length kvs"
        with each [OF this] len show "?P (kvs ! i) (zip (map fst kvs) (map fst ys) ! i)" by (auto split: if_splits)
      qed (use len in simp)
      from list_all2_filter_fst [OF this, of "\<lambda>k. k \<noteq> js ''__proto__''"]
      have "list_all2 ?P (filter (\<lambda>p. fst p \<noteq> js ''__proto__'') kvs) (assign_all (zip (map fst kvs) (map fst ys)))"
        using wf(1) len by (simp add: assign_all_distinct)
      from mask_entries [OF ok this] show ?thesis by (simp add: JObject r)
    qed (use 1(3) False ok in \<open>auto simp: redact_walk.simps [of _ _ _ depth] scalar_value_def intro!: mask_scalar\<close>)
  qed
qed


lemma api_key_is_sensitive: "is_sensitive_key (js ''apiKey'')"
  by code_simp


end
