(* ===== verification/Extract.thy ===== *)
theory Extract
  imports Redact Paths Values
begin

text \<open>
  Context extraction for the policy engine, \<open>packages/policy-engine/src/extract.ts\<close>: the features of a
  call that a policy can test, computed from the arguments and the gateway's configuration. SHA-256, the
  clock and the working directory are parameters.
\<close>

section \<open>Contexts\<close>

datatype sql_kind = SqlNone | SqlSelect | SqlInsert | SqlUpdate | SqlDelete | SqlDdl | SqlUnknown

record base_context =
  bc_protocolVersion :: jstring
  bc_argsDigest :: jstring
  bc_hourUtc :: nat

record tool_call_context = base_context +
  tc_argCount :: nat
  tc_argBytes :: nat
  tc_pathsWithinWorkspace :: bool
  tc_hasAbsolutePath :: bool
  tc_hasParentTraversal :: bool
  tc_hasSensitivePath :: bool
  tc_fileExtensions :: "jstring list"
  tc_hasUrl :: bool
  tc_urlHosts :: "jstring list"
  tc_hasExternalUrl :: bool
  tc_sqlKind :: sql_kind
  tc_sqlIsDestructive :: bool
  tc_sqlIsMultiStatement :: bool
  tc_hasShellMetacharacters :: bool
  tc_containsCredential :: bool
  tc_hasInvisibleUnicode :: bool
  tc_serverTrust :: jstring
  tc_toolScanVerdict :: jstring

record resource_read_context = base_context +
  rc_scheme :: jstring
  rc_pathsWithinWorkspace :: bool
  rc_hasSensitivePath :: bool
  rc_hasExternalUrl :: bool
  rc_serverTrust :: jstring

record extract_config =
  xc_workspaceRoot :: jstring
  xc_allowedHosts :: "jstring list"
  xc_protocolVersion :: jstring
  xc_serverTrust :: jstring
  xc_toolScanVerdict :: jstring

section \<open>Characters\<close>

text \<open>Under the \<open>u\<close> flag the pattern reads code points.\<close>

definition invisible_code_point :: "nat \<Rightarrow> bool" where
  "invisible_code_point n = (n \<in> {0xAD, 0x34F, 0x61C, 0x115F, 0x1160, 0x17B4, 0x17B5, 0x3164, 0xFEFF, 0xFFA0}
     \<or> (0x180B \<le> n \<and> n \<le> 0x180F) \<or> (0x200B \<le> n \<and> n \<le> 0x200F) \<or> (0x202A \<le> n \<and> n \<le> 0x202E)
     \<or> (0x2060 \<le> n \<and> n \<le> 0x2064) \<or> (0x206A \<le> n \<and> n \<le> 0x206F) \<or> (0xFFF0 \<le> n \<and> n \<le> 0xFFF8)
     \<or> n = 0xE0000 \<or> n = 0xE0001 \<or> (0xE0020 \<le> n \<and> n \<le> 0xE007F))"

definition has_invisible_unicode :: "jstring \<Rightarrow> bool" where
  "has_invisible_unicode s = list_ex invisible_code_point (code_points s)"

definition shell_meta :: "code_unit \<Rightarrow> bool" where
  "shell_meta c = (c \<in> set (js '';&|$`<>{}'') \<or> c = 10 \<or> c = 13 \<or> c = 92)"

definition has_shell_metacharacters :: "jstring \<Rightarrow> bool" where
  "has_shell_metacharacters s = list_ex shell_meta s"

section \<open>URLs\<close>

definition host_char :: "code_unit \<Rightarrow> bool" where
  "host_char c = (\<not> js_space c \<and> c \<notin> set (js ''/?#''))"

definition url_pattern :: regex where
  "url_pattern = r_seq [RBoundary, r_alt [RSeq (r_ilit ''http'') (r_opt (r_ilit ''s'')), r_ilit ''ftp''],
     r_lit ''://'', r_plus (RSet host_char), r_opt (RStar (RSet (\<lambda>c. \<not> js_space c)))]"

text \<open>The second group of a match: what follows the first \<open>://\<close>, as far as a host goes.\<close>

definition url_host :: "jstring \<Rightarrow> jstring" where
  "url_host m = js_lower (case index_of (js ''://'') m of None \<Rightarrow> [] | Some i \<Rightarrow> takeWhile host_char (drop (i + 3) m))"

definition extract_urls :: "jstring list \<Rightarrow> jstring list" where
  "extract_urls ss = filter (\<lambda>h. h \<noteq> []) (concat (map (\<lambda>s. map url_host (regex_matches url_pattern s)) ss))"

definition host_allowed :: "jstring list \<Rightarrow> jstring \<Rightarrow> bool" where
  "host_allowed allowlist h = list_ex (\<lambda>a. h = js_lower a \<or> ends_with h (46 # js_lower a)) allowlist"

definition has_external :: "jstring list \<Rightarrow> jstring list \<Rightarrow> bool" where
  "has_external hosts allowlist = list_ex (\<lambda>h. \<not> host_allowed allowlist h) hosts"

section \<open>Paths\<close>

definition slash_char :: "code_unit \<Rightarrow> bool" where
  "slash_char c = (c = 47 \<or> c = 92)"

definition r_segment_start :: regex where "r_segment_start = RAlt RStart (RSet slash_char)"
definition r_segment_end :: regex where "r_segment_end = RAlt (RSet slash_char) REnd"

definition r_letter :: regex where "r_letter = RSet (\<lambda>c. is_upper c \<or> is_lower c)"

definition sensitive_path_patterns :: "regex list" where
  "sensitive_path_patterns =
    [r_seq [r_segment_start, r_ilit ''.ssh'', r_segment_end],
     r_seq [r_segment_start, r_ilit ''.aws'', r_segment_end],
     r_seq [r_segment_start, r_ilit ''.gnupg'', r_segment_end],
     r_seq [r_segment_start, r_ilit ''.pgpass'', REnd],
     r_seq [r_segment_start, r_ilit ''.netrc'', REnd],
     r_seq [r_segment_start, r_ilit ''.env'', r_opt (RSeq (r_lit ''.'') (r_plus r_letter)), REnd],
     r_seq [r_segment_start, r_ilit ''.npmrc'', REnd],
     r_seq [r_segment_start, r_ilit ''.pypirc'', REnd],
     r_seq [r_segment_start, r_ilit ''.docker'', r_segment_end],
     r_seq [r_segment_start, r_ilit ''id_'', r_ilits [''rsa'', ''ecdsa'', ''ed25519'', ''dsa''],
       r_opt (r_ilit ''.pub''), REnd],
     r_seq [r_ilit ''.pem'', REnd],
     r_seq [r_ilit ''.p12'', REnd],
     r_seq [r_ilit ''.pfx'', REnd],
     r_seq [r_segment_start, r_ilit ''keystore'', r_opt (r_ilit ''.jks''), REnd],
     r_seq [r_segment_start, r_ilit ''credentials'', REnd],
     r_seq [r_segment_start, r_ilit ''secrets'', r_segment_end],
     r_ilit ''/proc/self/'',
     r_seq [r_ilit ''/etc/shadow'', REnd],
     r_seq [r_ilit ''/etc/passwd'', REnd],
     r_ilit ''/etc/sudoers'']"

definition is_sensitive_path :: "jstring \<Rightarrow> bool" where
  "is_sensitive_path p = list_ex (\<lambda>re. regex_test re p) sensitive_path_patterns"

definition has_parent_traversal_segment :: "jstring \<Rightarrow> bool" where
  "has_parent_traversal_segment s = ([46, 46] \<in> set (split_on 47 (map (\<lambda>c. if slash_char c then 47 else c) s)))"

definition path_like :: "jstring \<Rightarrow> bool" where
  "path_like s = (list_ex slash_char s \<or> take 1 s = [46])"

text \<open>
  \<open>path.extname\<close>: of the last component, trailing slashes aside, what its last dot starts, unless that
  dot comes first or the component is \<open>..\<close>.
\<close>

definition last_component :: "jstring \<Rightarrow> jstring" where
  "last_component p = rev (takeWhile (\<lambda>c. c \<noteq> 47) (dropWhile (\<lambda>c. c = 47) (rev p)))"

definition extname :: "jstring \<Rightarrow> jstring" where
  "extname p = (let c = last_component p; ext = rev (takeWhile (\<lambda>x. x \<noteq> 46) (rev c)) in
     if 46 \<notin> set c \<or> length ext + 1 = length c \<or> c = [46, 46] then [] else 46 # ext)"

definition add_extension :: "jstring list \<Rightarrow> jstring \<Rightarrow> jstring list" where
  "add_extension exts s = (let ext = extname s in if ext \<noteq> [] \<and> ext \<notin> set exts then exts @ [ext] else exts)"

definition within_root :: "jstring \<Rightarrow> jstring \<Rightarrow> jstring list \<Rightarrow> bool" where
  "within_root cwd root args = (let resolved = path_resolve cwd args in
     resolved = path_resolve cwd [root] \<or> starts_with resolved (path_resolve cwd [root] @ [47]))"

definition all_within :: "jstring \<Rightarrow> jstring list \<Rightarrow> jstring \<Rightarrow> bool" where
  "all_within cwd pathLike root = list_all (\<lambda>p. within_root cwd root [root, p]) pathLike"

section \<open>SQL\<close>

definition first_word :: "jstring \<Rightarrow> jstring" where
  "first_word s = js_lower (takeWhile (\<lambda>c. \<not> js_space c) (js_trim s))"

definition ddl_keywords :: "jstring list" where
  "ddl_keywords = map js [''create'', ''drop'', ''alter'', ''truncate'', ''rename'']"

definition destructive_keywords :: "jstring list" where
  "destructive_keywords = map js [''drop'', ''delete'', ''truncate'', ''update'']"

definition sql_starts :: "jstring list" where
  "sql_starts = map js [''select'', ''insert'', ''update'', ''delete'', ''drop'', ''create'', ''alter'',
     ''truncate'', ''with'', ''call'', ''exec'', ''merge'']"

definition quoted_text :: "code_unit \<Rightarrow> regex" where
  "quoted_text q = (let r = RSet (\<lambda>c. c = q) in
     r_seq [r, RStar (RAlt (RSeq r r) (RSet (\<lambda>c. c \<noteq> q))), r])"

definition strip_sql_strings :: "jstring \<Rightarrow> jstring" where
  "strip_sql_strings s = regex_replace (quoted_text 34) (\<lambda>_. [34, 34]) (regex_replace (quoted_text 39) (\<lambda>_. [39, 39]) s)"

definition sql_kind_of :: "jstring \<Rightarrow> sql_kind" where
  "sql_kind_of first = (if first \<in> set ddl_keywords then SqlDdl
     else if first = js ''select'' \<or> first = js ''with'' then SqlSelect
     else if first = js ''insert'' then SqlInsert
     else if first = js ''update'' then SqlUpdate
     else if first = js ''delete'' then SqlDelete else SqlUnknown)"

definition is_multi_statement :: "jstring \<Rightarrow> bool" where
  "is_multi_statement s = regex_test
     (r_seq [r_lit '';'', RStar (RSet (\<lambda>c. c \<noteq> 59)), r_letter]) (strip_sql_strings s)"

definition extract_sql :: "jstring list \<Rightarrow> sql_kind \<times> bool \<times> bool" where
  "extract_sql strings = (case find (\<lambda>s. first_word s \<in> set sql_starts) strings of
      None \<Rightarrow> (SqlNone, False, False)
    | Some candidate \<Rightarrow>
        let first = first_word candidate; multi = is_multi_statement candidate in
        (sql_kind_of first,
         first \<in> set destructive_keywords \<or> first = js ''update'' \<or> first = js ''delete'' \<or> multi,
         multi))"

section \<open>Arguments\<close>

function collect_strings :: "nat \<Rightarrow> jvalue \<Rightarrow> jstring list" where
  "collect_strings depth v = (if depth > 12 then [] else case v of
      JString s \<Rightarrow> [s]
    | JArray xs \<Rightarrow> concat (map (collect_strings (Suc depth)) xs)
    | JObject kvs \<Rightarrow> concat (map (\<lambda>(_, x). collect_strings (Suc depth) x) kvs)
    | _ \<Rightarrow> [])"
  by pat_completeness auto
termination
  by (relation "measure (\<lambda>(depth, _). 13 - depth)") auto

declare collect_strings.simps [simp del]

definition to_object :: "jvalue \<Rightarrow> jvalue props" where
  "to_object args = (case args of JObject kvs \<Rightarrow> kvs | _ \<Rightarrow> [])"

definition or_empty :: "jvalue \<Rightarrow> jvalue" where
  "or_empty args = (if nullish args then JObject [] else args)"

text \<open>The default options carry no correlation key, so no HMAC is taken.\<close>

definition detect_credential :: "jvalue \<Rightarrow> exn + bool" where
  "detect_credential args = (if nullish args then Inr False
     else bind_r (redact (\<lambda>_ _. []) default_redact_options args) (\<lambda>r. Inr (rd_redacted r)))"

definition hour_utc :: "nat \<Rightarrow> nat" where
  "hour_utc now_ms = now_ms div 3600000 mod 24"

definition extract_tool_call_context ::
    "hash_fun \<Rightarrow> nat \<Rightarrow> jstring \<Rightarrow> jvalue \<Rightarrow> extract_config \<Rightarrow> exn + tool_call_context" where
  "extract_tool_call_context sha now_ms cwd args config =
     (let argsObj = to_object args;
          strings = collect_strings 0 (JObject argsObj);
          pathLike = filter path_like strings;
          hosts = extract_urls strings
      in bind_r (stringify (or_empty args)) (\<lambda>text. case text of None \<Rightarrow> Inl TypeError | Some t \<Rightarrow>
         bind_r (digest_of sha (or_empty args)) (\<lambda>argsDigest.
         bind_r (detect_credential args) (\<lambda>credential.
         case extract_sql strings of (kind, destructive, multi) \<Rightarrow>
         Inr \<lparr>bc_protocolVersion = xc_protocolVersion config, bc_argsDigest = argsDigest,
              bc_hourUtc = hour_utc now_ms,
              tc_argCount = length argsObj, tc_argBytes = byte_length t,
              tc_pathsWithinWorkspace = all_within cwd pathLike (xc_workspaceRoot config),
              tc_hasAbsolutePath = list_ex is_absolute pathLike,
              tc_hasParentTraversal = list_ex has_parent_traversal_segment pathLike,
              tc_hasSensitivePath = list_ex is_sensitive_path strings,
              tc_fileExtensions = foldl add_extension [] pathLike,
              tc_hasUrl = (hosts \<noteq> []), tc_urlHosts = hosts,
              tc_hasExternalUrl = has_external hosts (xc_allowedHosts config),
              tc_sqlKind = kind, tc_sqlIsDestructive = destructive, tc_sqlIsMultiStatement = multi,
              tc_hasShellMetacharacters = list_ex has_shell_metacharacters strings,
              tc_containsCredential = credential,
              tc_hasInvisibleUnicode = list_ex has_invisible_unicode strings,
              tc_serverTrust = xc_serverTrust config, tc_toolScanVerdict = xc_toolScanVerdict config\<rparr>))))"

section \<open>Resources and endpoints\<close>

definition extract_scheme :: "jstring \<Rightarrow> jstring" where
  "extract_scheme uri = (case index_of (js '':'') uri of
      None \<Rightarrow> js ''unknown''
    | Some colon \<Rightarrow> if colon = 0 then js ''unknown'' else js_lower (take colon uri))"

definition is_uri_within_workspace :: "jstring \<Rightarrow> jstring \<Rightarrow> jstring \<Rightarrow> bool" where
  "is_uri_within_workspace cwd uri workspaceRoot =
     (if starts_with uri (js ''file:///'') then within_root cwd workspaceRoot [drop 7 uri]
      else if starts_with uri (js ''file://'') then within_root cwd workspaceRoot [drop 6 uri]
      else False)"

definition is_external_uri :: "jstring \<Rightarrow> jstring list \<Rightarrow> bool" where
  "is_external_uri uri allowedHosts =
     (if extract_scheme uri = js ''file'' then False
      else case regex_first url_pattern uri of
          None \<Rightarrow> False
        | Some m \<Rightarrow> \<not> host_allowed allowedHosts (url_host m))"

definition extract_resource_read_context ::
    "hash_fun \<Rightarrow> nat \<Rightarrow> jstring \<Rightarrow> jstring \<Rightarrow> extract_config \<Rightarrow> exn + resource_read_context" where
  "extract_resource_read_context sha now_ms cwd rawUri config =
     bind_r (digest_of sha (JObject [(js ''uri'', JString rawUri)])) (\<lambda>argsDigest.
       Inr \<lparr>bc_protocolVersion = xc_protocolVersion config, bc_argsDigest = argsDigest,
            bc_hourUtc = hour_utc now_ms, rc_scheme = extract_scheme rawUri,
            rc_pathsWithinWorkspace = is_uri_within_workspace cwd rawUri (xc_workspaceRoot config),
            rc_hasSensitivePath = is_sensitive_path rawUri,
            rc_hasExternalUrl = is_external_uri rawUri (xc_allowedHosts config),
            rc_serverTrust = xc_serverTrust config\<rparr>)"

definition extract_base_context :: "hash_fun \<Rightarrow> nat \<Rightarrow> jstring \<Rightarrow> jvalue \<Rightarrow> exn + base_context" where
  "extract_base_context sha now_ms protocolVersion payload =
     bind_r (digest_of sha payload) (\<lambda>argsDigest.
       Inr \<lparr>bc_protocolVersion = protocolVersion, bc_argsDigest = argsDigest, bc_hourUtc = hour_utc now_ms\<rparr>)"

section \<open>Containment in the workspace\<close>

lemma split_on_join_append:
  "segs \<noteq> [] \<Longrightarrow> \<forall>s \<in> set segs. c \<notin> set s \<Longrightarrow> split_on c (join_with [c] segs @ c # r) = segs @ split_on c r"
proof (induction segs rule: induct_list012)
  case (3 p q ps)
  then show ?case using split_on_append [of c p "join_with [c] (q # ps) @ c # r"] by simp
qed (simp_all add: split_on_append)

lemma join_with_append: "a \<noteq> [] \<Longrightarrow> b \<noteq> [] \<Longrightarrow> join_with [c] (a @ b) = join_with [c] a @ c # join_with [c] b"
proof (induction a rule: induct_list012)
  case (2 p)
  then show ?case by (cases b) simp_all
qed simp_all

lemma resolved_no_slash: "s \<in> set (resolved_segments cwd args) \<Longrightarrow> 47 \<notin> set s"
  using norm_segments_plain unfolding resolved_segments_def list_all_iff plain_segment_def by blast

text \<open>The string prefix test is containment of segments, except for the root directory itself.\<close>

lemma within_root_iff:
  assumes "resolved_segments cwd [root] \<noteq> []"
  shows "within_root cwd root args \<longleftrightarrow> prefix (resolved_segments cwd [root]) (resolved_segments cwd args)"
proof -
  obtain r t where r: "r = resolved_segments cwd [root]" and t: "t = resolved_segments cwd args" by blast
  have slash: "\<forall>s \<in> set r. 47 \<notin> set s" "\<forall>s \<in> set t. 47 \<notin> set s" unfolding r t by (simp_all add: resolved_no_slash)
  have "starts_with (path_resolve cwd args) (path_resolve cwd [root] @ [47]) \<longleftrightarrow> (\<exists>u. u \<noteq> [] \<and> t = r @ u)"
  proof
    assume "starts_with (path_resolve cwd args) (path_resolve cwd [root] @ [47])"
    then obtain rest where eq: "join_with [47] t = join_with [47] r @ 47 # rest"
      unfolding starts_with_iff path_resolve_def r t by auto
    then have "t \<noteq> []" by auto
    then have "t = split_on 47 (join_with [47] r @ 47 # rest)" using split_of_join [OF _ slash(2)] eq by simp
    then show "\<exists>u. u \<noteq> [] \<and> t = r @ u" using split_on_join_append [OF _ slash(1)] assms r by auto
  next
    assume "\<exists>u. u \<noteq> [] \<and> t = r @ u"
    then obtain u where "u \<noteq> []" "t = r @ u" by blast
    then show "starts_with (path_resolve cwd args) (path_resolve cwd [root] @ [47])"
      using assms join_with_append [of r u 47] unfolding path_resolve_def starts_with_iff r [symmetric] t [symmetric]
      by auto
  qed
  then show ?thesis unfolding within_root_def Let_def path_resolve_inject r [symmetric] t [symmetric] prefix_def
    by auto
qed

text \<open>Of the root directory the prefix test lets nothing but the directory itself pass.\<close>

lemma within_slash_iff:
  assumes "resolved_segments cwd [root] = []"
  shows "within_root cwd root args \<longleftrightarrow> resolved_segments cwd args = []"
proof -
  have "\<not> starts_with (join_with [47] (resolved_segments cwd args)) [47]"
  proof (cases "resolved_segments cwd args")
    case (Cons p ps)
    then have "plain_segment p"
      using norm_segments_plain unfolding resolved_segments_def list_all_iff by (metis list.set_intros(1))
    with Cons show ?thesis by (cases ps; cases p) (auto simp: plain_segment_def starts_with_iff)
  qed (simp add: starts_with_iff)
  then show ?thesis
    unfolding within_root_def Let_def path_resolve_inject assms by (auto simp: path_resolve_def assms starts_with_iff)
qed

section \<open>What the flags see\<close>

text \<open>A string leaf of a value, with the number of containers around it.\<close>

inductive leaf_at :: "nat \<Rightarrow> jvalue \<Rightarrow> jstring \<Rightarrow> bool" where
  leaf: "leaf_at 0 (JString s) s"
| element: "x \<in> set xs \<Longrightarrow> leaf_at d x s \<Longrightarrow> leaf_at (Suc d) (JArray xs) s"
| entry: "(k, x) \<in> set kvs \<Longrightarrow> leaf_at d x s \<Longrightarrow> leaf_at (Suc d) (JObject kvs) s"

inductive_simps leaf_at_simps:
  "leaf_at d (JString t) s" "leaf_at d (JArray xs) s" "leaf_at d (JObject kvs) s" "leaf_at d JNull s"
  "leaf_at d JUndefined s" "leaf_at d (JBool b) s" "leaf_at d (JNumber x) s" "leaf_at d (JBigInt i) s"
  "leaf_at d JFunction s" "leaf_at d JSymbol s"

lemma leaf_step:
  "\<not> leaf_at 0 v s \<Longrightarrow> (\<exists>d. leaf_at d v s \<and> n + d \<le> 12) \<longleftrightarrow> (\<exists>d. leaf_at (Suc d) v s \<and> Suc n + d \<le> 12)"
  by (metis add_Suc_shift not0_implies_Suc)

lemma collect_strings_iff: "s \<in> set (collect_strings n v) \<longleftrightarrow> (\<exists>d. leaf_at d v s \<and> n + d \<le> 12)"
proof (induction n v rule: collect_strings.induct)
  case (1 n v)
  show ?case
  proof (cases "n > 12")
    case True
    then show ?thesis by (subst collect_strings.simps) simp
  next
    case False
    show ?thesis
    proof (cases v)
      case (JArray xs)
      have "s \<in> set (collect_strings n v) \<longleftrightarrow> (\<exists>x \<in> set xs. s \<in> set (collect_strings (Suc n) x))"
        using False JArray by (subst collect_strings.simps) simp
      also have "\<dots> \<longleftrightarrow> (\<exists>x \<in> set xs. \<exists>d. leaf_at d x s \<and> Suc n + d \<le> 12)"
        using 1(1) [OF False JArray] by simp
      also have "\<dots> \<longleftrightarrow> (\<exists>d. leaf_at d v s \<and> n + d \<le> 12)"
        using leaf_step [of v s n] by (auto simp: JArray leaf_at_simps)
      finally show ?thesis .
    next
      case (JObject kvs)
      have "s \<in> set (collect_strings n v) \<longleftrightarrow> (\<exists>(k, x) \<in> set kvs. s \<in> set (collect_strings (Suc n) x))"
        using False JObject by (subst collect_strings.simps) auto
      also have "\<dots> \<longleftrightarrow> (\<exists>(k, x) \<in> set kvs. \<exists>d. leaf_at d x s \<and> Suc n + d \<le> 12)"
        using 1(2) [OF False JObject] by fastforce
      also have "\<dots> \<longleftrightarrow> (\<exists>d. leaf_at d v s \<and> n + d \<le> 12)"
        using leaf_step [of v s n] by (fastforce simp: JObject leaf_at_simps)
      finally show ?thesis .
    qed (use False in \<open>auto simp: leaf_at_simps collect_strings.simps [of n]\<close>)
  qed
qed

text \<open>The strings the extraction reads of a call's arguments.\<close>

definition seen_in :: "jvalue \<Rightarrow> jstring \<Rightarrow> bool" where
  "seen_in args s = (\<exists>d \<le> 12. leaf_at d (JObject (to_object args)) s)"

lemma collect_seen: "set (collect_strings 0 (JObject (to_object args))) = {s. seen_in args s}"
  by (auto simp: collect_strings_iff seen_in_def)

text \<open>Where a value holds a credential: a string that a pattern matches, or a sensitive key with a value.\<close>

definition credential_text :: "redact_options \<Rightarrow> jstring \<Rightarrow> bool" where
  "credential_text opts s = list_ex (\<lambda>(_, pat). regex_test pat (truncate_text opts s)) value_patterns"

inductive secret_at :: "redact_options \<Rightarrow> nat \<Rightarrow> jvalue \<Rightarrow> bool" for opts where
  secret_text: "credential_text opts s \<Longrightarrow> secret_at opts 0 (JString s)"
| secret_key: "(k, x) \<in> set kvs \<Longrightarrow> is_sensitive_key k \<Longrightarrow> \<not> nullish x \<Longrightarrow> secret_at opts 0 (JObject kvs)"
| secret_element: "x \<in> set xs \<Longrightarrow> secret_at opts d x \<Longrightarrow> secret_at opts (Suc d) (JArray xs)"
| secret_entry: "(k, x) \<in> set kvs \<Longrightarrow> secret_at opts d x \<Longrightarrow> secret_at opts (Suc d) (JObject kvs)"

inductive_simps secret_at_simps:
  "secret_at opts d (JString t)" "secret_at opts 0 (JArray xs)" "secret_at opts (Suc d) (JArray xs)"
  "secret_at opts 0 (JObject kvs)" "secret_at opts (Suc d) (JObject kvs)" "secret_at opts d JNull"
  "secret_at opts d JUndefined" "secret_at opts d (JBool b)" "secret_at opts d (JNumber x)"
  "secret_at opts d (JBigInt i)" "secret_at opts d JFunction" "secret_at opts d JSymbol"

lemma pattern_findings: "snd (apply_patterns hmac opts path ps s) \<noteq> [] \<longleftrightarrow> list_ex (\<lambda>(_, pat). regex_test pat s) ps"
  by (induction hmac opts path ps s rule: apply_patterns.induct) (auto simp: matches_empty_iff split: prod.splits)

lemma within_bound: "(\<exists>d. P d \<and> n + d \<le> m) \<longleftrightarrow> n \<le> m \<and> P 0 \<or> (\<exists>d. P (Suc d) \<and> Suc n + d \<le> (m :: nat))"
  by (metis add_0_right add_Suc add_Suc_right not0_implies_Suc)

lemma concat_nonempty:
  assumes "length ys = length xs" "\<And>i. i < length xs \<Longrightarrow> f (ys ! i) \<noteq> [] \<longleftrightarrow> P (xs ! i)"
  shows "concat (map f ys) \<noteq> [] \<longleftrightarrow> (\<exists>x \<in> set xs. P x)"
proof -
  have "list_all2 (\<lambda>x y. f y \<noteq> [] \<longleftrightarrow> P x) xs ys" using assms by (simp add: list_all2_conv_all_nth)
  then show ?thesis by (induction rule: list_all2_induct) auto
qed

lemma redact_walk_findings:
  "redact_walk hmac opts path depth v = Inr (r, fs) \<Longrightarrow>
    fs \<noteq> [] \<longleftrightarrow> (\<exists>d. secret_at opts d v \<and> depth + d \<le> ro_maxDepth opts)"
proof (induction hmac opts path depth v arbitrary: r fs rule: redact_walk.induct)
  case (1 hmac opts path depth v)
  show ?case
  proof (cases "ro_maxDepth opts < depth")
    case True
    with 1(3) show ?thesis by (auto simp: redact_walk.simps [of _ _ _ depth])
  next
    case False
    show ?thesis
    proof (cases v)
      case (JString s)
      with 1(3) False pattern_findings [of hmac opts path value_patterns "truncate_text opts s"] show ?thesis
        by (auto simp: redact_walk.simps [of _ _ _ depth] redact_string_def credential_text_def secret_at_simps
            split: prod.splits)
    next
      case (JArray xs)
      with 1(3) False obtain ys where ys: "list_all2 (\<lambda>p y. redact_walk hmac opts (path @ 91 # dec (fst p) @ [93]) (Suc depth)
          (snd p) = Inr y) (enumerate 0 xs) ys" and fs: "fs = concat (map snd ys)"
        by (auto simp: redact_walk.simps [of _ _ _ depth] result_iffs map_r_Inr_iff case_prod_unfold)
      have len: "length ys = length xs" using list_all2_lengthD [OF ys] by simp
      have "snd (ys ! i) \<noteq> [] \<longleftrightarrow> (\<exists>d. secret_at opts d (xs ! i) \<and> Suc depth + d \<le> ro_maxDepth opts)" if i: "i < length xs" for i
      proof -
        from list_all2_nthD [OF ys, of i] i
        have "redact_walk hmac opts (path @ 91 # dec i @ [93]) (Suc depth) (xs ! i) = Inr (fst (ys ! i), snd (ys ! i))"
          by (simp add: nth_enumerate_eq)
        moreover have "(i, xs ! i) \<in> set (enumerate 0 xs)" using i by (simp add: in_set_enumerate_eq)
        ultimately show ?thesis
          using 1(1) [OF False JArray, of "(i, xs ! i)" i "xs ! i" "fst (ys ! i)" "snd (ys ! i)"] by simp
      qed
      then have "fs \<noteq> [] \<longleftrightarrow> (\<exists>x \<in> set xs. \<exists>d. secret_at opts d x \<and> Suc depth + d \<le> ro_maxDepth opts)"
        unfolding fs by (intro concat_nonempty len)
      moreover have "\<not> secret_at opts 0 v" by (simp add: JArray secret_at_simps)
      then have "(\<exists>d. secret_at opts d v \<and> depth + d \<le> ro_maxDepth opts)
          \<longleftrightarrow> (\<exists>d. secret_at opts (Suc d) v \<and> Suc depth + d \<le> ro_maxDepth opts)"
        using within_bound [of "\<lambda>d. secret_at opts d v" depth "ro_maxDepth opts"] by blast
      moreover have "(\<exists>d. secret_at opts (Suc d) v \<and> Suc depth + d \<le> ro_maxDepth opts)
          \<longleftrightarrow> (\<exists>x \<in> set xs. \<exists>d. secret_at opts d x \<and> Suc depth + d \<le> ro_maxDepth opts)"
        unfolding JArray secret_at_simps by blast
      ultimately show ?thesis by simp
    next
      case (JObject kvs)
      with 1(3) False obtain ys where ys: "list_all2 (\<lambda>p y. redact_entry hmac opts path (fst p) (snd p)
          (redact_walk hmac opts (child_path path (fst p)) (Suc depth) (snd p)) = Inr y) kvs ys"
        and fs: "fs = concat (map snd ys)"
        by (auto simp: redact_walk.simps [of _ _ _ depth] result_iffs map_r_Inr_iff case_prod_unfold)
      have len: "length ys = length kvs" using list_all2_lengthD [OF ys] by simp
      let ?hit = "\<lambda>p. is_sensitive_key (fst p) \<and> \<not> nullish (snd p)
        \<or> (\<exists>d. secret_at opts d (snd p) \<and> Suc depth + d \<le> ro_maxDepth opts)"
      have "snd (ys ! i) \<noteq> [] \<longleftrightarrow> ?hit (kvs ! i)" if i: "i < length kvs" for i
      proof -
        obtain k x where p: "kvs ! i = (k, x)" by fastforce
        then have mem: "(k, x) \<in> set kvs" using i by (metis nth_mem)
        have e: "redact_entry hmac opts path k x (redact_walk hmac opts (child_path path k) (Suc depth) x) = Inr (ys ! i)"
          using list_all2_nthD [OF ys i] p by simp
        show ?thesis
        proof (cases "is_sensitive_key k \<and> \<not> nullish x")
          case True
          with e p show ?thesis by (cases "ys ! i") (auto simp: redact_entry_def result_iffs)
        next
          case hidden: False
          with e have "redact_walk hmac opts (child_path path k) (Suc depth) x = Inr (fst (ys ! i), snd (ys ! i))"
            by (auto simp: redact_entry_def)
          from 1(2) [OF False JObject mem refl this] hidden p show ?thesis by auto
        qed
      qed
      then have "fs \<noteq> [] \<longleftrightarrow> (\<exists>p \<in> set kvs. ?hit p)"
        unfolding fs by (intro concat_nonempty len)
      moreover have "(\<exists>d. secret_at opts d v \<and> depth + d \<le> ro_maxDepth opts) \<longleftrightarrow> secret_at opts 0 v
          \<or> (\<exists>d. secret_at opts (Suc d) v \<and> Suc depth + d \<le> ro_maxDepth opts)"
        using within_bound [of "\<lambda>d. secret_at opts d v" depth "ro_maxDepth opts"] False by (meson not_less)
      moreover have "secret_at opts 0 v \<or> (\<exists>d. secret_at opts (Suc d) v \<and> Suc depth + d \<le> ro_maxDepth opts)
          \<longleftrightarrow> (\<exists>p \<in> set kvs. ?hit p)"
        unfolding JObject secret_at_simps by (simp only: Bex_def split_paired_Ex fst_conv snd_conv) blast
      ultimately show ?thesis by simp
    qed (use 1(3) False in \<open>auto simp: redact_walk.simps [of _ _ _ depth] secret_at_simps\<close>)
  qed
qed

lemma detect_credential_iff:
  "detect_credential args = Inr b \<Longrightarrow> b \<longleftrightarrow> (\<exists>d \<le> 12. secret_at default_redact_options d args)"
  using redact_walk_findings [of "\<lambda>_ _. []" default_redact_options "[]" 0 args]
  by (cases "nullish args")
     (auto simp: detect_credential_def redact_def result_iffs nullish_def secret_at_simps default_redact_options_def)

text \<open>The hosts of the links in what is read, and the string taken for SQL.\<close>

lemma extract_urls_set: "set (extract_urls ss) = {h. h \<noteq> [] \<and> (\<exists>s \<in> set ss. \<exists>m \<in> set (regex_matches url_pattern s). h = url_host m)}"
  by (auto simp: extract_urls_def)

definition sql_candidate :: "jvalue \<Rightarrow> jstring option" where
  "sql_candidate args = find (\<lambda>s. first_word s \<in> set sql_starts) (collect_strings 0 (JObject (to_object args)))"

lemma sql_candidate_seen:
  "sql_candidate args = Some q \<Longrightarrow> seen_in args q \<and> first_word q \<in> set sql_starts"
  "sql_candidate args = None \<longleftrightarrow> (\<forall>s. seen_in args s \<longrightarrow> first_word s \<notin> set sql_starts)"
  unfolding sql_candidate_def collect_seen [symmetric, THEN eqset_imp_iff, simplified]
  by (auto simp: find_Some_iff find_None_iff)

lemma extract_returns:
  "extract_tool_call_context sha now_ms cwd args config = Inr c \<Longrightarrow>
     let strings = collect_strings 0 (JObject (to_object args)) in
     tc_pathsWithinWorkspace c = all_within cwd (filter path_like strings) (xc_workspaceRoot config)
   \<and> tc_hasAbsolutePath c = list_ex is_absolute (filter path_like strings)
   \<and> tc_hasParentTraversal c = list_ex has_parent_traversal_segment (filter path_like strings)
   \<and> tc_hasSensitivePath c = list_ex is_sensitive_path strings
   \<and> tc_urlHosts c = extract_urls strings \<and> tc_hasUrl c = (extract_urls strings \<noteq> [])
   \<and> tc_hasExternalUrl c = has_external (extract_urls strings) (xc_allowedHosts config)
   \<and> (tc_sqlKind c, tc_sqlIsDestructive c, tc_sqlIsMultiStatement c) = extract_sql strings
   \<and> detect_credential args = Inr (tc_containsCredential c)
   \<and> tc_hasShellMetacharacters c = list_ex has_shell_metacharacters strings
   \<and> tc_hasInvisibleUnicode c = list_ex has_invisible_unicode strings"
  unfolding extract_tool_call_context_def Let_def
  by (cases "extract_sql (collect_strings 0 (JObject (to_object args)))") (auto simp: result_iffs)

text \<open>The same, flag by flag, over the strings that are read.\<close>

lemma in_collected: "s \<in> set (collect_strings 0 (JObject (to_object args))) \<longleftrightarrow> seen_in args s"
  by (simp add: collect_seen)

lemma text_flags:
  assumes "extract_tool_call_context sha now_ms cwd args config = Inr c"
  shows "tc_hasShellMetacharacters c \<longleftrightarrow> (\<exists>s. seen_in args s \<and> has_shell_metacharacters s)"
    and "tc_hasInvisibleUnicode c \<longleftrightarrow> (\<exists>s. seen_in args s \<and> has_invisible_unicode s)"
    and "tc_hasSensitivePath c \<longleftrightarrow> (\<exists>s. seen_in args s \<and> is_sensitive_path s)"
    and "tc_hasParentTraversal c \<longleftrightarrow> (\<exists>s. seen_in args s \<and> path_like s \<and> has_parent_traversal_segment s)"
    and "tc_hasAbsolutePath c \<longleftrightarrow> (\<exists>s. seen_in args s \<and> path_like s \<and> is_absolute s)"
    and "tc_pathsWithinWorkspace c \<longleftrightarrow> (\<forall>s. seen_in args s \<and> path_like s \<longrightarrow>
         within_root cwd (xc_workspaceRoot config) [xc_workspaceRoot config, s])"
  using extract_returns [OF assms]
  by (simp_all add: Let_def list_ex_iff list_all_iff all_within_def Bex_def Ball_def in_collected conj_assoc)

lemma link_flags:
  assumes "extract_tool_call_context sha now_ms cwd args config = Inr c"
  shows "set (tc_urlHosts c)
      = {h. h \<noteq> [] \<and> (\<exists>s m. seen_in args s \<and> m \<in> set (regex_matches url_pattern s) \<and> h = url_host m)}"
    and "tc_hasUrl c \<longleftrightarrow> tc_urlHosts c \<noteq> []"
    and "tc_hasExternalUrl c \<longleftrightarrow> (\<exists>h \<in> set (tc_urlHosts c). \<forall>a \<in> set (xc_allowedHosts config).
         h \<noteq> js_lower a \<and> \<not> ends_with h (46 # js_lower a))"
proof -
  from extract_returns [OF assms] have hosts: "tc_urlHosts c = extract_urls (collect_strings 0 (JObject (to_object args)))"
    and rest: "tc_hasUrl c \<longleftrightarrow> tc_urlHosts c \<noteq> []" "tc_hasExternalUrl c = has_external (tc_urlHosts c) (xc_allowedHosts config)"
    by (simp_all add: Let_def)
  show "set (tc_urlHosts c)
      = {h. h \<noteq> [] \<and> (\<exists>s m. seen_in args s \<and> m \<in> set (regex_matches url_pattern s) \<and> h = url_host m)}"
    unfolding hosts extract_urls_set Bex_def in_collected by blast
  show "tc_hasUrl c \<longleftrightarrow> tc_urlHosts c \<noteq> []" by (rule rest(1))
  show "tc_hasExternalUrl c \<longleftrightarrow> (\<exists>h \<in> set (tc_urlHosts c). \<forall>a \<in> set (xc_allowedHosts config).
         h \<noteq> js_lower a \<and> \<not> ends_with h (46 # js_lower a))"
    unfolding rest(2) has_external_def host_allowed_def list_ex_iff by blast
qed

lemma sql_flags:
  assumes "extract_tool_call_context sha now_ms cwd args config = Inr c"
  shows "case sql_candidate args of
        None \<Rightarrow> (\<forall>s. seen_in args s \<longrightarrow> first_word s \<notin> set sql_starts)
          \<and> tc_sqlKind c = SqlNone \<and> \<not> tc_sqlIsDestructive c \<and> \<not> tc_sqlIsMultiStatement c
      | Some q \<Rightarrow> seen_in args q \<and> first_word q \<in> set sql_starts \<and> tc_sqlKind c = sql_kind_of (first_word q)
          \<and> (tc_sqlIsDestructive c \<longleftrightarrow>
               first_word q \<in> set (map js [''drop'', ''delete'', ''truncate'', ''update'']) \<or> is_multi_statement q)
          \<and> (tc_sqlIsMultiStatement c \<longleftrightarrow> is_multi_statement q)"
proof -
  from extract_returns [OF assms] have sql: "(tc_sqlKind c, tc_sqlIsDestructive c, tc_sqlIsMultiStatement c)
      = (case sql_candidate args of None \<Rightarrow> (SqlNone, False, False) | Some q \<Rightarrow>
          (sql_kind_of (first_word q), first_word q \<in> set destructive_keywords \<or> is_multi_statement q, is_multi_statement q))"
    by (auto simp: Let_def extract_sql_def sql_candidate_def destructive_keywords_def split: option.splits)
  show ?thesis
  proof (cases "sql_candidate args")
    case None
    with sql sql_candidate_seen(2) [THEN iffD1, OF None] show ?thesis by simp
  next
    case (Some q)
    with sql sql_candidate_seen(1) [OF Some] show ?thesis by (simp add: destructive_keywords_def)
  qed
qed

text \<open>A call with one argument, \<open>../x\<close>, and a gateway that works in \<open>/ws\<close>.\<close>

definition sample_extract_config :: extract_config where
  "sample_extract_config = \<lparr>xc_workspaceRoot = js ''/ws'', xc_allowedHosts = [], xc_protocolVersion = js ''2026-07-28'',
     xc_serverTrust = js ''trusted'', xc_toolScanVerdict = js ''clean''\<rparr>"

definition sample_args :: jvalue where
  "sample_args = JObject [(js ''p'', JString (js ''../x''))]"

lemma sample_redacts: "\<exists>b. detect_credential sample_args = Inr b"
proof -
  have "is_sensitive_key (js ''p'') = False" by code_simp
  then show ?thesis
    by (simp add: detect_credential_def sample_args_def nullish_def redact_def default_redact_options_def
        redact_walk.simps [of _ _ _ _ "JObject _"] redact_walk.simps [of _ _ _ _ "JString _"] redact_entry_def
        split: prod.splits)
qed

lemma sample_extracts:
  "\<exists>c. extract_tool_call_context (\<lambda>_. []) 0 (js ''/'') sample_args sample_extract_config = Inr c"
proof -
  have "canonical_ok (or_empty sample_args)" and "\<exists>t. stringify (or_empty sample_args) = Inr (Some t)"
    by (simp_all add: sample_args_def or_empty_def nullish_def omitted_def)
  with sample_redacts show ?thesis
    by (auto simp: extract_tool_call_context_def Let_def digest_of_def canonicalize_Inr split: prod.splits)
qed

lemma sample_seen: "seen_in sample_args (js ''../x'')"
  unfolding seen_in_def sample_args_def to_object_def by (intro exI [of _ 1]) (simp add: leaf_at_simps)

text \<open>
  C34: The flags of a tool call are exact. For the strings at most twelve containers deep in its arguments, each
  of the flags on paths, links, shell characters and invisible characters is set just when one of those
  strings shows the feature, or, for containment in the workspace, when every path-like one resolves inside;
  a link is external when its host is neither an allowed host nor a subdomain of one; the three SQL
  flags are those of the first string that starts with an SQL keyword; and the credential flag is set just
  when, at most twelve containers deep, a string matches a pattern for secrets or a sensitive key has a
  value. A deeper string sets none of them.
\<close>

theorem context_flags_exact:
  assumes "extract_tool_call_context sha now_ms cwd args config = Inr c"
  shows "(tc_hasShellMetacharacters c \<longleftrightarrow> (\<exists>s. seen_in args s \<and> has_shell_metacharacters s))
    \<and> (tc_hasInvisibleUnicode c \<longleftrightarrow> (\<exists>s. seen_in args s \<and> has_invisible_unicode s))
    \<and> (tc_hasSensitivePath c \<longleftrightarrow> (\<exists>s. seen_in args s \<and> is_sensitive_path s))
    \<and> (tc_hasParentTraversal c \<longleftrightarrow> (\<exists>s. seen_in args s \<and> path_like s \<and> has_parent_traversal_segment s))
    \<and> (tc_hasAbsolutePath c \<longleftrightarrow> (\<exists>s. seen_in args s \<and> path_like s \<and> is_absolute s))
    \<and> (tc_pathsWithinWorkspace c \<longleftrightarrow> (\<forall>s. seen_in args s \<and> path_like s \<longrightarrow>
         within_root cwd (xc_workspaceRoot config) [xc_workspaceRoot config, s]))
    \<and> set (tc_urlHosts c) = {h. h \<noteq> [] \<and> (\<exists>s m. seen_in args s \<and> m \<in> set (regex_matches url_pattern s) \<and> h = url_host m)}
    \<and> (tc_hasUrl c \<longleftrightarrow> tc_urlHosts c \<noteq> [])
    \<and> (tc_hasExternalUrl c \<longleftrightarrow> (\<exists>h \<in> set (tc_urlHosts c). \<forall>a \<in> set (xc_allowedHosts config).
         h \<noteq> js_lower a \<and> \<not> ends_with h (46 # js_lower a)))
    \<and> (case sql_candidate args of
        None \<Rightarrow> (\<forall>s. seen_in args s \<longrightarrow> first_word s \<notin> set sql_starts)
          \<and> tc_sqlKind c = SqlNone \<and> \<not> tc_sqlIsDestructive c \<and> \<not> tc_sqlIsMultiStatement c
      | Some q \<Rightarrow> seen_in args q \<and> first_word q \<in> set sql_starts \<and> tc_sqlKind c = sql_kind_of (first_word q)
          \<and> (tc_sqlIsDestructive c \<longleftrightarrow>
               first_word q \<in> set (map js [''drop'', ''delete'', ''truncate'', ''update'']) \<or> is_multi_statement q)
          \<and> (tc_sqlIsMultiStatement c \<longleftrightarrow> is_multi_statement q))
    \<and> (tc_containsCredential c \<longleftrightarrow> (\<exists>d \<le> 12. secret_at default_redact_options d args))"
proof -
  have "detect_credential args = Inr (tc_containsCredential c)"
    using extract_returns [OF assms] by (simp add: Let_def)
  from detect_credential_iff [OF this] show ?thesis
    by (intro conjI text_flags [OF assms] link_flags [OF assms] sql_flags [OF assms])
qed

theorem context_flags_exact_witness:
  "\<exists>c. extract_tool_call_context (\<lambda>_. []) 0 (js ''/'') sample_args sample_extract_config = Inr c
     \<and> tc_hasParentTraversal c"
proof -
  obtain c where c: "extract_tool_call_context (\<lambda>_. []) 0 (js ''/'') sample_args sample_extract_config = Inr c"
    using sample_extracts by blast
  have "path_like (js ''../x'')" "has_parent_traversal_segment (js ''../x'')" by code_simp+
  with context_flags_exact [OF c, THEN conjunct2, THEN conjunct2, THEN conjunct2, THEN conjunct1] sample_seen c
  show ?thesis by blast
qed

text \<open>
  C35: A call counts as within the workspace just when every path-like string at most twelve containers deep
  in its arguments resolves, against the workspace root, to the root or a path whose segments extend the
  root's: no sibling directory whose name extends the root's passes, and no \<open>..\<close> escapes. When the
  root is the root directory itself, only that directory counts as inside. A string that lies deeper is not read.
\<close>

theorem workspace_containment:
  assumes "extract_tool_call_context sha now_ms cwd args config = Inr c"
  shows "tc_pathsWithinWorkspace c \<longleftrightarrow> (\<forall>s d. leaf_at d (JObject (to_object args)) s \<and> d \<le> 12 \<and> path_like s \<longrightarrow>
    (if resolved_segments cwd [xc_workspaceRoot config] = []
     then resolved_segments cwd [xc_workspaceRoot config, s] = []
     else prefix (resolved_segments cwd [xc_workspaceRoot config]) (resolved_segments cwd [xc_workspaceRoot config, s])))"
proof -
  have "within_root cwd (xc_workspaceRoot config) [xc_workspaceRoot config, s]
      \<longleftrightarrow> (if resolved_segments cwd [xc_workspaceRoot config] = []
     then resolved_segments cwd [xc_workspaceRoot config, s] = []
     else prefix (resolved_segments cwd [xc_workspaceRoot config]) (resolved_segments cwd [xc_workspaceRoot config, s]))" for s
    using within_root_iff within_slash_iff by simp
  then show ?thesis unfolding text_flags(6) [OF assms] seen_in_def by blast
qed

theorem workspace_containment_witness:
  "\<exists>c. extract_tool_call_context (\<lambda>_. []) 0 (js ''/'') sample_args sample_extract_config = Inr c
     \<and> \<not> tc_pathsWithinWorkspace c"
proof -
  obtain c where c: "extract_tool_call_context (\<lambda>_. []) 0 (js ''/'') sample_args sample_extract_config = Inr c"
    using sample_extracts by blast
  have f: "resolved_segments (js ''/'') [xc_workspaceRoot sample_extract_config] \<noteq> []"
    and "path_like (js ''../x'')"
    and "\<not> prefix (resolved_segments (js ''/'') [xc_workspaceRoot sample_extract_config])
      (resolved_segments (js ''/'') [xc_workspaceRoot sample_extract_config, js ''../x''])"
    by code_simp+
  moreover obtain d where "leaf_at d (JObject (to_object sample_args)) (js ''../x'')" "d \<le> 12"
    using sample_seen by (auto simp: seen_in_def)
  ultimately have "\<not> tc_pathsWithinWorkspace c" unfolding workspace_containment [OF c] if_not_P [OF f] by blast
  with c show ?thesis by blast
qed

section \<open>Where the features fall short of the code's comments\<close>

text \<open>
  A string one container deeper than the bound is not read, whatever it holds; and a backslash, which a
  URL parser takes as the end of a host, leaves a foreign host looking like a subdomain of an allowed one.
\<close>

fun wrap :: "nat \<Rightarrow> jvalue \<Rightarrow> jvalue" where
  "wrap 0 v = v"
| "wrap (Suc n) v = JArray [wrap n v]"

lemma deep_string_unseen: "\<not> seen_in (JObject [(k, wrap 12 (JString s))]) s"
  by (simp add: seen_in_def to_object_def leaf_at_simps numeral_nat)

lemma backslash_host_allowed:
  "has_external (extract_urls [js ''http://evil.com'' @ 92 # js ''.ok.com/'']) [js ''ok.com''] = False"
  by code_simp

end
