(* ===== verification/Server.thy ===== *)
theory Server
  imports OwnTools Forward Policy Risk Approvals AuditLog Ids Extract
begin

text \<open>
  The gateway as a server: the request handlers of \<open>apps/gateway/src/server/handlers.ts\<close>. A handler is
  a function of the server's state that throws or returns and leaves a state behind; what it does to the
  outside is kept, in order, in a trace. The SDK that parses requests, Cedar, the risk provider, the
  result scanner, SHA-256, HMAC, the URL parser and the clocks are parameters.
\<close>

section \<open>State\<close>

datatype server_effect =
    Recorded decision_record
  | Suspended approval_request
  | Notified jstring jstring jstring
  | Forwarded forward_target

record server_deps =
  de_sha :: hash_fun
  de_hmac :: hmac_fun
  de_cwd :: jstring
  de_url_protocol :: "jstring \<Rightarrow> exn + jstring"
  de_config :: gateway_config
  de_policy :: "(policy_bundle \<times> (authorization_call \<Rightarrow> cedar_answer)) option"
  de_risk :: "(risk_config \<times> llm_provider option) option"
  de_scanner :: "(jstring \<Rightarrow> exn + scan_summary) option"
  de_signer :: "signer option"
  de_notifier :: bool
  de_input_required :: "jvalue \<Rightarrow> bool"

record gateway_state =
  ss_registry :: upstream_registry
  ss_catalog :: tool_catalog
  ss_audit :: "audit_store option"
  ss_approvals :: "approvals_table option"
  ss_ids :: ulid_factory
  ss_trace :: "server_effect list"

text \<open>What the surroundings supply while one request is handled, in the order it is read.\<close>

record mint =
  mt_now :: int
  mt_bytes :: "byte list"

record request_env =
  ne_start :: int
  ne_wall :: nat
  ne_riskLatency :: jnum
  ne_later :: int
  ne_decision :: mint
  ne_task :: mint
  ne_approveAt :: int
  ne_denyAt :: int
  ne_decidedAt :: jstring
  ne_auditFault :: "jstring option"
  ne_approvalFault :: "exn option"
  ne_answer :: upstream_answer

type_synonym 'a action = "gateway_state \<Rightarrow> (exn + 'a) \<times> gateway_state"

definition bind_s :: "'a action \<Rightarrow> ('a \<Rightarrow> 'b action) \<Rightarrow> 'b action" where
  "bind_s m f st = (case m st of (Inl e, st') \<Rightarrow> (Inl e, st') | (Inr x, st') \<Rightarrow> f x st')"

definition lift_s :: "exn + 'a \<Rightarrow> 'a action" where
  "lift_s r st = (r, st)"

definition read_s :: "(gateway_state \<Rightarrow> 'a action) \<Rightarrow> 'a action" where
  "read_s f st = f st st"

definition emit :: "server_effect \<Rightarrow> gateway_state \<Rightarrow> gateway_state" where
  "emit x st = st\<lparr>ss_trace := ss_trace st @ [x]\<rparr>"

definition protocol_version :: jstring where
  "protocol_version = js ''2026-07-28''"

section \<open>Pieces the handlers share\<close>

definition build_inline_metadata :: "jstring \<Rightarrow> jstring \<Rightarrow> request_metadata" where
  "build_inline_metadata m nameOrUri = \<lparr>md_protocolVersion = Some protocol_version, md_method = Some m,
     md_name = Some nameOrUri, md_params = []\<rparr>"

definition aggregate_optional_capabilities :: "upstream_snapshot list \<Rightarrow> jvalue props" where
  "aggregate_optional_capabilities snapshots =
     (case aggregate_flags snapshots (False, False) of (resources, prompts) \<Rightarrow>
        (if resources then [(js ''resources'', JObject [])] else [])
      @ (if prompts then [(js ''prompts'', JObject [])] else []))"

definition anonymous_identity :: agent_identity where
  "anonymous_identity = \<lparr>ag_id = js ''anonymous'', ag_name = Some (js ''unknown''), ag_version = None,
     ag_trustTier = TierStandard, ag_authenticated = False, ag_extra = []\<rparr>"

definition anonymous_agent :: agent_principal where
  "anonymous_agent = agent_principal_from_identity anonymous_identity []"

text \<open>An \<open>AgentPrincipal\<close> where a record wants an \<open>AgentIdentity\<close>: no name, two more properties.\<close>

definition recorded_agent :: "agent_principal \<Rightarrow> agent_identity" where
  "recorded_agent p = \<lparr>ag_id = pr_id p, ag_name = None, ag_version = None, ag_trustTier = pr_trustTier p,
     ag_authenticated = pr_authenticated p,
     ag_extra = [(js ''clientName'', JString (pr_clientName p)),
                 (js ''agentGroups'', JArray (map JString (pr_agentGroups p)))]\<rparr>"

definition enforce_policy ::
    "server_deps \<Rightarrow> mcp_action \<Rightarrow> policy_resource \<Rightarrow> jvalue \<Rightarrow> exn + policy_decision option" where
  "enforce_policy deps action resource context =
     (case de_policy deps of
        None \<Rightarrow> Inr None
      | Some (bundle, isAuthorized) \<Rightarrow>
          bind_r (evaluate bundle isAuthorized
            \<lparr>er_principal = anonymous_agent, er_action = action, er_resource = resource, er_context = context\<rparr>)
          (\<lambda>decision.
            if \<not> pd_permit decision then
              Inl (SentinelError (policy_denied_error
                (case pd_reasons decision of
                   [] \<Rightarrow> js ''Denied by policy''
                 | r # _ \<Rightarrow> if r = [] then js ''Denied by policy'' else r)
                [(js ''reasons'', JArray (map JString (pd_reasons decision)))]))
            else Inr (Some decision)))"

text \<open>\<open>error.message\<close>; only plain errors and those of \<open>append\<close> are asked for theirs.\<close>

definition exn_message :: "exn \<Rightarrow> jstring" where
  "exn_message e = (case e of SentinelError s \<Rightarrow> se_message s | NamingError m \<Rightarrow> m
     | CanonicalizationError m \<Rightarrow> m | IdError m \<Rightarrow> m | AuditWriteError m \<Rightarrow> m | PolicyLoadError m _ \<Rightarrow> m
     | ConfigError m _ \<Rightarrow> m | ProtocolError _ m _ \<Rightarrow> m | PlainError m \<Rightarrow> m | _ \<Rightarrow> [])"

definition audit_refusal :: "exn \<Rightarrow> exn" where
  "audit_refusal e = ThrownObject
     [(js ''code'', JNumber (num_of_int (- 32001))),
      (js ''message'', JString (js ''Audit write failed '' @ 0x2014 # js '' request denied (fail-closed)'')),
      (js ''data'', JObject [(js ''error'', JString (exn_message e))])]"

definition append_audit :: "server_deps \<Rightarrow> request_env \<Rightarrow> decision_record \<Rightarrow> unit action" where
  "append_audit deps env record st =
     (case ss_audit st of
        None \<Rightarrow> (Inr (), st)
      | Some store \<Rightarrow>
          (case audit_append (de_sha deps) (ne_auditFault env) record store of
             Inl e \<Rightarrow> (Inl (audit_refusal e), st)
           | Inr store' \<Rightarrow> (Inr (), emit (Recorded record) (st\<lparr>ss_audit := Some store'\<rparr>))))"

definition mint_id :: "id_kind \<Rightarrow> mint \<Rightarrow> jstring action" where
  "mint_id kind m st = (case new_id kind (ss_ids st) (mt_now m) (mt_bytes m) of
      Inl e \<Rightarrow> (Inl e, st)
    | Inr (i, f) \<Rightarrow> (Inr i, st\<lparr>ss_ids := f\<rparr>))"

definition text_content :: "jstring \<Rightarrow> jvalue" where
  "text_content s = JArray [JObject [(js ''type'', JString (js ''text'')), (js ''text'', JString s)]]"

definition error_result :: "jstring \<Rightarrow> jvalue" where
  "error_result s = JObject [(js ''content'', text_content s), (js ''isError'', JBool True)]"

definition optional_value :: "jvalue option \<Rightarrow> jvalue" where
  "optional_value v = (case v of None \<Rightarrow> JUndefined | Some x \<Rightarrow> x)"

definition string_param :: "string \<Rightarrow> jvalue props \<Rightarrow> jstring" where
  "string_param k params = (case as_string (get_prop params (js k)) of None \<Rightarrow> [] | Some s \<Rightarrow> s)"

definition bypassed_policy :: policy_decision where
  "bypassed_policy = \<lparr>pd_permit = True, pd_obligation = Allow, pd_reasons = [], pd_errors = [],
     pd_defaultDeny = False\<rparr>"

section \<open>Policy contexts as Cedar sees them\<close>

definition sql_kind_text :: "sql_kind \<Rightarrow> jstring" where
  "sql_kind_text k = (case k of SqlNone \<Rightarrow> js ''none'' | SqlSelect \<Rightarrow> js ''select'' | SqlInsert \<Rightarrow> js ''insert''
     | SqlUpdate \<Rightarrow> js ''update'' | SqlDelete \<Rightarrow> js ''delete'' | SqlDdl \<Rightarrow> js ''ddl'' | SqlUnknown \<Rightarrow> js ''unknown'')"

definition base_context_props :: "'a base_context_scheme \<Rightarrow> jvalue props" where
  "base_context_props c =
     [(js ''protocolVersion'', JString (bc_protocolVersion c)), (js ''argsDigest'', JString (bc_argsDigest c)),
      (js ''hourUtc'', j_nat (bc_hourUtc c))]"

definition tool_call_context_value :: "tool_call_context \<Rightarrow> jvalue" where
  "tool_call_context_value c = JObject (base_context_props c @
     [(js ''argCount'', j_nat (tc_argCount c)), (js ''argBytes'', j_nat (tc_argBytes c)),
      (js ''pathsWithinWorkspace'', JBool (tc_pathsWithinWorkspace c)),
      (js ''hasAbsolutePath'', JBool (tc_hasAbsolutePath c)),
      (js ''hasParentTraversal'', JBool (tc_hasParentTraversal c)),
      (js ''hasSensitivePath'', JBool (tc_hasSensitivePath c)),
      (js ''fileExtensions'', JArray (map JString (tc_fileExtensions c))),
      (js ''hasUrl'', JBool (tc_hasUrl c)), (js ''urlHosts'', JArray (map JString (tc_urlHosts c))),
      (js ''hasExternalUrl'', JBool (tc_hasExternalUrl c)),
      (js ''sqlKind'', JString (sql_kind_text (tc_sqlKind c))),
      (js ''sqlIsDestructive'', JBool (tc_sqlIsDestructive c)),
      (js ''sqlIsMultiStatement'', JBool (tc_sqlIsMultiStatement c)),
      (js ''hasShellMetacharacters'', JBool (tc_hasShellMetacharacters c)),
      (js ''containsCredential'', JBool (tc_containsCredential c)),
      (js ''hasInvisibleUnicode'', JBool (tc_hasInvisibleUnicode c)),
      (js ''serverTrust'', JString (tc_serverTrust c)), (js ''toolScanVerdict'', JString (tc_toolScanVerdict c))])"

definition resource_read_context_value :: "resource_read_context \<Rightarrow> jvalue" where
  "resource_read_context_value c = JObject (base_context_props c @
     [(js ''scheme'', JString (rc_scheme c)), (js ''pathsWithinWorkspace'', JBool (rc_pathsWithinWorkspace c)),
      (js ''hasSensitivePath'', JBool (rc_hasSensitivePath c)), (js ''hasExternalUrl'', JBool (rc_hasExternalUrl c)),
      (js ''serverTrust'', JString (rc_serverTrust c))])"

definition endpoint_context :: "server_deps \<Rightarrow> request_env \<Rightarrow> exn + jvalue" where
  "endpoint_context deps env =
     bind_r (extract_base_context (de_sha deps) (ne_wall env) protocol_version (JObject []))
       (\<lambda>c. Inr (JObject (base_context_props c)))"

section \<open>Deciding a call\<close>

record prepared_call =
  pq_method :: jstring
  pq_name :: jstring
  pq_params :: "jvalue props"
  pq_target :: forward_target
  pq_start :: int
  pq_decision :: "policy_decision option"

definition upstream_snapshot_of :: "gateway_state \<Rightarrow> jstring \<Rightarrow> upstream_snapshot option" where
  "upstream_snapshot_of st serverId = find (\<lambda>s. sn_serverId s = serverId) (registry_snapshots (ss_registry st))"

definition upstream_trust :: "gateway_state \<Rightarrow> jstring \<Rightarrow> server_trust" where
  "upstream_trust st serverId =
     (case upstream_snapshot_of st serverId of None \<Rightarrow> Untrusted | Some s \<Rightarrow> sn_trust s)"

definition upstream_scan_verdict :: "gateway_state \<Rightarrow> jstring \<Rightarrow> jstring" where
  "upstream_scan_verdict st serverId =
     (case upstream_snapshot_of st serverId of
        Some s \<Rightarrow> if sn_health s = Ready then js ''clean'' else js ''unknown''
      | None \<Rightarrow> js ''unknown'')"

definition extract_config_of :: "server_deps \<Rightarrow> server_trust \<Rightarrow> jstring \<Rightarrow> extract_config" where
  "extract_config_of deps trust verdict =
     \<lparr>xc_workspaceRoot = gc_workspaceRoot (de_config deps),
      xc_allowedHosts = ht_allowedOrigins (gc_http (de_config deps)),
      xc_protocolVersion = protocol_version, xc_serverTrust = server_trust_text trust,
      xc_toolScanVerdict = verdict\<rparr>"

definition arguments_of :: "jvalue props \<Rightarrow> jvalue" where
  "arguments_of params = optional_value (get_prop params (js ''arguments''))"

text \<open>The decision on each kind of call; without an engine there is none.\<close>

definition tool_decision ::
    "server_deps \<Rightarrow> request_env \<Rightarrow> gateway_state \<Rightarrow> jstring \<Rightarrow> jvalue props \<Rightarrow> exn + policy_decision option" where
  "tool_decision deps env st name params =
     (if de_policy deps = None then Inr None
      else case catalog_get (ss_catalog st) name of
          None \<Rightarrow> Inl (ProtocolError (- 32601) (js ''tool '' @ name @ js '' not found'') None)
        | Some entry \<Rightarrow>
            let trust = upstream_trust st (ct_serverId entry);
                target = catalog_target.truncate entry;
                verdict = (case ct_scan entry of None \<Rightarrow> js ''clean'' | Some sc \<Rightarrow> scan_verdict_text (sc_verdict sc))
            in bind_r (extract_tool_call_context (de_sha deps) (ne_wall env) (de_cwd deps) (arguments_of params)
                 (extract_config_of deps trust verdict)) (\<lambda>context.
               enforce_policy deps CallTool
                 (ToolTarget (tool_resource target (gc_toolGroups (de_config deps)) trust))
                 (tool_call_context_value context)))"

definition resource_decision ::
    "server_deps \<Rightarrow> request_env \<Rightarrow> gateway_state \<Rightarrow> jstring \<Rightarrow> forward_target \<Rightarrow> exn + policy_decision option" where
  "resource_decision deps env st uri t =
     (if de_policy deps = None then Inr None
      else let trust = upstream_trust st (ft_serverId t) in
        bind_r (extract_resource_read_context (de_sha deps) (ne_wall env) (de_cwd deps) (ft_upstreamName t)
          (extract_config_of deps trust (js ''clean''))) (\<lambda>context.
        bind_r (de_url_protocol deps (ft_upstreamName t)) (\<lambda>protocol.
        enforce_policy deps ReadResource
          (ResourceTarget uri (ft_upstreamName t) (ft_serverId t) trust (upstream_scan_verdict st (ft_serverId t))
             (butlast protocol))
          (resource_read_context_value context))))"

definition prompt_decision ::
    "server_deps \<Rightarrow> request_env \<Rightarrow> gateway_state \<Rightarrow> jstring \<Rightarrow> forward_target \<Rightarrow> exn + policy_decision option" where
  "prompt_decision deps env st name t =
     (if de_policy deps = None then Inr None
      else bind_r (endpoint_context deps env) (\<lambda>context.
        enforce_policy deps GetPrompt
          (PromptTarget name (ft_upstreamName t) (ft_serverId t) (upstream_trust st (ft_serverId t))
             (upstream_scan_verdict st (ft_serverId t)) (js ''clean''))
          context))"

text \<open>The part of a handler before its first suspension: the route, the clock, the decision.\<close>

definition route_of ::
    "server_deps \<Rightarrow> gateway_state \<Rightarrow> jstring \<Rightarrow> jstring \<Rightarrow> jvalue props \<Rightarrow> exn + forward_target" where
  "route_of deps st m name params =
     bind_r (route_request (de_sha deps) (gc_forward (de_config deps))
         \<lparr>gv_catalog = ss_catalog st, gv_registry = ss_registry st\<rparr> (build_inline_metadata m name)
         \<lparr>ir_method = Some (JString m), ir_params = Some (JObject params)\<rparr>) (\<lambda>r.
       case r of ForwardRoute t \<Rightarrow> Inr t
               | DiscoverRoute \<Rightarrow> Inl (PlainError (js ''unexpected route kind for '' @ m)))"

definition prepare_call ::
    "server_deps \<Rightarrow> request_env \<Rightarrow> gateway_state \<Rightarrow> jstring \<Rightarrow> jvalue props \<Rightarrow> exn + prepared_call" where
  "prepare_call deps env st m params =
     (let name = string_param (if m = js_resources_read then ''uri'' else ''name'') params in
      bind_r (route_of deps st m name params) (\<lambda>t.
      bind_r (if m = js_tools_call then tool_decision deps env st name params
              else if m = js_resources_read then resource_decision deps env st name t
              else prompt_decision deps env st name t) (\<lambda>decision.
      Inr \<lparr>pq_method = m, pq_name = name, pq_params = params, pq_target = t,
           pq_start = ne_start env, pq_decision = decision\<rparr>)))"

definition payload_of :: "prepared_call \<Rightarrow> jvalue" where
  "payload_of pq = (if pq_method pq = js_tools_call then arguments_of (pq_params pq) else JObject (pq_params pq))"

definition assess_call ::
    "server_deps \<Rightarrow> request_env \<Rightarrow> prepared_call \<Rightarrow> exn + risk_assessment option \<times> obligation" where
  "assess_call deps env pq =
     (let base = (case pq_decision pq of None \<Rightarrow> Allow | Some d \<Rightarrow> pd_obligation d) in
      case de_risk deps of
        None \<Rightarrow> Inr (None, base)
      | Some (c, provider) \<Rightarrow>
          if (case pq_decision pq of None \<Rightarrow> False | Some d \<Rightarrow> \<not> pd_permit d) then Inr (None, base)
          else bind_r (evaluate_risk c provider (pq_method pq) (pq_name pq) (payload_of pq) (ne_riskLatency env))
            (\<lambda>risk. Inr (Some risk, escalate_obligation c base risk)))"

section \<open>Recording and suspending\<close>

text \<open>Server and upstream name in a record: of a tool, what the catalog says by now.\<close>

definition recorded_names :: "gateway_state \<Rightarrow> prepared_call \<Rightarrow> bool \<Rightarrow> jstring option \<times> jstring option" where
  "recorded_names st pq deferred =
     (if pq_method pq = js_tools_call then
        (case catalog_get (ss_catalog st) (pq_name pq) of
           None \<Rightarrow> (None, None)
         | Some e \<Rightarrow> (if deferred \<and> ct_serverId e = [] then None else Some (ct_serverId e),
                      if ct_toolName e = [] then None else Some (ct_toolName e)))
      else (Some (ft_serverId (pq_target pq)), Some (ft_upstreamName (pq_target pq))))"

definition make_record ::
    "server_deps \<Rightarrow> request_env \<Rightarrow> prepared_call \<Rightarrow> verdict \<Rightarrow> obligation \<Rightarrow> risk_assessment option
      \<Rightarrow> decision_record action" where
  "make_record deps env pq verdict obligation risk =
     bind_s (mint_id KDecision (ne_decision env)) (\<lambda>decisionId.
     read_s (\<lambda>st. lift_s (
       bind_r (iso_timestamp (pq_start pq)) (\<lambda>timestamp.
       bind_r (digest_of (de_sha deps) (payload_of pq)) (\<lambda>argsDigest.
       let names = recorded_names st pq (verdict = VPending) in
       Inr \<lparr>dr_decisionId = decisionId, dr_timestamp = timestamp, dr_agent = recorded_agent anonymous_agent,
            dr_protocolVersion = protocol_version, dr_method = pq_method pq,
            dr_qualifiedName = Some (pq_name pq), dr_serverId = fst names, dr_upstreamName = snd names,
            dr_verdict = verdict, dr_obligation = obligation,
            dr_policy = (case pq_decision pq of None \<Rightarrow> bypassed_policy | Some d \<Rightarrow> d),
            dr_risk = risk, dr_argsDigest = argsDigest, dr_resultDigest = None,
            dr_latencyMs = ne_later env - pq_start pq, dr_degraded = False\<rparr>)))))"

definition can_suspend :: "server_deps \<Rightarrow> gateway_state \<Rightarrow> bool" where
  "can_suspend deps st = (ss_approvals st \<noteq> None \<and> de_signer deps \<noteq> None \<and> de_notifier deps)"

definition create_in :: "request_env \<Rightarrow> approval_request \<Rightarrow> unit action" where
  "create_in env request st =
     (case create_approval (ne_approvalFault env) request (opt_list (ss_approvals st)) of
        Inl e \<Rightarrow> (Inl e, st)
      | Inr table \<Rightarrow> (Inr (), emit (Suspended request) (st\<lparr>ss_approvals := Some table\<rparr>)))"

text \<open>\<open>notify\<close> is not awaited and its rejection is only logged.\<close>

definition notify :: "server_deps \<Rightarrow> request_env \<Rightarrow> jstring \<Rightarrow> unit action" where
  "notify deps env taskId st =
     (case de_signer deps of
        None \<Rightarrow> (Inr (), st)
      | Some sg \<Rightarrow> (Inr (), emit (Notified taskId (sign (de_hmac deps) sg (ne_approveAt env) taskId ActApprove)
                                     (sign (de_hmac deps) sg (ne_denyAt env) taskId ActDeny)) st))"

definition approval_params :: "prepared_call \<Rightarrow> exn + jstring" where
  "approval_params pq =
     bind_r (stringify (if pq_method pq = js_tools_call then or_empty (payload_of pq) else payload_of pq))
       (\<lambda>t. Inr (case t of None \<Rightarrow> [] | Some s \<Rightarrow> s))"

definition suspend_call :: "server_deps \<Rightarrow> request_env \<Rightarrow> prepared_call \<Rightarrow> jstring action" where
  "suspend_call deps env pq =
     bind_s (mint_id KTask (ne_task env)) (\<lambda>taskId.
     bind_s (lift_s (approval_params pq)) (\<lambda>params.
     bind_s (lift_s (iso_timestamp (pq_start pq))) (\<lambda>requestedAt.
     bind_s (create_in env \<lparr>ap_approvalId = taskId, ap_agentId = js ''anonymous'', ap_method = pq_method pq,
         ap_qualifiedName = pq_name pq, ap_params = params, ap_state = Pending, ap_requestedAt = requestedAt,
         ap_decidedAt = None, ap_approver = None, ap_reason = None\<rparr>) (\<lambda>_.
     bind_s (notify deps env taskId) (\<lambda>_. lift_s (Inr taskId))))))"

definition deferred_verb :: "jstring \<Rightarrow> jstring" where
  "deferred_verb m = (if m = js_resources_read then js ''readResource'' else js ''getPrompt'')"

text \<open>The answer to a suspended call, and the refusal when it cannot be suspended.\<close>

definition suspended_answer :: "prepared_call \<Rightarrow> obligation \<Rightarrow> jstring \<Rightarrow> exn + jvalue" where
  "suspended_answer pq obligation taskId =
     (if pq_method pq = js_tools_call
      then Inr (JObject [(js ''_meta'', JObject [(js ''taskId'', JString taskId)]),
        (js ''content'', text_content (js ''Call deferred: requires '' @ obligation_text obligation
           @ js ''. Task ID: '' @ taskId)),
        (js ''isError'', JBool True)])
      else Inl (ProtocolError (- 32001) (deferred_verb (pq_method pq) @ js '' requires '' @ obligation_text obligation
             @ js ''. Task ID: '' @ taskId) (Some (JObject [(js ''taskId'', JString taskId)]))))"

definition unsuspendable :: "prepared_call \<Rightarrow> obligation \<Rightarrow> exn" where
  "unsuspendable pq obligation =
     (if pq_method pq = js_tools_call
      then ProtocolError (- 32001) (js ''Call deferred: requires '' @ obligation_text obligation
             @ js ''. Task bridging unavailable.'') None
      else SentinelError (policy_denied_error
             (deferred_verb (pq_method pq) @ js '' requires '' @ obligation_text obligation)
             [(js ''obligation'', JString (obligation_text obligation))]))"

definition defer_call ::
    "server_deps \<Rightarrow> request_env \<Rightarrow> prepared_call \<Rightarrow> obligation \<Rightarrow> risk_assessment option \<Rightarrow> jvalue action" where
  "defer_call deps env pq obligation risk =
     bind_s (make_record deps env pq VPending obligation risk) (\<lambda>record.
     bind_s (append_audit deps env record) (\<lambda>_.
     read_s (\<lambda>st. if can_suspend deps st
       then bind_s (suspend_call deps env pq) (\<lambda>taskId. lift_s (suspended_answer pq obligation taskId))
       else lift_s (Inl (unsuspendable pq obligation)))))"

section \<open>Forwarding\<close>

text \<open>The record of an allowed call is written before the call is made.\<close>

definition allow_call ::
    "server_deps \<Rightarrow> request_env \<Rightarrow> prepared_call \<Rightarrow> risk_assessment option \<Rightarrow> unit action" where
  "allow_call deps env pq risk =
     bind_s (make_record deps env pq VAllow Allow risk) (\<lambda>record. append_audit deps env record)"

definition forward_prepared :: "server_deps \<Rightarrow> request_env \<Rightarrow> prepared_call \<Rightarrow> forward_outcome action" where
  "forward_prepared deps env pq st =
     (case forward_call (de_sha deps) (de_input_required deps) (gc_forward (de_config deps)) (ne_answer env)
         (pq_target pq) (ss_registry st) of
        (r, _, reg) \<Rightarrow> (r, emit (Forwarded (pq_target pq)) (st\<lparr>ss_registry := reg\<rparr>)))"

definition blocked_result :: "severity option \<Rightarrow> jvalue" where
  "blocked_result highest = error_result
     (js ''Sentinel blocked this tool response: the server returned content flagged as ''
      @ (case highest of None \<Rightarrow> js ''undefined'' | Some s \<Rightarrow> severity_text s)
      @ js '' risk by the result scanner.'')"

text \<open>Only a tool's result is scanned, and of it only an array under \<open>content\<close>.\<close>

definition screen_result :: "server_deps \<Rightarrow> prepared_call \<Rightarrow> jvalue \<Rightarrow> exn + jvalue" where
  "screen_result deps pq result =
     (if pq_method pq \<noteq> js_tools_call then Inr result
      else case (de_scanner deps, js_opt_get result (js ''content'')) of
          (Some scan, JArray xs) \<Rightarrow>
            bind_r (stringify (JArray xs)) (\<lambda>t.
            bind_r (scan (case t of None \<Rightarrow> [] | Some s \<Rightarrow> s)) (\<lambda>summary.
            Inr (if sc_verdict summary = Malicious then blocked_result (sc_highestSeverity summary) else result)))
        | _ \<Rightarrow> Inr result)"

text \<open>The rest of a handler, from the risk assessment on.\<close>

definition finish_call_of :: "server_deps \<Rightarrow> request_env \<Rightarrow> prepared_call \<Rightarrow> jvalue action" where
  "finish_call_of deps env pq =
     bind_s (lift_s (assess_call deps env pq)) (\<lambda>(risk, obligation).
     if obligation \<noteq> Allow then defer_call deps env pq obligation risk
     else bind_s (allow_call deps env pq risk) (\<lambda>_.
          bind_s (forward_prepared deps env pq) (\<lambda>outcome.
          lift_s (screen_result deps pq (fo_result outcome)))))"

section \<open>The handlers\<close>

definition handle_approve_request :: "server_deps \<Rightarrow> request_env \<Rightarrow> jvalue \<Rightarrow> jvalue action" where
  "handle_approve_request deps env args st =
     (case (ss_approvals st, de_signer deps) of
        (Some table, Some sg) \<Rightarrow>
          (case js_opt_get args (js ''token'') of
             JString token \<Rightarrow>
               (case verify (de_hmac deps) sg (int (ne_wall env)) token of
                  Inl e \<Rightarrow> (Inr (error_result (js ''Token verification failed: '' @ exn_message e)), st)
                | Inr (approvalId, action) \<Rightarrow>
                    (case get_approval approvalId table of
                       None \<Rightarrow> (Inr (error_result (js ''No approval found for id '' @ approvalId)), st)
                     | Some approval \<Rightarrow>
                         if ap_agentId approval = js ''anonymous''
                         then (Inr (error_result (js ''Self-approval is forbidden: the approving identity must differ from the requesting identity.'')), st)
                         else let newState = (if action = ActApprove then Approved else Denied) in
                           (case update_state (ne_approvalFault env) (ne_decidedAt env) approvalId newState
                               (Some (js ''agent:anonymous'')) None table of
                              Inl e \<Rightarrow> (Inr (error_result (js ''Failed to update approval: '' @ exn_message e)), st)
                            | Inr table' \<Rightarrow>
                                (Inr (JObject [(js ''content'', text_content (js ''Approval '' @ approvalId
                                   @ js '' has been '' @ approval_state_text newState @ js ''.''))]),
                                 st\<lparr>ss_approvals := Some table'\<rparr>))))
           | _ \<Rightarrow> (Inr (error_result (js ''Missing required argument: token'')), st))
      | _ \<Rightarrow> (Inr (error_result (js ''Approval system is not configured.'')), st))"

definition own_tool_stub :: "jstring \<Rightarrow> jvalue" where
  "own_tool_stub name = error_result (name @ js '' is not yet implemented. ''
     @ js ''This tool will be available in a future milestone (M7). ''
     @ js ''If you need this capability now, access the gateway'' @ 39 # js ''s ''
     @ js ''operator interface directly.'')"

definition handle_tools_call :: "server_deps \<Rightarrow> request_env \<Rightarrow> jvalue props \<Rightarrow> jvalue action" where
  "handle_tools_call deps env params =
     (let name = string_param ''name'' params in
      if is_sentinel_own_tool name then
        (if name = js ''sentinel__approve_request'' then handle_approve_request deps env (arguments_of params)
         else lift_s (Inr (own_tool_stub name)))
      else read_s (\<lambda>st. bind_s (lift_s (prepare_call deps env st js_tools_call params)) (finish_call_of deps env)))"

text \<open>A method the gateway does not register is the SDK's to refuse.\<close>

definition registered :: "gateway_state \<Rightarrow> string \<Rightarrow> bool" where
  "registered st capability =
     (get_prop (aggregate_optional_capabilities (registry_snapshots (ss_registry st))) (js capability) \<noteq> None)"

definition unregistered :: exn where
  "unregistered = ProtocolError (- 32601) (js ''Method not found'') None"

definition handle_resources_read :: "server_deps \<Rightarrow> request_env \<Rightarrow> jvalue props \<Rightarrow> jvalue action" where
  "handle_resources_read deps env params = read_s (\<lambda>st.
     if registered st ''resources''
     then bind_s (lift_s (prepare_call deps env st js_resources_read params)) (finish_call_of deps env)
     else lift_s (Inl unregistered))"

definition handle_prompts_get :: "server_deps \<Rightarrow> request_env \<Rightarrow> jvalue props \<Rightarrow> jvalue action" where
  "handle_prompts_get deps env params = read_s (\<lambda>st.
     if registered st ''prompts''
     then bind_s (lift_s (prepare_call deps env st js_prompts_get params)) (finish_call_of deps env)
     else lift_s (Inl unregistered))"

definition tasks_deferred_message :: jstring where
  "tasks_deferred_message = js ''tasks/* subsystem is deferred to M5.5 (approval bridging). ''
     @ js ''No task state exists until Sentinel can suspend and resume calls awaiting human approval.''"

definition null_or :: "jstring option \<Rightarrow> jvalue" where
  "null_or x = (case x of None \<Rightarrow> JNull | Some s \<Rightarrow> JString s)"

definition handle_tasks_get :: "jvalue props \<Rightarrow> jvalue action" where
  "handle_tasks_get params st =
     (let taskId = string_param ''taskId'' params in
      case ss_approvals st of
        None \<Rightarrow> (Inl (ProtocolError (- 32601) tasks_deferred_message None), st)
      | Some table \<Rightarrow>
          (case get_approval taskId table of
             None \<Rightarrow> (Inl (ProtocolError (- 32002) (js ''No approval found for task '' @ taskId) None), st)
           | Some a \<Rightarrow> (Inr (JObject
               [(js ''id'', JString (ap_approvalId a)),
                (js ''status'', JString (if ap_state a = Pending then js ''running''
                   else if ap_state a = Approved then js ''completed'' else js ''failed'')),
                (js ''metadata'', JObject
                   [(js ''method'', JString (ap_method a)), (js ''qualifiedName'', JString (ap_qualifiedName a)),
                    (js ''requestedAt'', JString (ap_requestedAt a)), (js ''decidedAt'', null_or (ap_decidedAt a)),
                    (js ''approver'', null_or (ap_approver a))])]), st)))"

definition handle_tasks_cancel :: "request_env \<Rightarrow> jvalue props \<Rightarrow> jvalue action" where
  "handle_tasks_cancel env params st =
     (let taskId = string_param ''taskId'' params in
      case ss_approvals st of
        None \<Rightarrow> (Inl (ProtocolError (- 32601) tasks_deferred_message None), st)
      | Some table \<Rightarrow>
          (case update_state (ne_approvalFault env) (ne_decidedAt env) taskId Denied (Some (js ''agent-cancel''))
              (Some (js ''Cancelled via tasks/cancel'')) table of
             Inl _ \<Rightarrow> (Inl (ProtocolError (- 32002) (js ''Cannot cancel task '' @ taskId
                          @ js '': not pending or not found'') None), st)
           | Inr table' \<Rightarrow> (Inr (JObject [(js ''id'', JString taskId), (js ''status'', JString (js ''cancelled''))]),
                            st\<lparr>ss_approvals := Some table'\<rparr>)))"

definition handle_tasks_deferred :: "jvalue action" where
  "handle_tasks_deferred = lift_s (Inl (ProtocolError (- 32601) tasks_deferred_message None))"

text \<open>Listing and discovery, behind the policy for endpoints.\<close>

definition handle_tools_list :: "server_deps \<Rightarrow> request_env \<Rightarrow> jvalue action" where
  "handle_tools_list deps env st =
     (bind_r (endpoint_context deps env) (\<lambda>context.
      bind_r (enforce_policy deps ListTools EndpointTarget context) (\<lambda>_.
      Inr (JObject [(js ''tools'', JArray (map JObject
        (catalog_advertised (ss_catalog st) @ sentinel_tool_definitions)))]))), st)"

definition server_info_of :: "gateway_config \<Rightarrow> jvalue props" where
  "server_info_of cfg = [(js ''name'', JString (gc_instanceName cfg)), (js ''version'', JString (js ''0.1.0''))]"

definition handle_discover :: "server_deps \<Rightarrow> request_env \<Rightarrow> jvalue action" where
  "handle_discover deps env st =
     (bind_r (endpoint_context deps env) (\<lambda>context.
      bind_r (enforce_policy deps Discover EndpointTarget context) (\<lambda>_.
      Inr (JObject (build_discover_result (gc_instanceName (de_config deps)) (server_info_of (de_config deps))
        (registry_snapshots (ss_registry st)))))), st)"

end
