(* ===== verification/Http.thy ===== *)
theory Http
  imports Server
begin

text \<open>
  The HTTP gate of \<open>apps/gateway/src/server/http.ts\<close>: what of a request reaches the MCP handler, and
  the links a person follows to decide a suspended call. Which route a request matches is the router's
  doing; a request is given with its route, headers and body length.
\<close>

datatype http_route = HealthRoute | McpOther | McpPost | ApproveLink jstring | DenyLink jstring | NoRoute

record http_request =
  hq_route :: http_route
  hq_origin :: "jstring option"
  hq_contentLength :: "jstring option"
  hq_bodyLength :: nat
  hq_token :: "jstring option"

text \<open>A reply of the gate's own, or the request handed to the MCP handler.\<close>

datatype http_reply = Reply (hr_status: nat) (hr_body: jstring) | Delegated

definition loopback_origins :: "jstring list" where
  "loopback_origins = map js [''http://localhost'', ''https://localhost'', ''http://127.0.0.1'',
     ''https://127.0.0.1'', ''http://[::1]'', ''https://[::1]'']"

definition is_origin_allowed :: "jstring option \<Rightarrow> jstring list \<Rightarrow> bool" where
  "is_origin_allowed origin allowedOrigins = (case origin of
      None \<Rightarrow> True
    | Some x \<Rightarrow> if length allowedOrigins > 0 then x \<in> set allowedOrigins else x \<in> set loopback_origins)"

definition handle_mcp_post :: "http_settings \<Rightarrow> http_request \<Rightarrow> http_reply" where
  "handle_mcp_post settings rq =
     (if \<not> is_origin_allowed (hq_origin rq) (ht_allowedOrigins settings)
      then Reply 403 (js ''Forbidden: disallowed origin'')
      else if (case Option.bind (hq_contentLength rq) parse_int of
                 None \<Rightarrow> False | Some declared \<Rightarrow> declared > int (ht_maxBodyBytes settings))
      then Reply 413 (js ''Request Entity Too Large'')
      else if hq_bodyLength rq > ht_maxBodyBytes settings
      then Reply 413 (js ''Request Entity Too Large'')
      else Delegated)"

text \<open>The two links differ in the action, the new state and the texts.\<close>

definition link_action :: "bool \<Rightarrow> decision_action" where
  "link_action approve = (if approve then ActApprove else ActDeny)"

definition link_page :: "bool \<Rightarrow> jstring" where
  "link_page approve = (if approve
     then js ''<html><body><h1>'' @ 0x2705 # js '' Approved</h1><p>Request has been approved.</p></body></html>''
     else js ''<html><body><h1>'' @ 0x274C # js '' Denied</h1><p>Request has been denied.</p></body></html>'')"

definition handle_link ::
    "server_deps \<Rightarrow> request_env \<Rightarrow> bool \<Rightarrow> jstring \<Rightarrow> jstring option \<Rightarrow> gateway_state \<Rightarrow> http_reply \<times> gateway_state" where
  "handle_link deps env approve approvalId token st =
     (case token of
        None \<Rightarrow> (Reply 400 (js ''Missing token''), st)
      | Some tok \<Rightarrow>
          if tok = [] then (Reply 400 (js ''Missing token''), st)
          else case (de_signer deps, ss_approvals st) of
            (Some sg, Some table) \<Rightarrow>
              (case bind_r (verify (de_hmac deps) sg (int (ne_wall env)) tok) (\<lambda>(i, action).
                  if i \<noteq> approvalId \<or> action \<noteq> link_action approve then Inr None
                  else bind_r (update_state (ne_approvalFault env) (ne_decidedAt env) approvalId
                         (if approve then Approved else Denied) (Some (js ''human-link'')) None table)
                         (\<lambda>table'. Inr (Some table'))) of
                 Inl e \<Rightarrow> (Reply 403 ((if approve then js ''Approval failed: '' else js ''Denial failed: '') @ exn_message e), st)
               | Inr None \<Rightarrow> (Reply 403 (if approve then js ''Token does not match this approval''
                                else js ''Token does not match this denial''), st)
               | Inr (Some table') \<Rightarrow> (Reply 200 (link_page approve), st\<lparr>ss_approvals := Some table'\<rparr>))
          | _ \<Rightarrow> (Reply 503 (js ''Approval system not configured''), st))"

definition handle_http ::
    "server_deps \<Rightarrow> request_env \<Rightarrow> http_request \<Rightarrow> gateway_state \<Rightarrow> http_reply \<times> gateway_state" where
  "handle_http deps env rq st = (case hq_route rq of
      HealthRoute \<Rightarrow> (Reply 200 (123 # 34 # js ''ok'' @ 34 # js '':true}''), st)
    | McpOther \<Rightarrow> (Reply 405 (js ''Method Not Allowed''), st)
    | McpPost \<Rightarrow> (handle_mcp_post (gc_http (de_config deps)) rq, st)
    | ApproveLink i \<Rightarrow> handle_link deps env True i (hq_token rq) st
    | DenyLink i \<Rightarrow> handle_link deps env False i (hq_token rq) st
    | NoRoute \<Rightarrow> (Reply 404 (js ''Not Found''), st))"

section \<open>Properties\<close>

text \<open>A link acts only on a token that verifies for its id and its action, and on a pending request.\<close>

lemma handle_link_cases:
  assumes "handle_link deps env approve i token st = (r, st')"
  shows "st' = st \<or> (\<exists>sg tok table table'. de_signer deps = Some sg \<and> token = Some tok
    \<and> verify (de_hmac deps) sg (int (ne_wall env)) tok = Inr (i, link_action approve)
    \<and> ss_approvals st = Some table \<and> update_state (ne_approvalFault env) (ne_decidedAt env) i
        (if approve then Approved else Denied) (Some (js ''human-link'')) None table = Inr table'
    \<and> st' = st\<lparr>ss_approvals := Some table'\<rparr>)"
  using assms unfolding handle_link_def
  by (auto simp: bind_r_Inr_iff split: option.splits sum.splits prod.splits if_splits)

text \<open>
  C37: The gate hands a request to the MCP handler exactly when it is a POST to the endpoint whose origin
  is absent or allowed, whose declared length is no number or within the limit, and whose body is within
  it; it never changes the server's state on that route.
\<close>

theorem http_gate_exact:
  "handle_http deps env rq st = (Delegated, st') \<longleftrightarrow> st' = st \<and> hq_route rq = McpPost
    \<and> (hq_origin rq = None \<or> (\<exists>x. hq_origin rq = Some x \<and>
         x \<in> set (if ht_allowedOrigins (gc_http (de_config deps)) = [] then loopback_origins
                   else ht_allowedOrigins (gc_http (de_config deps)))))
    \<and> (case Option.bind (hq_contentLength rq) parse_int of None \<Rightarrow> True
        | Some n \<Rightarrow> n \<le> int (ht_maxBodyBytes (gc_http (de_config deps))))
    \<and> hq_bodyLength rq \<le> ht_maxBodyBytes (gc_http (de_config deps))"
proof -
  have "fst (handle_link deps env a i t st) \<noteq> Delegated" for a i t
    unfolding handle_link_def by (auto split: option.splits sum.splits)
  then have links: "handle_link deps env a i t st \<noteq> (Delegated, s)" for a i t s by (metis fst_conv)
  show ?thesis
    using links
    by (cases "hq_origin rq"; cases "hq_contentLength rq"; cases "hq_route rq")
      (auto simp: handle_http_def handle_mcp_post_def is_origin_allowed_def split: option.splits)
qed

end
