(* ===== verification/Gateway.thy ===== *)
theory Gateway
  imports Http
begin

text \<open>
  The gateway at work: requests that interleave at the handlers' suspension points, and what holds of
  every run. A call is forwarded only after its permission, and its record, are in; a deferred call
  reaches no upstream; what cannot be audited does not happen.
\<close>

section \<open>What the actions do to the state\<close>

lemma bind_s_iff: "bind_s m f st = (r, st') \<longleftrightarrow>
    (\<exists>e. m st = (Inl e, st') \<and> r = Inl e) \<or> (\<exists>x s1. m st = (Inr x, s1) \<and> f x s1 = (r, st'))"
  by (cases "m st"; cases "fst (m st)") (auto simp: bind_s_def)

lemma lift_s_iff: "lift_s x st = (r, st') \<longleftrightarrow> r = x \<and> st' = st"
  by (auto simp: lift_s_def)

lemma emit_simps [simp]:
  "ss_trace (emit x st) = ss_trace st @ [x]" "ss_registry (emit x st) = ss_registry st"
  "ss_catalog (emit x st) = ss_catalog st" "ss_audit (emit x st) = ss_audit st"
  "ss_approvals (emit x st) = ss_approvals st" "ss_ids (emit x st) = ss_ids st"
  by (simp_all add: emit_def)

lemmas action_iffs = bind_s_iff lift_s_iff read_s_def

lemma mint_id_state: "mint_id k m st = (r, st') \<Longrightarrow> \<exists>f. st' = st\<lparr>ss_ids := f\<rparr>"
  by (cases st) (auto simp: mint_id_def split: sum.splits prod.splits)

text \<open>A record of a call, whatever its id: what it says of the call and of the decision.\<close>

definition records :: "prepared_call \<Rightarrow> verdict \<Rightarrow> obligation \<Rightarrow> risk_assessment option \<Rightarrow> decision_record \<Rightarrow> bool" where
  "records pq v w risk r \<longleftrightarrow> dr_verdict r = v \<and> dr_obligation r = w \<and> dr_method r = pq_method pq
     \<and> dr_qualifiedName r = Some (pq_name pq) \<and> dr_risk r = risk \<and> dr_agent r = recorded_agent anonymous_agent
     \<and> dr_policy r = (case pq_decision pq of None \<Rightarrow> bypassed_policy | Some d \<Rightarrow> d)"

lemma make_record_state:
  assumes "make_record deps env pq v w risk st = (r, st')"
  shows "(\<exists>f. st' = st\<lparr>ss_ids := f\<rparr>) \<and> (\<forall>rec. r = Inr rec \<longrightarrow> records pq v w risk rec
    \<and> digest_of (de_sha deps) (payload_of pq) = Inr (dr_argsDigest rec))"
  using assms unfolding make_record_def
  by (auto simp: action_iffs records_def Let_def bind_r_Inr_iff dest: mint_id_state)

text \<open>After an append the record is in, or there is no log, or nothing happened and the call is refused.\<close>

lemma append_audit_cases:
  assumes "append_audit deps env rec st = (r, st')"
  obtains (unaudited) "ss_audit st = None" "r = Inr ()" "st' = st"
  | (failed) store e where "ss_audit st = Some store" "audit_append (de_sha deps) (ne_auditFault env) rec store = Inl e"
      "r = Inl (audit_refusal e)" "st' = st"
  | (stored) store store' where "ss_audit st = Some store"
      "audit_append (de_sha deps) (ne_auditFault env) rec store = Inr store'"
      "r = Inr ()" "st' = emit (Recorded rec) (st\<lparr>ss_audit := Some store'\<rparr>)"
  using assms unfolding append_audit_def by (auto split: option.splits sum.splits)

section \<open>How a call ends\<close>

text \<open>The rest of a deferred call: nothing, or a new pending request and perhaps its notification.\<close>

definition pending_request :: "prepared_call \<Rightarrow> approval_request \<Rightarrow> bool" where
  "pending_request pq q \<longleftrightarrow> ap_state q = Pending \<and> ap_agentId q = js ''anonymous'' \<and> ap_method q = pq_method pq
     \<and> ap_qualifiedName q = pq_name pq \<and> approval_params pq = Inr (ap_params q)
     \<and> ap_decidedAt q = None \<and> ap_approver q = None \<and> ap_reason q = None"

inductive suspension :: "request_env \<Rightarrow> prepared_call \<Rightarrow> gateway_state \<Rightarrow> gateway_state \<Rightarrow> bool" for env pq where
  none: "suspension env pq st (st\<lparr>ss_ids := f\<rparr>)"
| some: "pending_request pq q \<Longrightarrow> ss_approvals st = Some table \<Longrightarrow>
    create_approval (ne_approvalFault env) q table = Inr table' \<Longrightarrow>
    suspension env pq st (st\<lparr>ss_ids := f, ss_approvals := Some table',
      ss_trace := ss_trace st @ [Suspended q, Notified (ap_approvalId q) a d]\<rparr>)"

lemma suspend_call_state:
  assumes "suspend_call deps env pq st = (r, st')" "can_suspend deps st"
  shows "suspension env pq st st' \<and> (\<forall>i. r = Inr i \<longrightarrow> (\<exists>q a d. ap_approvalId q = i \<and> pending_request pq q
    \<and> ss_trace st' = ss_trace st @ [Suspended q, Notified i a d]
    \<and> ss_approvals st' = Some (opt_list (ss_approvals st) @ [q])))"
proof -
  from assms(2) obtain table sg where ts: "ss_approvals st = Some table" "de_signer deps = Some sg"
    by (auto simp: can_suspend_def)
  obtain m st1 where m: "mint_id KTask (ne_task env) st = (m, st1)" by fastforce
  from mint_id_state [OF this] obtain f where f: "st1 = st\<lparr>ss_ids := f\<rparr>" by blast
  have noth: "suspension env pq st (st\<lparr>ss_ids := f\<rparr>)" by (rule suspension.none)
  show ?thesis
  proof (cases m)
    case (Inl e)
    with assms(1) m f noth show ?thesis by (auto simp: suspend_call_def action_iffs)
  next
    case (Inr taskId)
    show ?thesis
    proof (cases "approval_params pq")
      case (Inl e)
      with assms(1) m f noth \<open>m = Inr taskId\<close> show ?thesis by (auto simp: suspend_call_def action_iffs)
    next
      case p: (Inr params)
      show ?thesis
      proof (cases "iso_timestamp (pq_start pq)")
        case (Inl e)
        with assms(1) m f noth \<open>m = Inr taskId\<close> p show ?thesis by (auto simp: suspend_call_def action_iffs)
      next
        case i: (Inr requestedAt)
        obtain q where q: "q = \<lparr>ap_approvalId = taskId, ap_agentId = js ''anonymous'', ap_method = pq_method pq,
          ap_qualifiedName = pq_name pq, ap_params = params, ap_state = Pending, ap_requestedAt = requestedAt,
          ap_decidedAt = None, ap_approver = None, ap_reason = None\<rparr>" by blast
        have pend: "pending_request pq q" using p by (simp add: pending_request_def q)
        show ?thesis
        proof (cases "create_approval (ne_approvalFault env) q table")
          case (Inl e)
          with assms(1) m f noth \<open>m = Inr taskId\<close> p i ts q show ?thesis
            by (auto simp: suspend_call_def action_iffs create_in_def opt_list_def)
        next
          case c: (Inr table')
          obtain a d where st': "r = Inr taskId" "st' = st\<lparr>ss_ids := f, ss_approvals := Some table',
              ss_trace := ss_trace st @ [Suspended q, Notified taskId a d]\<rparr>"
            using assms(1) m f \<open>m = Inr taskId\<close> p i ts q c
            by (auto simp: suspend_call_def action_iffs create_in_def opt_list_def notify_def emit_def)
          have "table' = table @ [q]"
            using c by (auto simp: create_approval_def q split: option.splits if_splits)
          with st' suspension.some [OF pend ts(1) c, where f = f and a = a and d = d] pend ts(1) show ?thesis
            by (auto simp: q opt_list_def)
        qed
      qed
    qed
  qed
qed

definition logged :: "server_deps \<Rightarrow> request_env \<Rightarrow> decision_record \<Rightarrow> gateway_state \<Rightarrow> gateway_state \<Rightarrow> bool" where
  "logged deps env rec st st' \<longleftrightarrow> (ss_audit st = None \<and> st' = st) \<or>
     (\<exists>store store'. ss_audit st = Some store \<and> audit_append (de_sha deps) (ne_auditFault env) rec store = Inr store'
        \<and> st' = emit (Recorded rec) (st\<lparr>ss_audit := Some store'\<rparr>))"

lemma append_audit_logged:
  "append_audit deps env rec st = (Inr u, st') \<Longrightarrow> logged deps env rec st st'"
  "append_audit deps env rec st = (Inl e, st') \<Longrightarrow> st' = st"
  by (erule append_audit_cases; simp add: logged_def)+

text \<open>How the rest of a handler can leave the state.\<close>

inductive finished :: "server_deps \<Rightarrow> request_env \<Rightarrow> prepared_call \<Rightarrow> gateway_state \<Rightarrow> gateway_state \<Rightarrow> bool"
    for deps env pq where
  nothing: "finished deps env pq st (st\<lparr>ss_ids := f\<rparr>)"
| deferred: "assess_call deps env pq = Inr (risk, w) \<Longrightarrow> w \<noteq> Allow \<Longrightarrow> records pq VPending w risk rec \<Longrightarrow>
    logged deps env rec (st\<lparr>ss_ids := f\<rparr>) st2 \<Longrightarrow> suspension env pq st2 st3 \<Longrightarrow> finished deps env pq st st3"
| forwarded: "assess_call deps env pq = Inr (risk, Allow) \<Longrightarrow> records pq VAllow Allow risk rec \<Longrightarrow>
    digest_of (de_sha deps) (payload_of pq) = Inr (dr_argsDigest rec) \<Longrightarrow>
    logged deps env rec (st\<lparr>ss_ids := f\<rparr>) st2 \<Longrightarrow>
    finished deps env pq st (emit (Forwarded (pq_target pq)) (st2\<lparr>ss_registry := reg\<rparr>))"

lemma suspension_same: "suspension env pq st st"
  using suspension.none [of env pq st "ss_ids st"] by simp

lemma defer_call_finished:
  assumes "assess_call deps env pq = Inr (risk, w)" "w \<noteq> Allow" "defer_call deps env pq w risk st = (r, st')"
  shows "finished deps env pq st st'"
proof -
  obtain m st1 where m: "make_record deps env pq VPending w risk st = (m, st1)" by fastforce
  from make_record_state [OF this] obtain f where f: "st1 = st\<lparr>ss_ids := f\<rparr>"
    and rec: "\<And>rec. m = Inr rec \<Longrightarrow> records pq VPending w risk rec" by blast
  have no: "finished deps env pq st st1" unfolding f by (rule finished.nothing)
  show ?thesis
  proof (cases m)
    case (Inl e)
    with assms(3) m no show ?thesis by (auto simp: defer_call_def action_iffs)
  next
    case (Inr rec')
    obtain a st2 where a: "append_audit deps env rec' st1 = (a, st2)" by fastforce
    show ?thesis
    proof (cases a)
      case (Inl e)
      with append_audit_logged(2) a have "st2 = st1" by blast
      with assms(3) m a Inl \<open>m = Inr rec'\<close> no show ?thesis by (auto simp: defer_call_def action_iffs)
    next
      case (Inr u)
      with append_audit_logged(1) a have lg: "logged deps env rec' st1 st2" by blast
      have "suspension env pq st2 st'"
      proof (cases "can_suspend deps st2")
        case True
        obtain b st3 where b: "suspend_call deps env pq st2 = (b, st3)" by fastforce
        with assms(3) m a Inr \<open>m = Inr rec'\<close> True have "st' = st3" by (auto simp: defer_call_def action_iffs)
        with suspend_call_state [OF b True] show ?thesis by blast
      next
        case False
        with assms(3) m a Inr \<open>m = Inr rec'\<close> have "st' = st2" by (auto simp: defer_call_def action_iffs)
        then show ?thesis by (simp add: suspension_same)
      qed
      from finished.deferred [OF assms(1,2) rec [OF \<open>m = Inr rec'\<close>] lg [unfolded f] this] show ?thesis .
    qed
  qed
qed

lemma allow_call_logged:
  assumes "allow_call deps env pq risk st = (r, st')"
  shows "(\<exists>f. st' = st\<lparr>ss_ids := f\<rparr>) \<and> (\<exists>e. r = Inl e) \<or>
    (\<exists>rec f. r = Inr () \<and> records pq VAllow Allow risk rec \<and> digest_of (de_sha deps) (payload_of pq) = Inr (dr_argsDigest rec)
       \<and> logged deps env rec (st\<lparr>ss_ids := f\<rparr>) st')"
proof -
  obtain m st1 where m: "make_record deps env pq VAllow Allow risk st = (m, st1)" by fastforce
  from make_record_state [OF this] obtain f where f: "st1 = st\<lparr>ss_ids := f\<rparr>"
    and rec: "\<And>rec. m = Inr rec \<Longrightarrow> records pq VAllow Allow risk rec
      \<and> digest_of (de_sha deps) (payload_of pq) = Inr (dr_argsDigest rec)" by blast
  show ?thesis
  proof (cases m)
    case (Inl e)
    with assms m f show ?thesis by (auto simp: allow_call_def action_iffs)
  next
    case (Inr rec')
    with assms m have a: "append_audit deps env rec' st1 = (r, st')" by (auto simp: allow_call_def action_iffs)
    show ?thesis
    proof (cases r)
      case (Inl e)
      with append_audit_logged(2) a f show ?thesis by blast
    next
      case r: (Inr u)
      with append_audit_logged(1) a have "logged deps env rec' st1 st'" by blast
      with rec [OF Inr] r f show ?thesis by auto
    qed
  qed
qed

lemma finish_call_finished:
  assumes "finish_call_of deps env pq st = (r, st')"
  shows "finished deps env pq st st'"
proof (cases "assess_call deps env pq")
  case (Inl e)
  with assms have "st' = st" by (auto simp: finish_call_of_def action_iffs)
  moreover have "finished deps env pq st (st\<lparr>ss_ids := ss_ids st\<rparr>)" by (rule finished.nothing)
  ultimately show ?thesis by simp
next
  case (Inr x)
  then obtain risk w where a: "assess_call deps env pq = Inr (risk, w)" by (cases x) auto
  show ?thesis
  proof (cases "w = Allow")
    case False
    with assms a show ?thesis by (auto simp: finish_call_of_def action_iffs intro: defer_call_finished)
  next
    case True
    obtain b st1 where b: "allow_call deps env pq risk st = (b, st1)" by fastforce
    from allow_call_logged [OF this] show ?thesis
    proof (elim disjE exE conjE)
      fix f e assume "st1 = st\<lparr>ss_ids := f\<rparr>" "b = Inl e"
      with assms a True b show ?thesis by (auto simp: finish_call_of_def action_iffs intro: finished.nothing)
    next
      fix rec f assume rec: "b = Inr ()" "records pq VAllow Allow risk rec"
        "digest_of (de_sha deps) (payload_of pq) = Inr (dr_argsDigest rec)" "logged deps env rec (st\<lparr>ss_ids := f\<rparr>) st1"
      have "\<exists>reg. st' = emit (Forwarded (pq_target pq)) (st1\<lparr>ss_registry := reg\<rparr>)"
        using assms a True b rec(1)
        by (auto simp: finish_call_of_def action_iffs forward_prepared_def split: prod.splits)
      with finished.forwarded [OF a [unfolded True] rec(2,3,4)] show ?thesis by blast
    qed
  qed
qed

section \<open>What a handler has established when it suspends\<close>

definition action_for :: "jstring \<Rightarrow> mcp_action" where
  "action_for m = (if m = js_tools_call then CallTool else if m = js_resources_read then ReadResource else GetPrompt)"

definition resource_name :: "policy_resource \<Rightarrow> jstring" where
  "resource_name r = (case r of ToolTarget t \<Rightarrow> tt_qualifiedName t | ResourceTarget u _ _ _ _ _ \<Rightarrow> u
     | PromptTarget n _ _ _ _ _ \<Rightarrow> n | EndpointTarget \<Rightarrow> js ''gateway'')"

text \<open>A decision that permits this method on this name, by the engine when there is one.\<close>

definition permits :: "server_deps \<Rightarrow> jstring \<Rightarrow> jstring \<Rightarrow> policy_decision option \<Rightarrow> bool" where
  "permits deps m name decision = (case de_policy deps of
      None \<Rightarrow> decision = None
    | Some (bundle, isAuthorized) \<Rightarrow> (\<exists>rq d. decision = Some d \<and> evaluate bundle isAuthorized rq = Inr d
        \<and> pd_permit d \<and> er_principal rq = anonymous_agent \<and> er_action rq = action_for m
        \<and> resource_name (er_resource rq) = name))"

definition coherent :: "tool_catalog \<Rightarrow> bool" where
  "coherent cat \<longleftrightarrow> (\<forall>q e. catalog_get cat q = Some e \<longrightarrow> ct_qualifiedName e = q)"

lemma reachable_coherent: "catalog_reachable sha cfg scanner cfgs cat \<Longrightarrow> coherent cat"
  using get_indexed [of sha cfg scanner cfgs cat] by (auto simp: coherent_def indexed_ok_def)

lemma enforce_policy_permits:
  assumes "enforce_policy deps (action_for m) resource ctx = Inr d" "resource_name resource = name"
  shows "permits deps m name d"
proof (cases "de_policy deps")
  case None
  with assms show ?thesis by (simp add: enforce_policy_def permits_def)
next
  case (Some p)
  obtain bd auth where p: "p = (bd, auth)" by (cases p)
  obtain rq where rq: "rq = \<lparr>er_principal = anonymous_agent, er_action = action_for m, er_resource = resource,
      er_context = ctx\<rparr>" by blast
  from assms(1) Some p rq obtain e where "d = Some e" "evaluate bd auth rq = Inr e" "pd_permit e"
    by (auto simp: enforce_policy_def bind_r_Inr_iff split: if_splits)
  with Some p assms(2) rq show ?thesis unfolding permits_def by auto
qed

lemma route_of_target:
  assumes "route_of deps st m name params = Inr t"
  shows "ft_method t = m \<and> ft_qualifiedName t = name \<and> is_forward_method m"
proof -
  from assms obtain r where r: "route_request (de_sha deps) (gc_forward (de_config deps))
         \<lparr>gv_catalog = ss_catalog st, gv_registry = ss_registry st\<rparr> (build_inline_metadata m name)
         \<lparr>ir_method = Some (JString m), ir_params = Some (JObject params)\<rparr> = Inr r"
    and c: "(case r of ForwardRoute t \<Rightarrow> Inr t | DiscoverRoute \<Rightarrow> Inl (PlainError (js ''unexpected route kind for '' @ m))) = Inr t"
    unfolding route_of_def bind_r_Inr_iff by blast
  from c have "r = ForwardRoute t" by (cases r) auto
  with r have "route_request (de_sha deps) (gc_forward (de_config deps))
         \<lparr>gv_catalog = ss_catalog st, gv_registry = ss_registry st\<rparr> (build_inline_metadata m name)
         \<lparr>ir_method = Some (JString m), ir_params = Some (JObject params)\<rparr> = Inr (ForwardRoute t)" by simp
  then show ?thesis
    by (cases "strip_reserved_meta (get_prop params (js ''_meta''))")
      (auto simp: route_request_def Let_def bind_r_Inr_iff header_check_iff build_inline_metadata_def plain_object_def
        split: if_splits option.splits prod.splits)
qed

lemma prepare_call_parts:
  assumes "prepare_call deps env st m params = Inr pq"
  obtains t d where "pq_method pq = m" "pq_params pq = params" "pq_target pq = t" "pq_decision pq = d"
    "route_of deps st m (pq_name pq) params = Inr t"
    "(if m = js_tools_call then tool_decision deps env st (pq_name pq) params
      else if m = js_resources_read then resource_decision deps env st (pq_name pq) t
      else prompt_decision deps env st (pq_name pq) t) = Inr d"
proof -
  obtain n where n: "n = string_param (if m = js_resources_read then ''uri'' else ''name'') params" by blast
  from assms obtain t d where "route_of deps st m n params = Inr t"
    "(if m = js_tools_call then tool_decision deps env st n params
      else if m = js_resources_read then resource_decision deps env st n t
      else prompt_decision deps env st n t) = Inr d"
    "pq = \<lparr>pq_method = m, pq_name = n, pq_params = params, pq_target = t, pq_start = ne_start env, pq_decision = d\<rparr>"
    unfolding prepare_call_def Let_def bind_r_Inr_iff n [symmetric] sum.inject by blast
  note f = this
  have "pq_name pq = n" by (simp add: f(3))
  with f(1,2) have "route_of deps st m (pq_name pq) params = Inr t"
    "(if m = js_tools_call then tool_decision deps env st (pq_name pq) params
      else if m = js_resources_read then resource_decision deps env st (pq_name pq) t
      else prompt_decision deps env st (pq_name pq) t) = Inr d" by (simp_all only:)
  from that [OF _ _ _ _ this] show ?thesis by (simp add: f(3))
qed

lemma decision_permits:
  assumes "coherent (ss_catalog st)" "prepare_call deps env st m params = Inr pq"
  shows "permits deps m (pq_name pq) (pq_decision pq)"
proof (rule prepare_call_parts [OF assms(2)])
  fix t d
  assume d: "pq_decision pq = d" and c: "(if m = js_tools_call then tool_decision deps env st (pq_name pq) params
      else if m = js_resources_read then resource_decision deps env st (pq_name pq) t
      else prompt_decision deps env st (pq_name pq) t) = Inr d"
  show ?thesis
  proof (cases "de_policy deps = None")
    case True
    with c d show ?thesis
      by (auto simp: permits_def tool_decision_def resource_decision_def prompt_decision_def split: if_splits)
  next
    case False
  consider "m = js_tools_call" | "m \<noteq> js_tools_call" "m = js_resources_read" | "m \<noteq> js_tools_call" "m \<noteq> js_resources_read"
    by blast
  then show ?thesis
  proof cases
    case 1
    with c False obtain e ctx trust where e: "catalog_get (ss_catalog st) (pq_name pq) = Some e"
      and en: "enforce_policy deps CallTool (ToolTarget (tool_resource (catalog_target.truncate e)
          (gc_toolGroups (de_config deps)) trust)) ctx = Inr d"
      by (auto simp: tool_decision_def Let_def bind_r_Inr_iff split: option.splits)
    have "tt_qualifiedName (tool_resource (catalog_target.truncate e) (gc_toolGroups (de_config deps)) trust) = pq_name pq"
      using assms(1) e by (simp add: coherent_def tool_resource_def Let_def catalog_target.truncate_def)
    with 1 en d show ?thesis
      using enforce_policy_permits [of deps m] by (auto simp: action_for_def resource_name_def)
  next
    case 2
    with c False d enforce_policy_permits [of deps m] show ?thesis
      by (auto simp: resource_decision_def Let_def bind_r_Inr_iff action_for_def resource_name_def)
  next
    case 3
    with c False d enforce_policy_permits [of deps m] show ?thesis
      by (auto simp: prompt_decision_def Let_def bind_r_Inr_iff action_for_def resource_name_def)
  qed
qed
qed

text \<open>A call in waiting: its target is the one it names, and its decision permits it.\<close>

definition cleared :: "server_deps \<Rightarrow> prepared_call \<Rightarrow> bool" where
  "cleared deps pq \<longleftrightarrow> permits deps (pq_method pq) (pq_name pq) (pq_decision pq)
     \<and> ft_method (pq_target pq) = pq_method pq \<and> ft_qualifiedName (pq_target pq) = pq_name pq"

lemma prepare_cleared:
  assumes "coherent (ss_catalog st)" "prepare_call deps env st m params = Inr pq"
  shows "cleared deps pq"
proof (rule prepare_call_parts [OF assms(2)])
  fix t assume "pq_method pq = m" "pq_target pq = t" "route_of deps st m (pq_name pq) params = Inr t"
  with decision_permits [OF assms] route_of_target [of deps st m "pq_name pq" params t] show ?thesis
    by (simp add: cleared_def)
qed

section \<open>Interleaved requests\<close>

text \<open>
  A handler runs from one suspension to the next without interruption. Calls wait for their risk
  assessment in any number and resume in any order; in between other requests arrive, suspended calls are
  decided by tool, by link or cancelled, and the registry and the catalog change as they like. The process
  may also end at any moment and start again on the same configuration: the calls that waited are gone, the
  databases are opened again, the id generator is new, and the trace is the history of all the processes.
\<close>

record live =
  lv_state :: gateway_state
  lv_waiting :: "prepared_call list"

inductive live_step :: "server_deps \<Rightarrow> live \<Rightarrow> live \<Rightarrow> bool" for deps where
  arrive: "m = js_tools_call \<longrightarrow> \<not> is_sentinel_own_tool (string_param ''name'' params) \<Longrightarrow>
    prepare_call deps env st m params = Inr pq \<Longrightarrow>
    live_step deps \<lparr>lv_state = st, lv_waiting = ps\<rparr> \<lparr>lv_state = st, lv_waiting = pq # ps\<rparr>"
| resume: "pq \<in> set ps \<Longrightarrow> finish_call_of deps env pq st = (r, st') \<Longrightarrow>
    live_step deps \<lparr>lv_state = st, lv_waiting = ps\<rparr> \<lparr>lv_state = st', lv_waiting = remove1 pq ps\<rparr>"
| approve: "handle_approve_request deps env args st = (r, st') \<Longrightarrow>
    live_step deps \<lparr>lv_state = st, lv_waiting = ps\<rparr> \<lparr>lv_state = st', lv_waiting = ps\<rparr>"
| cancel: "handle_tasks_cancel env params st = (r, st') \<Longrightarrow>
    live_step deps \<lparr>lv_state = st, lv_waiting = ps\<rparr> \<lparr>lv_state = st', lv_waiting = ps\<rparr>"
| link: "handle_link deps env decision i token st = (reply, st') \<Longrightarrow>
    live_step deps \<lparr>lv_state = st, lv_waiting = ps\<rparr> \<lparr>lv_state = st', lv_waiting = ps\<rparr>"
| surroundings: "coherent cat \<Longrightarrow>
    live_step deps \<lparr>lv_state = st, lv_waiting = ps\<rparr>
      \<lparr>lv_state = st\<lparr>ss_registry := reg, ss_catalog := cat\<rparr>, lv_waiting = ps\<rparr>"
| restart: "coherent cat \<Longrightarrow>
    live_step deps \<lparr>lv_state = st, lv_waiting = ps\<rparr>
      \<lparr>lv_state = st\<lparr>ss_registry := reg, ss_catalog := cat, ss_ids := new_factory,
         ss_audit := map_option (\<lambda>store. open_store (au_rows store) (au_nextSequence store)) (ss_audit st)\<rparr>,
       lv_waiting = []\<rparr>"

inductive_cases live_stepE: "live_step deps s s'"

text \<open>
  The first start: no request yet, an empty log and an empty table where there are any. A process that finds
  the databases of an earlier one is a \<open>restart\<close> further down the same run.
\<close>

definition starts :: "live \<Rightarrow> bool" where
  "starts s \<longleftrightarrow> lv_waiting s = [] \<and> ss_trace (lv_state s) = [] \<and> coherent (ss_catalog (lv_state s))
     \<and> ss_audit (lv_state s) \<in> {None, Some (open_store [] 1)} \<and> ss_approvals (lv_state s) \<in> {None, Some []}"

inductive live_reachable :: "server_deps \<Rightarrow> live \<Rightarrow> live \<Rightarrow> bool" for deps s0 where
  start: "starts s0 \<Longrightarrow> live_reachable deps s0 s0"
| step: "live_reachable deps s0 s \<Longrightarrow> live_step deps s s' \<Longrightarrow> live_reachable deps s0 s'"

subsection \<open>Forwarding follows permission and record\<close>

text \<open>
  What a record must say for its call to go out: an \<open>allow\<close> for this method and name, the permitting
  decision of the engine when there is one, and a risk that escalates nothing when it is assessed.
\<close>

definition grants :: "server_deps \<Rightarrow> decision_record \<Rightarrow> forward_target \<Rightarrow> bool" where
  "grants deps r t \<longleftrightarrow> dr_verdict r = VAllow \<and> dr_obligation r = Allow
     \<and> dr_method r = ft_method t \<and> dr_qualifiedName r = Some (ft_qualifiedName t)
     \<and> (\<exists>decision. permits deps (ft_method t) (ft_qualifiedName t) decision
         \<and> dr_policy r = (case decision of None \<Rightarrow> bypassed_policy | Some d \<Rightarrow> d))
     \<and> (case de_risk deps of None \<Rightarrow> pd_obligation (dr_policy r) = Allow
        | Some (c, _) \<Rightarrow> \<exists>risk. dr_risk r = Some risk
            \<and> escalate_obligation c (pd_obligation (dr_policy r)) risk = Allow)"

text \<open>In a trace every forward comes straight after the record that grants it.\<close>

definition justified :: "server_deps \<Rightarrow> server_effect list \<Rightarrow> bool" where
  "justified deps tr \<longleftrightarrow> (\<forall>a t b. tr = a @ Forwarded t # b \<longrightarrow> (\<exists>a' r. a = a' @ [Recorded r] \<and> grants deps r t))"

lemma justified_Nil [simp]: "justified deps []"
  by (simp add: justified_def)

lemma justified_snoc:
  "justified deps (tr @ [x]) \<longleftrightarrow> justified deps tr \<and>
     (\<forall>t. x = Forwarded t \<longrightarrow> (\<exists>a r. tr = a @ [Recorded r] \<and> grants deps r t))"
proof
  assume j: "justified deps (tr @ [x])"
  have "justified deps tr" unfolding justified_def
  proof (intro allI impI)
    fix a t b assume "tr = a @ Forwarded t # b"
    then have "tr @ [x] = a @ Forwarded t # (b @ [x])" by simp
    with j show "\<exists>a' r. a = a' @ [Recorded r] \<and> grants deps r t" unfolding justified_def by blast
  qed
  moreover have "\<forall>t. x = Forwarded t \<longrightarrow> (\<exists>a r. tr = a @ [Recorded r] \<and> grants deps r t)"
    using j unfolding justified_def by blast
  ultimately show "justified deps tr \<and> (\<forall>t. x = Forwarded t \<longrightarrow> (\<exists>a r. tr = a @ [Recorded r] \<and> grants deps r t))" by blast
next
  assume r: "justified deps tr \<and> (\<forall>t. x = Forwarded t \<longrightarrow> (\<exists>a r. tr = a @ [Recorded r] \<and> grants deps r t))"
  show "justified deps (tr @ [x])" unfolding justified_def
  proof (intro allI impI)
    fix a t b assume eq: "tr @ [x] = a @ Forwarded t # b"
    show "\<exists>a' r. a = a' @ [Recorded r] \<and> grants deps r t"
    proof (cases b rule: rev_cases)
      case Nil
      with eq r show ?thesis by auto
    next
      case (snoc ys y)
      with eq have "tr = a @ Forwarded t # ys" by simp
      with r show ?thesis unfolding justified_def by blast
    qed
  qed
qed

lemma justified_pair: "justified deps tr \<Longrightarrow> grants deps r t \<Longrightarrow> justified deps (tr @ [Recorded r, Forwarded t])"
  using justified_snoc [of deps "tr @ [Recorded r]" "Forwarded t"] justified_snoc [of deps tr "Recorded r"] by simp

text \<open>The clearance of a waiting call and the assessment that followed make a granting record.\<close>

lemma records_grant:
  assumes "cleared deps pq" "assess_call deps env pq = Inr (risk, Allow)" "records pq VAllow Allow risk rec"
  shows "grants deps rec (pq_target pq)"
proof -
  have ob: "pd_obligation (dr_policy rec) = (case pq_decision pq of None \<Rightarrow> Allow | Some d \<Rightarrow> pd_obligation d)"
    using assms(3) by (simp add: records_def bypassed_policy_def split: option.splits)
  have risk: "(case de_risk deps of None \<Rightarrow> pd_obligation (dr_policy rec) = Allow
        | Some (c, _) \<Rightarrow> \<exists>risk. dr_risk rec = Some risk
            \<and> escalate_obligation c (pd_obligation (dr_policy rec)) risk = Allow)"
  proof (cases "de_risk deps")
    case None
    with assms(2) ob show ?thesis by (simp add: assess_call_def)
  next
    case (Some p)
    obtain c provider where p: "p = (c, provider)" by (cases p)
    have "\<not> (case pq_decision pq of None \<Rightarrow> False | Some d \<Rightarrow> \<not> pd_permit d)"
      using assms(1) by (auto simp: cleared_def permits_def split: option.splits prod.splits)
    with Some p assms(2,3) ob show ?thesis
      by (auto simp: assess_call_def Let_def bind_r_Inr_iff records_def)
  qed
  with assms(1,3) show ?thesis unfolding grants_def cleared_def records_def by auto
qed

subsection \<open>The invariant\<close>

definition recorded_in :: "server_effect list \<Rightarrow> decision_record list" where
  "recorded_in tr = List.map_filter (\<lambda>x. case x of Recorded r \<Rightarrow> Some r | _ \<Rightarrow> None) tr"

definition row_records :: "audit_row \<Rightarrow> decision_record \<Rightarrow> bool" where
  "row_records row r \<longleftrightarrow> au_decisionId row = dr_decisionId r \<and> au_verdict row = verdict_text (dr_verdict r)
     \<and> canonicalize (record_value r) = Inr (au_recordJson row)"

text \<open>The log holds the records of the trace, one row each and in order, in a sound chain.\<close>

definition log_ok :: "server_deps \<Rightarrow> gateway_state \<Rightarrow> bool" where
  "log_ok deps st \<longleftrightarrow> (case ss_audit st of
      None \<Rightarrow> recorded_in (ss_trace st) = []
    | Some store \<Rightarrow> audit_reachable (de_sha deps) store
        \<and> list_all2 row_records (au_rows store) (recorded_in (ss_trace st))
        \<and> justified deps (ss_trace st))"

definition table_ok :: "gateway_state \<Rightarrow> bool" where
  "table_ok st \<longleftrightarrow> (case ss_approvals st of None \<Rightarrow> True
     | Some table \<Rightarrow> wf_table table \<and> (\<forall>q \<in> set table. ap_agentId q = js ''anonymous''))"

definition live_inv :: "server_deps \<Rightarrow> live \<Rightarrow> bool" where
  "live_inv deps s \<longleftrightarrow> coherent (ss_catalog (lv_state s)) \<and> (\<forall>pq \<in> set (lv_waiting s). cleared deps pq)
     \<and> log_ok deps (lv_state s) \<and> table_ok (lv_state s)"

lemma recorded_in_append [simp]:
  "recorded_in (a @ b) = recorded_in a @ recorded_in b" "recorded_in [] = []"
  "recorded_in (Recorded r # b) = r # recorded_in b" "recorded_in (Suspended q # b) = recorded_in b"
  "recorded_in (Notified i a' d # b) = recorded_in b" "recorded_in (Forwarded t # b) = recorded_in b"
  by (simp_all add: recorded_in_def List.map_filter_def)

lemma log_ok_cong: "ss_audit st' = ss_audit st \<Longrightarrow> ss_trace st' = ss_trace st \<Longrightarrow> log_ok deps st' = log_ok deps st"
  by (simp add: log_ok_def split: option.splits)

lemma table_ok_cong: "ss_approvals st' = ss_approvals st \<Longrightarrow> table_ok st' = table_ok st"
  by (simp add: table_ok_def)

lemma ids_irrelevant [simp]:
  "log_ok deps (st\<lparr>ss_ids := f\<rparr>) = log_ok deps st" "table_ok (st\<lparr>ss_ids := f\<rparr>) = table_ok st"
  by (rule log_ok_cong table_ok_cong; simp)+

lemma log_ok_quiet:
  assumes "log_ok deps st" "ss_audit st' = ss_audit st" "ss_trace st' = ss_trace st @ [Suspended q, Notified i a d]"
  shows "log_ok deps st'"
  using assms justified_snoc [of deps "ss_trace st @ [Suspended q]" "Notified i a d"]
    justified_snoc [of deps "ss_trace st" "Suspended q"]
  by (simp add: log_ok_def split: option.splits)

lemma log_ok_logged:
  assumes "log_ok deps st" "logged deps env rec st st'"
  shows "log_ok deps st'"
  using assms(2) unfolding logged_def
proof (elim disjE exE conjE)
  fix store store'
  assume s: "ss_audit st = Some store" "audit_append (de_sha deps) (ne_auditFault env) rec store = Inr store'"
    and st': "st' = emit (Recorded rec) (st\<lparr>ss_audit := Some store'\<rparr>)"
  from assms(1) s(1) have ok: "audit_reachable (de_sha deps) store"
    "list_all2 row_records (au_rows store) (recorded_in (ss_trace st))" "justified deps (ss_trace st)"
    by (simp_all add: log_ok_def)
  have "\<exists>row. au_rows store' = au_rows store @ [row] \<and> row_records row rec"
    using s(2) by (rule append_cases) (auto simp: row_records_def)
  with ok(2) have "list_all2 row_records (au_rows store') (recorded_in (ss_trace st) @ [rec])"
    by (auto intro!: list_all2_appendI)
  moreover have "justified deps (ss_trace st @ [Recorded rec])" using ok(3) by (simp add: justified_snoc)
  ultimately show "log_ok deps st'"
    using audit_reachable.append [OF ok(1) s(2)] by (simp add: log_ok_def st')
qed (use assms(1) in simp)

lemma logged_same:
  assumes "logged deps env rec st st'"
  shows "ss_catalog st' = ss_catalog st \<and> ss_registry st' = ss_registry st \<and> ss_approvals st' = ss_approvals st"
  using assms by (auto simp: logged_def)

lemma logged_keeps:
  assumes "logged deps env rec (st\<lparr>ss_ids := f\<rparr>) st2" "log_ok deps st" "table_ok st"
  shows "log_ok deps st2 \<and> table_ok st2 \<and> ss_catalog st2 = ss_catalog st"
proof -
  have "log_ok deps (st\<lparr>ss_ids := f\<rparr>)" using assms(2) by simp
  from log_ok_logged [OF this assms(1)] logged_same [OF assms(1)] assms(3)
    table_ok_cong [of st2 st] show ?thesis by simp
qed

lemma suspension_keeps:
  assumes "suspension env pq st st'" "log_ok deps st" "table_ok st"
  shows "log_ok deps st' \<and> table_ok st' \<and> ss_catalog st' = ss_catalog st \<and> ss_registry st' = ss_registry st"
  using assms
proof (induction rule: suspension.induct)
  case (none st f)
  then show ?case by simp
next
  case (some q st table table' a d f)
  have "table' = table @ [q\<lparr>ap_decidedAt := None, ap_approver := None, ap_reason := None\<rparr>]"
    using some(3) by (auto simp: create_approval_def split: option.splits if_splits)
  with some(1,2,5) wf_create [OF _ some(3)]
  have "table_ok (st\<lparr>ss_ids := f, ss_approvals := Some table',
      ss_trace := ss_trace st @ [Suspended q, Notified (ap_approvalId q) a d]\<rparr>)"
    by (auto simp: table_ok_def pending_request_def)
  with log_ok_quiet [OF some(4)] show ?case by simp
qed

lemma finished_keeps:
  assumes "finished deps env pq st st'" "cleared deps pq" "log_ok deps st" "table_ok st"
  shows "log_ok deps st' \<and> table_ok st' \<and> ss_catalog st' = ss_catalog st"
  using assms
proof (induction rule: finished.induct)
  case (nothing st f)
  then show ?case by simp
next
  case (deferred risk w rec f st st2 st3)
  have "log_ok deps st2" "table_ok st2" "ss_catalog st2 = ss_catalog st"
    using logged_keeps [OF deferred.hyps(4)] deferred.prems by simp_all
  with suspension_keeps [OF deferred.hyps(5)] show ?case by simp
next
  case (forwarded risk rec f st st2 reg)
  have ok: "log_ok deps st2" "table_ok st2" "ss_catalog st2 = ss_catalog st"
    using logged_keeps [OF forwarded.hyps(4)] forwarded.prems by simp_all
  have g: "grants deps rec (pq_target pq)"
    by (rule records_grant [OF forwarded.prems(1) forwarded.hyps(1,2)])
  have "log_ok deps (emit (Forwarded (pq_target pq)) (st2\<lparr>ss_registry := reg\<rparr>))"
  proof (cases "ss_audit st2")
    case None
    with ok(1) show ?thesis by (simp add: log_ok_def)
  next
    case (Some store)
    with forwarded.hyps(4) have "ss_trace st2 = ss_trace st @ [Recorded rec]" by (auto simp: logged_def)
    with Some ok(1) g show ?thesis by (simp add: log_ok_def justified_snoc justified_pair)
  qed
  with ok show ?case by (simp add: table_ok_def)
qed

text \<open>In the gateway's own tables every request is the anonymous agent's, so its own approval is refused.\<close>

lemma approve_request_idle:
  assumes "table_ok st" "handle_approve_request deps env args st = (r, st')"
  shows "st' = st \<and> (\<exists>message. r = Inr (error_result message))"
proof -
  have anon: "ap_agentId a = js ''anonymous''" if "ss_approvals st = Some table" "get_approval i table = Some a" for table i a
    using assms(1) that by (auto simp: table_ok_def get_approval_def dest: find_Some_iff_first)
  show ?thesis using assms(2) anon unfolding handle_approve_request_def
    by (auto split: option.splits jvalue.splits sum.splits prod.splits if_splits)
qed

lemma decided_keeps:
  assumes "table_ok st" "log_ok deps st" "ss_approvals st = Some table" "update_state f d i w a r table = Inr table'"
  shows "table_ok (st\<lparr>ss_approvals := Some table'\<rparr>) \<and> log_ok deps (st\<lparr>ss_approvals := Some table'\<rparr>)"
proof -
  have "\<forall>q \<in> set table'. ap_agentId q = js ''anonymous''"
    using assms(1,3,4) by (auto simp: table_ok_def update_state_def Let_def split: option.splits if_splits)
  with wf_update [OF _ assms(4)] assms(1,3) have "table_ok (st\<lparr>ss_approvals := Some table'\<rparr>)"
    by (simp add: table_ok_def)
  with assms(2) log_ok_cong [of "st\<lparr>ss_approvals := Some table'\<rparr>" st] show ?thesis by simp
qed

lemma tasks_cancel_keeps:
  assumes "table_ok st" "log_ok deps st" "handle_tasks_cancel env params st = (r, st')"
  shows "table_ok st' \<and> log_ok deps st' \<and> ss_catalog st' = ss_catalog st"
proof (cases "ss_approvals st")
  case None
  with assms show ?thesis by (auto simp: handle_tasks_cancel_def)
next
  case (Some table)
  show ?thesis
  proof (cases "update_state (ne_approvalFault env) (ne_decidedAt env) (string_param ''taskId'' params) Denied
      (Some (js ''agent-cancel'')) (Some (js ''Cancelled via tasks/cancel'')) table")
    case (Inl e)
    with Some assms show ?thesis by (auto simp: handle_tasks_cancel_def)
  next
    case u: (Inr table')
    with Some assms(3) have st': "st' = st\<lparr>ss_approvals := Some table'\<rparr>"
      by (auto simp: handle_tasks_cancel_def)
    from decided_keeps [OF assms(1,2) Some u] show ?thesis by (simp add: st')
  qed
qed

lemma live_step_keeps:
  assumes "live_step deps s s'" "live_inv deps s"
  shows "live_inv deps s'"
  using assms
proof (induction rule: live_step.induct)
  case (arrive m params env st pq ps)
  with prepare_cleared show ?case by (auto simp: live_inv_def)
next
  case (resume pq ps env st r st')
  with finished_keeps [OF finish_call_finished [OF resume(2)]] show ?case
    by (auto simp: live_inv_def dest: notin_set_remove1)
next
  case (approve env args st r st' ps)
  with approve_request_idle [OF _ approve(1)] show ?case by (simp add: live_inv_def)
next
  case (cancel env params st r st' ps)
  with tasks_cancel_keeps [OF _ _ cancel(1)] show ?case by (auto simp: live_inv_def)
next
  case (link env decision i token st reply st' ps)
  with handle_link_cases [OF link(1)] decided_keeps [of st deps] show ?case by (auto simp: live_inv_def)
next
  case (surroundings cat st ps reg)
  then show ?case by (auto simp: live_inv_def log_ok_def table_ok_def split: option.splits)
next
  case (restart cat st ps reg)
  then show ?case
    by (auto simp: live_inv_def log_ok_def table_ok_def open_store_def split: option.splits
        dest: audit_reachable.reopen)
qed

lemma starts_inv: "starts s \<Longrightarrow> live_inv deps s"
proof -
  assume "starts s"
  moreover have "au_rows (open_store [] 1) = []" by (simp add: open_store_def)
  ultimately show ?thesis
    by (auto simp: starts_def live_inv_def log_ok_def table_ok_def wf_table_def simp del: One_nat_def
        intro: audit_reachable.fresh)
qed

lemma live_reachable_inv: "live_reachable deps s0 s \<Longrightarrow> live_inv deps s"
  by (induction rule: live_reachable.induct) (auto intro: starts_inv live_step_keeps)

section \<open>A sample run\<close>

text \<open>A gateway in front of one HTTP server, without engines; a prompt of that server is asked for.\<close>

definition sample_settings :: gateway_config where
  "sample_settings = \<lparr>gc_instanceName = js ''gw'', gc_http = default_http, gc_policyDir = [], gc_auditDb = [],
     gc_workspaceRoot = js ''/ws'', gc_upstream = default_pool, gc_catalog = default_catalog,
     gc_forward = default_forward, gc_risk = default_risk, gc_approval = None, gc_approvalDb = [],
     gc_servers = [sample_server Trusted], gc_toolGroups = []\<rparr>"

definition sample_deps :: "(risk_config \<times> llm_provider option) option \<Rightarrow> server_deps" where
  "sample_deps risk = \<lparr>de_sha = take 2, de_hmac = (\<lambda>_ _. []), de_cwd = js ''/'', de_url_protocol = Inr,
     de_config = sample_settings, de_policy = None, de_risk = risk, de_scanner = None,
     de_signer = Some (new_signer [] None), de_notifier = True, de_input_required = (\<lambda>_. False)\<rparr>"

definition sample_mint :: mint where
  "sample_mint = \<lparr>mt_now = 0, mt_bytes = replicate 16 0\<rparr>"

definition sample_env :: "jstring option \<Rightarrow> request_env" where
  "sample_env fault = \<lparr>ne_start = 0, ne_wall = 0, ne_riskLatency = num_of_int 0, ne_later = 0,
     ne_decision = sample_mint, ne_task = sample_mint, ne_approveAt = 0, ne_denyAt = 0, ne_decidedAt = [],
     ne_auditFault = fault, ne_approvalFault = None,
     ne_answer = \<lparr>ua_ready = Inl TypeError, ua_generation = 0, ua_sdk = (\<lambda>_. Inr JNull), ua_started = 0, ua_finished = 0\<rparr>\<rparr>"

definition sample_state :: gateway_state where
  "sample_state = \<lparr>ss_registry = build_registry [sample_server Trusted], ss_catalog = empty_catalog,
     ss_audit = Some (open_store [] 1), ss_approvals = Some [], ss_ids = new_factory, ss_trace = []\<rparr>"

definition sample_params :: "jvalue props" where
  "sample_params = [(js ''name'', JString (js ''files__read''))]"

lemma sample_starts: "starts \<lparr>lv_state = sample_state, lv_waiting = []\<rparr>"
  by (simp add: starts_def sample_state_def coherent_def catalog_get_def empty_catalog_def)

text \<open>What the sample run needs of a gateway and of the state it starts in.\<close>

definition sample_like :: "server_deps \<Rightarrow> gateway_state \<Rightarrow> bool" where
  "sample_like deps st \<longleftrightarrow> de_sha deps = take 2 \<and> de_config deps = sample_settings \<and> de_policy deps = None
     \<and> ss_registry st = build_registry [sample_server Trusted]
     \<and> (\<exists>scanner. catalog_reachable (take 2) default_catalog scanner [sample_server Trusted] (ss_catalog st))
     \<and> ss_ids st = new_factory \<and> ss_audit st = Some (open_store [] 1) \<and> ss_trace st = []"

lemma sample_is_like: "sample_like (sample_deps risk) sample_state"
  using catalog_start by (auto simp: sample_like_def sample_deps_def sample_state_def)

lemma like_prepared:
  assumes like: "sample_like deps st"
  shows "\<exists>pq. prepare_call deps (sample_env fault) st js_prompts_get sample_params = Inr pq
     \<and> pq_start pq = 0 \<and> pq_method pq = js_prompts_get \<and> pq_params pq = sample_params \<and> pq_decision pq = None"
proof -
  from like obtain scanner where d0: "de_sha deps = take 2" "de_config deps = sample_settings" "de_policy deps = None"
    and reg: "ss_registry st = build_registry [sample_server Trusted]"
    and cat0: "catalog_reachable (take 2) default_catalog scanner [sample_server Trusted] (ss_catalog st)"
    by (auto simp: sample_like_def)
  let ?gw = "\<lparr>gv_catalog = ss_catalog st, gv_registry = build_registry [sample_server Trusted]\<rparr>"
  let ?md = "build_inline_metadata js_prompts_get (js ''files__read'')"
  let ?rq = "\<lparr>ir_method = Some (JString js_prompts_get), ir_params = Some (JObject sample_params)\<rparr>"
  have m: "forward_method js_prompts_get" "mcp_name_source_field js_prompts_get = Some (js ''name'')"
    "js_prompts_get \<noteq> discover_method" "js_prompts_get \<noteq> js_tools_call" "js_prompts_get \<noteq> js_resources_read"
    by (simp_all add: forward_method_def mcp_name_source_field_def discover_method_def js_prompts_get_def
        js_tools_call_def js_resources_read_def)
  obtain d where d: "measure_params (take 2) default_forward sample_params = Inr d"
    using sample_screened by (auto simp: screened_def sample_call_def plain_object_def sample_params_def)
  have scr: "screened (take 2) default_forward ?md ?rq js_prompts_get sample_params (js ''name'') (js ''files__read'') d"
    using d m by (simp add: screened_def plain_object_def header_check_iff build_inline_metadata_def sample_params_def)
  have "parse_qualified_prompt_name (js ''files__read'') = Some (js ''files'', js ''read'')"
    unfolding prompt_parse_is_tool_parse by code_simp
  moreover have "registry_get (build_registry [sample_server Trusted]) (js ''files'') = Some (new_upstream_client (sample_server Trusted))"
    by (simp add: build_registry_def registry_get_def sample_server_def)
  ultimately have res: "resolve_target default_forward ?gw js_prompts_get KPrompt (js ''files__read'')
      = Inr (js ''files'', js ''read'', None)"
    using m by (simp add: resolve_target_def require_dialable_def client_dialable_def new_upstream_client_def sample_server_def)
  have cat: "catalog_reachable (take 2) default_catalog scanner [sample_server Trusted] (gv_catalog ?gw)"
    using cat0 by simp
  have "parse_qualified_resource_uri (js ''files__read'') = Inr None"
    by (simp add: parse_qualified_resource_uri_def resource_uri_prefix_def starts_with_def js_def)
  then have out: "assert_outbound js_prompts_get (js ''read'') (forwarded_params sample_params (js ''name'') (js ''read'') x)
      = Inr js_prompts_get" for x
    using resolved_outbound [OF cat m(1,2) res, of sample_params x] by auto
  have k: "target_kind js_prompts_get = KPrompt" using m by (simp add: target_kind_def)
  from route_screened [of "take 2" default_forward ?md ?rq js_prompts_get sample_params "js ''name''"
      "js ''files__read''" "fst d" "snd d" ?gw] scr
  have "\<exists>t. route_request (take 2) default_forward ?gw ?md ?rq = Inr (ForwardRoute t)"
    by (simp add: res out k Let_def split: prod.splits)
  then show ?thesis
    using m by (auto simp: prepare_call_def route_of_def d0 reg sample_settings_def
        string_param_def sample_params_def prompt_decision_def sample_env_def Let_def)
qed

lemmas sample_prepared = like_prepared [OF sample_is_like]

text \<open>Identifiers, times and digests of the sample can be made.\<close>

lemma sample_minted: "\<exists>i f. mint_id k sample_mint st = (Inr i, f)" if "ss_ids st = new_factory" for st
  using that by (simp add: mint_id_def sample_mint_def new_id_def next_ulid_def assert_timestamp_in_range_def
      max_time_def new_factory_def Let_def)

lemma like_record:
  assumes "pq_start pq = 0" "canonical_ok (payload_of pq)" "ss_ids st = new_factory" "de_sha deps = take 2"
  shows "\<exists>rec st1. make_record deps (sample_env fault) pq v w k st = (Inr rec, st1)"
proof -
  obtain i st1 where i: "mint_id KDecision sample_mint st = (Inr i, st1)" using sample_minted [OF assms(3)] by blast
  obtain t where t: "iso_timestamp 0 = Inr t" by (cases "civil_of_days 0") (simp add: iso_timestamp_def)
  obtain d where d: "digest_of (take 2) (payload_of pq) = Inr d"
    using canonicalize_Inr [OF assms(2)] by (simp add: digest_of_def)
  show ?thesis
    using i t d assms(1,4)
    by (simp add: make_record_def bind_s_def read_s_def lift_s_def sample_env_def Let_def)
qed

lemma sample_sha: "de_sha (sample_deps risk) = take 2"
  by (simp add: sample_deps_def)

lemmas sample_record = like_record [OF _ _ _ sample_sha]

lemma sample_appends:
  assumes "records pq v w risk rec" "case risk of None \<Rightarrow> True | Some x \<Rightarrow> finite_num (ra_latencyMs x)"
  shows "\<exists>store. audit_append (take 2) None rec (open_store [] 1) = Inr store"
proof -
  from assms have "record_ok rec" by (simp add: records_def record_ok_def recorded_agent_def list_all_iff)
  from canonicalize_Inr [OF record_value_ok [OF this]] show ?thesis
    by (simp add: audit_append_def insert_row_def open_store_def Let_def)
qed

lemma sample_ids: "ss_ids sample_state = new_factory"
  by (simp add: sample_state_def)

lemma like_run:
  assumes like: "sample_like deps st" and st: "starts \<lparr>lv_state = st, lv_waiting = []\<rparr>"
    and assess: "\<And>pq. pq_method pq = js_prompts_get \<Longrightarrow> pq_params pq = sample_params \<Longrightarrow> pq_decision pq = None \<Longrightarrow>
      assess_call deps (sample_env None) pq = Inr (risk, Allow)"
    and fin: "case risk of None \<Rightarrow> True | Some x \<Rightarrow> finite_num (ra_latencyMs x)"
  shows "\<exists>s r t. live_reachable deps \<lparr>lv_state = st, lv_waiting = []\<rparr> s
     \<and> ss_audit (lv_state s) \<noteq> None \<and> ss_trace (lv_state s) = [Recorded r] @ Forwarded t # []"
proof -
  let ?env = "sample_env None" and ?s0 = "\<lparr>lv_state = st, lv_waiting = []\<rparr>"
  obtain pq where pq: "prepare_call deps ?env st js_prompts_get sample_params = Inr pq" "pq_start pq = 0"
    "pq_method pq = js_prompts_get" "pq_params pq = sample_params" "pq_decision pq = None"
    using like_prepared [OF like] by blast
  have ntc: "js_prompts_get \<noteq> js_tools_call" by (simp add: js_prompts_get_def js_tools_call_def)
  have pay: "canonical_ok (payload_of pq)"
    using pq(3,4) ntc by (simp add: payload_of_def sample_params_def)
  note a = assess [OF pq(3,4,5)]
  from like have d: "de_sha deps = take 2" "ss_ids st = new_factory" "ss_audit st = Some (open_store [] 1)" "ss_trace st = []"
    by (simp_all add: sample_like_def)
  obtain rec st1 where r: "make_record deps ?env pq VAllow Allow risk st = (Inr rec, st1)"
    using like_record [OF pq(2) pay d(2,1), of None VAllow Allow risk] by blast
  from make_record_state [OF r] obtain f where f: "st1 = st\<lparr>ss_ids := f\<rparr>" and rec: "records pq VAllow Allow risk rec"
    by blast
  obtain store where "audit_append (take 2) None rec (open_store [] 1) = Inr store" using sample_appends [OF rec fin] by blast
  then have app: "append_audit deps ?env rec st1 = (Inr (), emit (Recorded rec) (st1\<lparr>ss_audit := Some store\<rparr>))"
    using f d by (simp add: append_audit_def sample_env_def)
  obtain x st' where fp: "forward_prepared deps ?env pq (emit (Recorded rec) (st1\<lparr>ss_audit := Some store\<rparr>)) = (x, st')"
    by fastforce
  then have st': "ss_trace st' = [Recorded rec, Forwarded (pq_target pq)]" "ss_audit st' \<noteq> None"
    by (auto simp: forward_prepared_def f d split: prod.splits)
  obtain y where fin: "finish_call_of deps ?env pq st = (y, st')"
    using a r app fp by (cases x) (auto simp: finish_call_of_def allow_call_def bind_s_def lift_s_def)
  have "live_reachable deps ?s0 ?s0" by (rule start [OF st])
  from step [OF this arrive [OF _ pq(1)]] ntc
  have "live_reachable deps ?s0 \<lparr>lv_state = st, lv_waiting = [pq]\<rparr>" by simp
  from step [OF this resume [OF _ fin]] have "live_reachable deps ?s0 \<lparr>lv_state = st', lv_waiting = []\<rparr>" by simp
  with st' show ?thesis by (intro exI [of _ "\<lparr>lv_state = st', lv_waiting = []\<rparr>"]) auto
qed

lemma sample_run:
  "\<exists>s r t. live_reachable (sample_deps None) \<lparr>lv_state = sample_state, lv_waiting = []\<rparr> s
     \<and> ss_audit (lv_state s) \<noteq> None \<and> ss_trace (lv_state s) = [Recorded r] @ Forwarded t # []"
  by (rule like_run [OF sample_is_like sample_starts, where risk = None])
    (simp_all add: assess_call_def sample_deps_def)

section \<open>Properties\<close>

text \<open>
  C1: Complete mediation. In every run that began on fresh databases, however requests interleave and
  however often the process restarts on those databases, a gateway with an audit log forwards a call only
  straight after writing its record: the log then says \<open>allow\<close> for this method and name, the policy
  engine, when there is one, permitted them, and the risk assessed, when it is, escalated nothing.
\<close>

theorem every_forward_is_granted_and_recorded:
  assumes "live_reachable deps s0 s" and "ss_audit (lv_state s) \<noteq> None"
    and "ss_trace (lv_state s) = before @ Forwarded t # rest"
  shows "\<exists>earlier r. before = earlier @ [Recorded r] \<and> grants deps r t"
  using live_reachable_inv [OF assms(1)] assms(2,3)
  by (auto simp: live_inv_def log_ok_def justified_def)

theorem every_forward_is_granted_and_recorded_witness:
  "\<exists>s earlier r t. live_reachable (sample_deps None) \<lparr>lv_state = sample_state, lv_waiting = []\<rparr> s
     \<and> ss_trace (lv_state s) = (earlier @ [Recorded r]) @ [Forwarded t] \<and> grants (sample_deps None) r t"
proof -
  obtain s r t where run: "live_reachable (sample_deps None) \<lparr>lv_state = sample_state, lv_waiting = []\<rparr> s"
    "ss_audit (lv_state s) \<noteq> None" "ss_trace (lv_state s) = [Recorded r] @ Forwarded t # []"
    using sample_run by blast
  from every_forward_is_granted_and_recorded [OF run] run show ?thesis by fastforce
qed

text \<open>
  C2: The log is the trace. In every run that began on fresh databases, restarts included, the rows of the
  audit log are the records written, one each and in order, and the log is well formed: its sequence
  numbers increase and stay below the next one, no decision id occurs twice, each row holds the hash of the
  row before it as its previous hash and the hash of that and its record as its own, and the head in memory
  is the last hash. So the chain over it verifies.
\<close>

theorem audit_log_is_the_trace:
  assumes "live_reachable deps s0 s" and "ss_audit (lv_state s) = Some store"
  shows "list_all2 row_records (au_rows store) (recorded_in (ss_trace (lv_state s)))
    \<and> sorted_wrt (<) (map au_sequence (au_rows store) @ [au_nextSequence store])
    \<and> distinct (map au_decisionId (au_rows store))
    \<and> map au_prevHash (au_rows store) = take (length (au_rows store)) (genesis_hash # map au_hash (au_rows store))
    \<and> list_all (\<lambda>r. au_hash r = sha256_hex (de_sha deps) (au_prevHash r @ au_recordJson r)) (au_rows store)
    \<and> au_chainHead store = last (genesis_hash # map au_hash (au_rows store))
    \<and> (\<exists>rep. verify_chain (de_sha deps) (au_rows store) genesis_hash = Inr rep \<and> vr_valid rep)"
proof -
  from live_reachable_inv [OF assms(1)] assms(2) have ok: "audit_reachable (de_sha deps) store"
    "list_all2 row_records (au_rows store) (recorded_in (ss_trace (lv_state s)))"
    by (simp_all add: live_inv_def log_ok_def)
  note wf = reachable_wf [OF ok(1), unfolded wf_store_def]
  then have ch: "chained (de_sha deps) genesis_hash (au_rows store)" by simp
  have "\<exists>rep. verify_chain (de_sha deps) (au_rows store) genesis_hash = Inr rep \<and> vr_valid rep"
    using verify_chain_eq [OF chained_ascii [OF ch]] chained_mismatches [OF ch] by fastforce
  moreover have "au_chainHead store = last (genesis_hash # map au_hash (au_rows store))"
    using wf by (simp add: tail_last last_hash_def last_map)
  moreover have "sorted_wrt (<) (map au_sequence (au_rows store) @ [au_nextSequence store])"
    using wf by (auto simp: sorted_wrt_append)
  ultimately show ?thesis using ok(2) chained_columns [OF ch] wf by blast
qed

theorem audit_log_is_the_trace_witness:
  "\<exists>s store. live_reachable (sample_deps None) \<lparr>lv_state = sample_state, lv_waiting = []\<rparr> s
     \<and> ss_audit (lv_state s) = Some store \<and> length (au_rows store) = 1
     \<and> map au_prevHash (au_rows store) = [genesis_hash]"
proof -
  obtain s r t store where run: "live_reachable (sample_deps None) \<lparr>lv_state = sample_state, lv_waiting = []\<rparr> s"
    "ss_audit (lv_state s) = Some store" "ss_trace (lv_state s) = [Recorded r] @ Forwarded t # []"
    using sample_run by blast
  note log = audit_log_is_the_trace [OF run(1,2)]
  then have "length (au_rows store) = 1" using run(3) by (auto dest: list_all2_lengthD)
  moreover from this log have "map au_prevHash (au_rows store) = [genesis_hash]" by simp
  ultimately show ?thesis using run(1,2) by (intro exI [of _ s] exI [of _ store]) simp
qed

text \<open>
  C6: In no run that began on fresh databases, restarts included, can an agent approve through the gateway's
  own tool, and neither can anyone else: with every
  request stored under the agent \<open>anonymous\<close> and every caller taken for it, \<open>approve_request\<close> ends in an
  error result and leaves the state alone, whatever token it is given.
\<close>

theorem in_band_approval_never_succeeds:
  assumes "live_reachable deps s0 s"
    and "handle_approve_request deps env args (lv_state s) = (r, st')"
  shows "st' = lv_state s \<and> (\<exists>message. r = Inr (error_result message))"
  using approve_request_idle [OF _ assms(2)] live_reachable_inv [OF assms(1)] by (simp add: live_inv_def)

theorem in_band_approval_never_succeeds_witness:
  "\<exists>message. handle_approve_request (sample_deps None) (sample_env None) (JObject [(js ''token'', JString [])]) sample_state
     = (Inr (error_result message), sample_state)"
proof -
  obtain r st' where h: "handle_approve_request (sample_deps None) (sample_env None)
      (JObject [(js ''token'', JString [])]) sample_state = (r, st')" by fastforce
  with in_band_approval_never_succeeds [OF start [OF sample_starts], of "sample_deps None" "sample_env None"]
  show ?thesis by fastforce
qed

lemma defer_answer:
  assumes "defer_call deps env pq w risk st = (Inr v, st')"
  shows "\<exists>q a d tr table. pending_request pq q \<and> ss_trace st' = tr @ [Suspended q, Notified (ap_approvalId q) a d]
    \<and> ss_approvals st' = Some (table @ [q]) \<and> suspended_answer pq w (ap_approvalId q) = Inr v"
proof -
  from assms obtain st2 where "(if can_suspend deps st2
       then bind_s (suspend_call deps env pq) (\<lambda>taskId. lift_s (suspended_answer pq w taskId))
       else lift_s (Inl (unsuspendable pq w))) st2 = (Inr v, st')"
    by (auto simp: defer_call_def action_iffs)
  then obtain taskId where "can_suspend deps st2" "suspend_call deps env pq st2 = (Inr taskId, st')"
    "suspended_answer pq w taskId = Inr v"
    by (auto simp: action_iffs split: if_splits)
  with suspend_call_state [of deps env pq st2 "Inr taskId" st'] show ?thesis by blast
qed

lemma suspension_trace:
  assumes "suspension env pq st st'"
  shows "ss_registry st' = ss_registry st \<and> (ss_trace st' = ss_trace st \<or> (\<exists>q a d. pending_request pq q
    \<and> ss_trace st' = ss_trace st @ [Suspended q, Notified (ap_approvalId q) a d]))"
  using assms by (induction rule: suspension.induct) auto

lemma logged_trace:
  "logged deps env rec st st' \<Longrightarrow> ss_trace st' = ss_trace st @ (if ss_audit st = None then [] else [Recorded rec])
    \<and> ss_registry st' = ss_registry st"
  by (auto simp: logged_def)

text \<open>
  A deferred call goes nowhere. When policy or risk demand more than \<open>allow\<close>, the rest of the handler
  touches no upstream and adds to the trace nothing, or a \<open>pending_approval\<close> record of the call where
  there is a log, and after it perhaps a pending request for the call and its notification. It answers
  only a tool call, and then with the id of that request.
\<close>

theorem deferred_call_goes_nowhere:
  assumes "assess_call deps env pq = Inr (risk, w)" and "w \<noteq> Allow" and "finish_call_of deps env pq st = (r, st')"
  shows "ss_registry st' = ss_registry st
    \<and> (ss_trace st' = ss_trace st \<or> (\<exists>rec more. records pq VPending w risk rec
         \<and> ss_trace st' = ss_trace st @ (if ss_audit st = None then [] else [Recorded rec]) @ more
         \<and> (more = [] \<or> (\<exists>q a d. pending_request pq q \<and> more = [Suspended q, Notified (ap_approvalId q) a d]))))
    \<and> (\<forall>v. r = Inr v \<longrightarrow> pq_method pq = js_tools_call \<and> (\<exists>q a d tr. pending_request pq q
         \<and> ss_trace st' = tr @ [Suspended q, Notified (ap_approvalId q) a d]
         \<and> suspended_answer pq w (ap_approvalId q) = Inr v))"
proof -
  have d: "defer_call deps env pq w risk st = (r, st')"
    using assms by (simp add: finish_call_of_def action_iffs)
  have state: "ss_registry st' = ss_registry st
    \<and> (ss_trace st' = ss_trace st \<or> (\<exists>rec more. records pq VPending w risk rec
         \<and> ss_trace st' = ss_trace st @ (if ss_audit st = None then [] else [Recorded rec]) @ more
         \<and> (more = [] \<or> (\<exists>q a d. pending_request pq q \<and> more = [Suspended q, Notified (ap_approvalId q) a d]))))"
    using finish_call_finished [OF assms(3)]
  proof (cases rule: finished.cases)
    case (deferred risk' w' rec f st2)
    with assms(1) logged_trace [OF deferred(4)] suspension_trace [OF deferred(5)] show ?thesis by auto
  qed (use assms in auto)
  have "pq_method pq = js_tools_call" if "suspended_answer pq w i = Inr v" for i v
    using that by (simp add: suspended_answer_def split: if_splits)
  with state defer_answer [of deps env pq w risk st _ st'] d show ?thesis by blast
qed

definition strict_risk :: "(risk_config \<times> llm_provider option) option" where
  "strict_risk = Some (\<lparr>rk_heuristicOnly = Some True, rk_llmTimeoutMs = None, rk_escalationThreshold = Some 0,
     rk_escalateObligation = None\<rparr>, None)"

theorem deferred_call_goes_nowhere_witness:
  "\<exists>pq r st'. prepare_call (sample_deps strict_risk) (sample_env None) sample_state js_prompts_get sample_params = Inr pq
     \<and> finish_call_of (sample_deps strict_risk) (sample_env None) pq sample_state = (r, st') \<and> (\<exists>e. r = Inl e)
     \<and> ss_registry st' = ss_registry sample_state"
proof -
  let ?deps = "sample_deps strict_risk" and ?env = "sample_env None"
  obtain pq where pq: "prepare_call ?deps ?env sample_state js_prompts_get sample_params = Inr pq"
    "pq_method pq = js_prompts_get" "pq_params pq = sample_params" "pq_decision pq = None" using sample_prepared by blast
  have ntc: "js_prompts_get \<noteq> js_tools_call" by (simp add: js_prompts_get_def js_tools_call_def)
  have "\<exists>flags. heuristic_flags (payload_of pq) = Inr flags"
    using pq(2,3) ntc by (simp add: payload_of_def sample_params_def heuristic_flags_def truthy_def js_values_def)
  then have "\<exists>risk. assess_call ?deps ?env pq = Inr (Some risk, Approve)"
    using pq(4) by (auto simp: assess_call_def sample_deps_def strict_risk_def evaluate_risk_def heuristic_risk_score_def
        risk_threshold_def escalate_obligation_def escalation_target_def obligation_rank_def Let_def)
  then obtain risk where a: "assess_call ?deps ?env pq = Inr (Some risk, Approve)" by blast
  obtain r st' where f: "finish_call_of ?deps ?env pq sample_state = (r, st')" by fastforce
  from deferred_call_goes_nowhere [OF a _ f] pq(2) ntc have "ss_registry st' = ss_registry sample_state" "\<forall>v. r \<noteq> Inr v"
    by auto
  with pq(1) f show ?thesis by (cases r) auto
qed

text \<open>What follows the record of a deferred call leaves the log alone.\<close>

lemma suspension_after:
  assumes "suspension env pq st st'"
  shows "ss_audit st' = ss_audit st \<and> (\<exists>more. ss_trace st' = ss_trace st @ more)"
  using assms by (induction rule: suspension.induct) auto

text \<open>Either way a record that the log refuses ends the call.\<close>

lemma refused_record:
  assumes "assess_call deps env pq = Inr (risk, w)"
    and "make_record deps env pq (if w = Allow then VAllow else VPending) w risk st = (Inr rec, st1)"
    and "ss_audit st = Some store" and "audit_append (de_sha deps) (ne_auditFault env) rec store = Inl e"
  shows "finish_call_of deps env pq st = (Inl (audit_refusal e), st1)"
proof -
  obtain f where "st1 = st\<lparr>ss_ids := f\<rparr>" using make_record_state [OF assms(2)] by blast
  with assms show ?thesis
    by (cases "w = Allow") (simp_all add: finish_call_of_def allow_call_def defer_call_def append_audit_def bind_s_def lift_s_def)
qed

lemma written_or_refused:
  assumes "finish_call_of deps env pq st = (r, st')" and "ss_audit st = Some store"
  shows "(\<exists>e f. r = Inl e \<and> st' = st\<lparr>ss_ids := f\<rparr>)
    \<or> (\<exists>rec store' more. audit_append (de_sha deps) (ne_auditFault env) rec store = Inr store'
         \<and> ss_audit st' = Some store' \<and> ss_trace st' = ss_trace st @ Recorded rec # more)"
proof (cases "assess_call deps env pq")
  case (Inl e)
  with assms(1) have "r = Inl e \<and> st' = st\<lparr>ss_ids := ss_ids st\<rparr>" by (simp add: finish_call_of_def action_iffs)
  then show ?thesis by blast
next
  case (Inr x)
  then obtain risk w where a: "assess_call deps env pq = Inr (risk, w)" by (cases x) auto
  obtain m st1 where m: "make_record deps env pq (if w = Allow then VAllow else VPending) w risk st = (m, st1)" by fastforce
  obtain f where f: "st1 = st\<lparr>ss_ids := f\<rparr>" using make_record_state [OF m] by blast
  show ?thesis
  proof (cases m)
    case (Inl e)
    with assms(1) a m have "r = Inl e \<and> st' = st1"
      by (cases "w = Allow") (auto simp: finish_call_of_def allow_call_def defer_call_def action_iffs)
    with f show ?thesis by blast
  next
    case rec: (Inr rec)
    show ?thesis
    proof (cases "audit_append (de_sha deps) (ne_auditFault env) rec store")
      case (Inl e)
      with refused_record [OF a _ assms(2)] m rec assms(1) f show ?thesis by auto
    next
      case (Inr store')
      obtain st2 where st2: "st2 = emit (Recorded rec) (st1\<lparr>ss_audit := Some store'\<rparr>)" by blast
      with Inr assms(2) f have app: "append_audit deps env rec st1 = (Inr (), st2)" by (simp add: append_audit_def)
      have "ss_audit st' = ss_audit st2 \<and> (\<exists>more. ss_trace st' = ss_trace st2 @ more)"
      proof (cases "w = Allow")
        case True
        with assms(1) a m rec app show ?thesis
          by (auto simp: finish_call_of_def allow_call_def forward_prepared_def action_iffs split: prod.splits)
      next
        case False
        with assms(1) a m rec app have "(if can_suspend deps st2
           then bind_s (suspend_call deps env pq) (\<lambda>taskId. lift_s (suspended_answer pq w taskId))
           else lift_s (Inl (unsuspendable pq w))) st2 = (r, st')"
          by (auto simp: finish_call_of_def defer_call_def action_iffs)
        then show ?thesis using suspend_call_state [of deps env pq st2] suspension_after [of env pq st2]
          by (fastforce simp: action_iffs split: if_splits)
      qed
      with st2 f Inr show ?thesis by auto
    qed
  qed
qed

text \<open>
  C3: Fail closed. With an audit log, the rest of a handler either ends in an error, with nothing but the
  id generator moved, or starts by writing a record: the log accepts it, and whatever else happens,
  forwarding or suspending, follows it in the trace. So when the log refuses the record of an allowed or
  a deferred call, the caller gets the \<open>-32001\<close> refusal with the log's message, and the call is neither
  forwarded nor suspended.
\<close>

theorem audit_failure_fails_closed:
  assumes "finish_call_of deps env pq st = (r, st')" and "ss_audit st = Some store"
  shows "((\<exists>e f. r = Inl e \<and> st' = st\<lparr>ss_ids := f\<rparr>)
      \<or> (\<exists>rec store' more. audit_append (de_sha deps) (ne_auditFault env) rec store = Inr store'
           \<and> ss_audit st' = Some store' \<and> ss_trace st' = ss_trace st @ Recorded rec # more))
    \<and> (\<forall>risk w rec st1 e. assess_call deps env pq = Inr (risk, w)
         \<and> make_record deps env pq (if w = Allow then VAllow else VPending) w risk st = (Inr rec, st1)
         \<and> audit_append (de_sha deps) (ne_auditFault env) rec store = Inl e
         \<longrightarrow> r = Inl (audit_refusal e) \<and> st' = st1 \<and> (\<exists>f. st1 = st\<lparr>ss_ids := f\<rparr>))"
  using written_or_refused [OF assms] refused_record [of deps env pq _ _ st _ _ store] assms make_record_state [of deps env pq]
  by fastforce

theorem audit_failure_fails_closed_witness:
  "\<exists>pq e st1. prepare_call (sample_deps None) (sample_env (Some (js ''disk full''))) sample_state js_prompts_get sample_params = Inr pq
     \<and> finish_call_of (sample_deps None) (sample_env (Some (js ''disk full''))) pq sample_state = (Inl (audit_refusal e), st1)
     \<and> ss_trace st1 = []"
proof -
  let ?deps = "sample_deps None" and ?env = "sample_env (Some (js ''disk full''))"
  obtain pq where pq: "prepare_call ?deps ?env sample_state js_prompts_get sample_params = Inr pq" "pq_start pq = 0"
    "pq_method pq = js_prompts_get" "pq_params pq = sample_params" "pq_decision pq = None" using sample_prepared by blast
  have "js_prompts_get \<noteq> js_tools_call" by (simp add: js_prompts_get_def js_tools_call_def)
  with pq(3,4) have pay: "canonical_ok (payload_of pq)" by (simp add: payload_of_def sample_params_def)
  have a: "assess_call ?deps ?env pq = Inr (None, Allow)" using pq(5) by (simp add: assess_call_def sample_deps_def)
  obtain rec st1 where r: "make_record ?deps ?env pq VAllow Allow None sample_state = (Inr rec, st1)"
    using sample_record [OF pq(2) pay, of sample_state None "Some (js ''disk full'')" VAllow Allow None] sample_ids by blast
  have "record_ok rec" using make_record_state [OF r]
    by (simp add: records_def record_ok_def recorded_agent_def list_all_iff)
  from canonicalize_Inr [OF record_value_ok [OF this]]
  obtain e where e: "audit_append (de_sha ?deps) (ne_auditFault ?env) rec (open_store [] 1) = Inl e"
    by (simp add: audit_append_def insert_row_def sample_env_def Let_def)
  have "ss_audit sample_state = Some (open_store [] 1)" by (simp add: sample_state_def)
  moreover obtain x st' where "finish_call_of ?deps ?env pq sample_state = (x, st')" by fastforce
  ultimately show ?thesis using audit_failure_fails_closed [of ?deps ?env pq sample_state x st' "open_store [] 1"] a r e pq(1)
    by (fastforce simp: sample_state_def)
qed

text \<open>
  A tool call without \<open>arguments\<close>, which the protocol allows, is never forwarded and never answered:
  the digest of \<open>undefined\<close> throws once the record is built, whatever was decided.
\<close>

theorem tool_call_needs_arguments:
  assumes "pq_method pq = js_tools_call" and "get_prop (pq_params pq) (js ''arguments'') = None"
  shows "\<exists>e f. finish_call_of deps env pq st = (Inl e, st\<lparr>ss_ids := f\<rparr>)"
proof -
  have p: "payload_of pq = JUndefined" using assms by (simp add: payload_of_def arguments_of_def optional_value_def)
  have no: "\<exists>e f. make_record deps env pq v w risk st = (Inl e, st\<lparr>ss_ids := f\<rparr>)" for v w risk
  proof -
    obtain m st1 where m: "make_record deps env pq v w risk st = (m, st1)" by fastforce
    have "\<not> canonical_ok JUndefined" by simp
    with canonicalize_Inl p have "\<And>d. digest_of (de_sha deps) (payload_of pq) \<noteq> Inr d" by (fastforce simp: digest_of_def)
    with make_record_state [OF m] m show ?thesis by (cases m) auto
  qed
  show ?thesis
  proof (cases "assess_call deps env pq")
    case (Inl e)
    then have "finish_call_of deps env pq st = (Inl e, st\<lparr>ss_ids := ss_ids st\<rparr>)"
      by (simp add: finish_call_of_def bind_s_def lift_s_def)
    then show ?thesis by blast
  next
    case (Inr x)
    obtain risk w where x: "x = (risk, w)" by (cases x)
    from no [of VPending w risk] no [of VAllow Allow risk] Inr x show ?thesis
      by (cases "w = Allow") (auto simp: finish_call_of_def defer_call_def allow_call_def bind_s_def lift_s_def)
  qed
qed

theorem tool_call_needs_arguments_witness:
  "\<forall>t. \<exists>e f. finish_call_of (sample_deps None) (sample_env None)
     \<lparr>pq_method = js_tools_call, pq_name = js ''files__read'', pq_params = sample_params, pq_target = t,
      pq_start = 0, pq_decision = None\<rparr> sample_state = (Inl e, sample_state\<lparr>ss_ids := f\<rparr>)"
  by (intro allI tool_call_needs_arguments) (simp_all add: sample_params_def)

end
