(* ===== verification/Lifecycle.thy ===== *)
theory Lifecycle
  imports Gateway
begin

text \<open>
  What the gateway promises of the requests it suspends, and that it keeps the promise: the abstract
  life of a request is a map from ids to states, and every step of the gateway is a step of that life
  or leaves it alone. Approval in particular takes a signed token that a person follows as a link.
\<close>

section \<open>The abstract life of suspended requests\<close>

type_synonym requests = "jstring \<Rightarrow> approval_state option"

inductive lifecycle :: "requests \<Rightarrow> requests \<Rightarrow> bool" where
  idle: "lifecycle m m"
| opened: "m i = None \<Longrightarrow> m' = m(i := Some Pending) \<Longrightarrow> lifecycle m m'"
| decided: "m i = Some Pending \<Longrightarrow> w \<in> {Approved, Denied} \<Longrightarrow> m' = m(i := Some w) \<Longrightarrow> lifecycle m m'"

definition requests_of :: "live \<Rightarrow> requests" where
  "requests_of s = (case ss_approvals (lv_state s) of None \<Rightarrow> (\<lambda>_. None) | Some table \<Rightarrow> approval_status table)"

lemma requests_cong:
  "ss_approvals (lv_state s') = ss_approvals (lv_state s) \<Longrightarrow> requests_of s' = requests_of s"
  by (simp add: requests_of_def)

section \<open>The table's operations as steps of that life\<close>

lemma status_created:
  assumes "create_approval f q table = Inr table'"
  shows "approval_status table (ap_approvalId q) = None
    \<and> approval_status table' = (approval_status table)(ap_approvalId q := Some (ap_state q))"
proof
  show "approval_status table (ap_approvalId q) = None"
    using assms by (auto simp: create_approval_def approval_status_def get_approval_def list_ex_iff find_None_iff
        split: option.splits if_splits)
  show "approval_status table' = (approval_status table)(ap_approvalId q := Some (ap_state q))"
    by (auto simp: fun_eq_iff approval_status_def get_after_create [OF assms])
qed

lemma status_updated:
  assumes "wf_table table" "update_state f d i w a r table = Inr table'"
  shows "approval_status table i = Some Pending \<and> approval_status table' = (approval_status table)(i := Some w)"
proof
  show pend: "approval_status table i = Some Pending" by (rule update_hit [OF assms])
  show "approval_status table' = (approval_status table)(i := Some w)"
  proof
    fix j
    show "approval_status table' j = ((approval_status table)(i := Some w)) j"
      using pend get_approval_id [of j table]
      by (cases "get_approval j table") (auto simp: approval_status_def get_after_update [OF assms(2)])
  qed
qed

text \<open>What the handlers of calls do to the requests: open at most one.\<close>

definition begins :: "requests \<Rightarrow> requests \<Rightarrow> bool" where
  "begins m m' \<longleftrightarrow> m' = m \<or> (\<exists>i. m i = None \<and> m' = m(i := Some Pending))"

lemma begins_lifecycle: "begins m m' \<Longrightarrow> lifecycle m m'"
  by (auto simp: begins_def intro: lifecycle.intros)

lemma begins_refl [simp]: "begins m m"
  by (simp add: begins_def)

lemma suspension_begins:
  assumes "suspension env pq st st'"
  shows "begins (requests_of \<lparr>lv_state = st, lv_waiting = ps\<rparr>) (requests_of \<lparr>lv_state = st', lv_waiting = qs\<rparr>)"
  using assms
proof (induction rule: suspension.induct)
  case (none st f)
  then show ?case by (simp add: requests_of_def)
next
  case (some q st table table' a d f)
  from some(1) status_created [OF some(3)] have "approval_status table (ap_approvalId q) = None"
    "approval_status table' = (approval_status table)(ap_approvalId q := Some Pending)"
    by (simp_all add: pending_request_def)
  with some(2) show ?case unfolding begins_def by (intro disjI2 exI [of _ "ap_approvalId q"]) (simp add: requests_of_def)
qed

lemma finished_begins:
  assumes "finished deps env pq st st'"
  shows "begins (requests_of \<lparr>lv_state = st, lv_waiting = ps\<rparr>) (requests_of \<lparr>lv_state = st', lv_waiting = qs\<rparr>)"
  using assms
proof (induction rule: finished.induct)
  case (nothing st f)
  then show ?case by (simp add: requests_of_def)
next
  case (deferred risk w rec f st st2 st3)
  from logged_same [OF deferred(4)] suspension_begins [OF deferred(5)] show ?case by (simp add: requests_of_def)
next
  case (forwarded risk rec f st st2 reg)
  from logged_same [OF forwarded(4)] show ?case by (simp add: requests_of_def)
qed

lemma updated_lifecycle:
  assumes "table_ok st" "ss_approvals st = Some table" "update_state f d i w a r table = Inr table'"
    and "w \<in> {Approved, Denied}"
  shows "requests_of \<lparr>lv_state = st, lv_waiting = ps\<rparr> i = Some Pending"
    and "requests_of \<lparr>lv_state = st\<lparr>ss_approvals := Some table'\<rparr>, lv_waiting = qs\<rparr> =
      (requests_of \<lparr>lv_state = st, lv_waiting = ps\<rparr>)(i := Some w)"
    and "lifecycle (requests_of \<lparr>lv_state = st, lv_waiting = ps\<rparr>)
      (requests_of \<lparr>lv_state = st\<lparr>ss_approvals := Some table'\<rparr>, lv_waiting = qs\<rparr>)"
proof -
  from assms(1,2) have "wf_table table" by (simp add: table_ok_def)
  from status_updated [OF this assms(3)] assms(2)
  show pend: "requests_of \<lparr>lv_state = st, lv_waiting = ps\<rparr> i = Some Pending"
    and upd: "requests_of \<lparr>lv_state = st\<lparr>ss_approvals := Some table'\<rparr>, lv_waiting = qs\<rparr> =
      (requests_of \<lparr>lv_state = st, lv_waiting = ps\<rparr>)(i := Some w)"
    by (simp_all add: requests_of_def)
  show "lifecycle (requests_of \<lparr>lv_state = st, lv_waiting = ps\<rparr>)
      (requests_of \<lparr>lv_state = st\<lparr>ss_approvals := Some table'\<rparr>, lv_waiting = qs\<rparr>)"
    using pend assms(4) upd by (rule lifecycle.decided)
qed

lemma tasks_cancel_cases:
  assumes "handle_tasks_cancel env params st = (r, st')"
  obtains "st' = st" | table table' where "ss_approvals st = Some table"
    "update_state (ne_approvalFault env) (ne_decidedAt env) (string_param ''taskId'' params) Denied
      (Some (js ''agent-cancel'')) (Some (js ''Cancelled via tasks/cancel'')) table = Inr table'"
    "st' = st\<lparr>ss_approvals := Some table'\<rparr>"
  using assms unfolding handle_tasks_cancel_def by (auto simp: Let_def split: option.splits sum.splits)

section \<open>Every step of the gateway is a step of that life\<close>

lemma step_lifecycle:
  assumes "live_step deps s s'" "live_inv deps s"
  shows "lifecycle (requests_of s) (requests_of s')"
  using assms
proof (induction rule: live_step.induct)
  case (arrive m params env st pq ps)
  then show ?case by (simp add: requests_of_def lifecycle.idle)
next
  case (resume pq ps env st r st')
  from begins_lifecycle [OF finished_begins [OF finish_call_finished [OF resume(2)]]] show ?case .
next
  case (approve env args st r st' ps)
  with approve_request_idle [OF _ approve(1)] show ?case by (simp add: live_inv_def lifecycle.idle)
next
  case (cancel env params st r st' ps)
  then have ok: "table_ok st" by (simp add: live_inv_def)
  from cancel(1) show ?case
    by (rule tasks_cancel_cases) (simp_all add: lifecycle.idle updated_lifecycle(3) [OF ok])
next
  case (link env decision i token st reply st' ps)
  then have ok: "table_ok st" by (simp add: live_inv_def)
  from handle_link_cases [OF link(1)] show ?case
    by (auto simp: lifecycle.idle intro!: updated_lifecycle(3) [OF ok])
next
  case (surroundings cat st ps reg)
  then show ?case by (simp add: requests_of_def lifecycle.idle)
next
  case (restart cat st ps reg)
  then show ?case by (simp add: requests_of_def lifecycle.idle)
qed

lemma requests_start: "starts s \<Longrightarrow> requests_of s = (\<lambda>_. None)"
  by (auto simp: starts_def requests_of_def approval_status_def get_approval_def fun_eq_iff)

text \<open>A link with a good token decides a pending request, unless the database fails.\<close>

lemma link_decides:
  assumes "de_signer deps = Some sg" "verify (de_hmac deps) sg (int (ne_wall env)) tok = Inr (i, link_action decision)"
    and "tok \<noteq> []" "ne_approvalFault env = None" "table_ok (lv_state s)" "requests_of s i = Some Pending"
  shows "\<exists>s'. handle_link deps env decision i (Some tok) (lv_state s) = (Reply 200 (link_page decision), lv_state s')
    \<and> live_step deps s s' \<and> requests_of s' = (requests_of s)(i := Some (if decision then Approved else Denied))"
proof -
  obtain st ps where s: "s = \<lparr>lv_state = st, lv_waiting = ps\<rparr>" by (cases s)
  from assms(6) obtain table where table: "ss_approvals st = Some table" "approval_status table i = Some Pending"
    by (auto simp: s requests_of_def split: option.splits)
  then have "\<exists>row \<in> set table. ap_approvalId row = i \<and> ap_state row = Pending"
    by (auto simp: approval_status_def get_approval_def dest: find_Some_iff_first)
  then obtain table' where u: "update_state (ne_approvalFault env) (ne_decidedAt env) i (if decision then Approved else Denied)
      (Some (js ''human-link'')) None table = Inr table'"
    by (auto simp: update_state_def assms(4) Let_def filter_empty_conv)
  have h: "handle_link deps env decision i (Some tok) st = (Reply 200 (link_page decision), st\<lparr>ss_approvals := Some table'\<rparr>)"
    using assms(1-3) table(1) u by (simp add: handle_link_def)
  from updated_lifecycle(2) [OF _ table(1) u, of ps ps] assms(5) s
  have "requests_of \<lparr>lv_state = st\<lparr>ss_approvals := Some table'\<rparr>, lv_waiting = ps\<rparr>
      = (requests_of s)(i := Some (if decision then Approved else Denied))" by simp
  with h live_step.link [OF h, of ps] s show ?thesis by (intro exI [of _ "\<lparr>lv_state = st\<lparr>ss_approvals := Some table'\<rparr>, lv_waiting = ps\<rparr>"]) simp
qed

text \<open>Only a link with a token for \<open>approve\<close> makes a request approved.\<close>

lemma link_approval:
  assumes "handle_link deps env decision j token st = (reply, st')" "table_ok st"
    and "requests_of \<lparr>lv_state = st, lv_waiting = ps\<rparr> i \<noteq> Some Approved"
    and "requests_of \<lparr>lv_state = st', lv_waiting = ps\<rparr> i = Some Approved"
  shows "\<exists>sg tok. decision \<and> j = i \<and> token = Some tok \<and> de_signer deps = Some sg
    \<and> verify (de_hmac deps) sg (int (ne_wall env)) tok = Inr (i, ActApprove)"
proof -
  from handle_link_cases [OF assms(1)] assms(3,4) obtain sg tok table table'
    where l: "de_signer deps = Some sg" "token = Some tok"
      "verify (de_hmac deps) sg (int (ne_wall env)) tok = Inr (j, link_action decision)"
      "ss_approvals st = Some table" "update_state (ne_approvalFault env) (ne_decidedAt env) j
         (if decision then Approved else Denied) (Some (js ''human-link'')) None table = Inr table'"
      "st' = st\<lparr>ss_approvals := Some table'\<rparr>" by auto
  from updated_lifecycle(2) [OF assms(2) l(4,5), of ps ps] assms(3,4) l(6) have "j = i" "decision"
    by (auto split: if_splits)
  with l show ?thesis by (simp add: link_action_def)
qed

lemma step_approval:
  assumes "live_step deps s s'" "live_inv deps s"
    and "requests_of s i \<noteq> Some Approved" "requests_of s' i = Some Approved"
  shows "\<exists>env sg tok reply. de_signer deps = Some sg
    \<and> verify (de_hmac deps) sg (int (ne_wall env)) tok = Inr (i, ActApprove)
    \<and> handle_link deps env True i (Some tok) (lv_state s) = (reply, lv_state s')"
  using assms
proof (induction rule: live_step.induct)
  case (link env decision j token st reply st' ps)
  then have ok: "table_ok st" by (simp add: live_inv_def)
  from link_approval [OF link(1) ok link(3,4)] link(1) show ?case by fastforce
next
  case (resume pq ps env st r st')
  from finished_begins [OF finish_call_finished [OF resume(2)], of ps "remove1 pq ps"] resume(4,5)
  show ?case by (auto simp: begins_def split: if_splits)
next
  case (approve env args st r st' ps)
  with approve_request_idle [OF _ approve(1)] show ?case by (simp add: live_inv_def)
next
  case (cancel env params st r st' ps)
  then have ok: "table_ok st" by (simp add: live_inv_def)
  from cancel(1) cancel(3,4) show ?case
    by (cases rule: tasks_cancel_cases) (auto simp: updated_lifecycle(2) [OF ok, where qs = ps and ps = ps] split: if_splits)
qed (simp_all add: requests_of_def)

section \<open>A request suspended and approved\<close>

lemma sample_mints: "\<exists>i f. mint_id k sample_mint st = (Inr i, st\<lparr>ss_ids := f\<rparr>)"
  by (auto simp: mint_id_def sample_mint_def new_id_def next_ulid_def assert_timestamp_in_range_def max_time_def Let_def)

lemma sample_risk:
  assumes "pq_method pq = js_prompts_get" "pq_params pq = sample_params" "pq_decision pq = None"
  shows "\<exists>risk. assess_call (sample_deps strict_risk) (sample_env None) pq = Inr (Some risk, Approve)"
proof -
  have "js_prompts_get \<noteq> js_tools_call" by (simp add: js_prompts_get_def js_tools_call_def)
  then have "\<exists>flags. heuristic_flags (payload_of pq) = Inr flags"
    using assms(1,2) by (simp add: payload_of_def sample_params_def heuristic_flags_def truthy_def js_values_def)
  then show ?thesis
    using assms(3) by (auto simp: assess_call_def sample_deps_def strict_risk_def evaluate_risk_def heuristic_risk_score_def
        risk_threshold_def escalate_obligation_def escalation_target_def obligation_rank_def Let_def)
qed

lemma minted_no_colon:
  assumes "mint_id k mt st = (Inr i, st')" "wf_factory (ss_ids st)" "length (mt_bytes mt) = 16"
  shows "58 \<notin> set i \<and> wf_factory (ss_ids st')"
proof -
  from assms(1) obtain u f where u: "next_ulid (ss_ids st) (mt_now mt) (mt_bytes mt) = Inr (u, f)" "i = id_prefix k @ 95 # u"
    "st' = st\<lparr>ss_ids := f\<rparr>"
    by (auto simp: mint_id_def new_id_def bind_r_Inr_iff split: sum.splits)
  from next_ulid_Inr [OF assms(2,3) u(1)] have f: "wf_factory f" "u = current_ulid f" "0 \<le> lastTime f" by simp_all
  then have "set u \<subseteq> set alphabet" by (auto simp: wf_factory_def current_ulid_def ulid_chars)
  moreover have "58 \<notin> set alphabet" by (simp add: alphabet_def js_def)
  moreover have "58 \<notin> set (id_prefix k)" by (cases k; simp add: id_prefix_def js_def)
  ultimately show ?thesis using u f(1) by auto
qed

lemma sample_bytes: "length (mt_bytes sample_mint) = 16"
  by (simp add: sample_mint_def)

lemma prepare_unaudited: "prepare_call deps env (st\<lparr>ss_audit := a\<rparr>) m params = prepare_call deps env st m params"
proof -
  have snap: "upstream_snapshot_of (st\<lparr>ss_audit := a\<rparr>) i = upstream_snapshot_of st i" for i
    by (simp add: upstream_snapshot_of_def)
  have gets: "upstream_trust (st\<lparr>ss_audit := a\<rparr>) i = upstream_trust st i"
    "upstream_scan_verdict (st\<lparr>ss_audit := a\<rparr>) i = upstream_scan_verdict st i"
    "ss_catalog (st\<lparr>ss_audit := a\<rparr>) = ss_catalog st" "ss_registry (st\<lparr>ss_audit := a\<rparr>) = ss_registry st" for i
    by (simp_all add: upstream_trust_def upstream_scan_verdict_def snap)
  show ?thesis
    unfolding prepare_call_def route_of_def tool_decision_def resource_decision_def prompt_decision_def gets ..
qed

definition unaudited_state :: gateway_state where
  "unaudited_state = sample_state\<lparr>ss_audit := None\<rparr>"

lemma unaudited_starts: "starts \<lparr>lv_state = unaudited_state, lv_waiting = []\<rparr>"
  using sample_starts by (simp add: starts_def unaudited_state_def)

lemma sample_suspension:
  "\<exists>s i pq st. live_reachable (sample_deps strict_risk) \<lparr>lv_state = unaudited_state, lv_waiting = []\<rparr> s
     \<and> 58 \<notin> set i \<and> requests_of s i = Some Pending \<and> wf_factory (ss_ids st)
     \<and> can_suspend (sample_deps strict_risk) st
     \<and> suspend_call (sample_deps strict_risk) (sample_env None) pq st = (Inr i, lv_state s)"
proof -
  let ?deps = "sample_deps strict_risk" and ?env = "sample_env None" and ?s0 = "\<lparr>lv_state = unaudited_state, lv_waiting = []\<rparr>"
  obtain pq where pq: "prepare_call ?deps ?env unaudited_state js_prompts_get sample_params = Inr pq" "pq_start pq = 0"
    "pq_method pq = js_prompts_get" "pq_params pq = sample_params" "pq_decision pq = None"
    using sample_prepared unfolding unaudited_state_def prepare_unaudited by blast
  have ntc: "js_prompts_get \<noteq> js_tools_call" by (simp add: js_prompts_get_def js_tools_call_def)
  from sample_risk [OF pq(3,4,5)] obtain risk where a: "assess_call ?deps ?env pq = Inr (Some risk, Approve)" by blast
  have pay: "canonical_ok (payload_of pq)" using pq(3,4) ntc by (simp add: payload_of_def sample_params_def)
  have ids: "ss_ids unaudited_state = new_factory" by (simp add: unaudited_state_def sample_ids)
  obtain rec st1 where r: "make_record ?deps ?env pq VPending Approve (Some risk) unaudited_state = (Inr rec, st1)"
    using sample_record [OF pq(2) pay ids] by blast
  from make_record_state [OF r] obtain f1 where st1: "st1 = unaudited_state\<lparr>ss_ids := f1\<rparr>" by blast
  obtain i1 f1' where m1: "mint_id KDecision sample_mint unaudited_state = (Inr i1, unaudited_state\<lparr>ss_ids := f1'\<rparr>)"
    using sample_mints by blast
  with r have "ss_ids st1 = f1'" by (auto simp: make_record_def action_iffs sample_env_def)
  moreover have "wf_factory (ss_ids unaudited_state)" by (simp add: ids new_factory_def wf_factory_def)
  ultimately have wf1: "wf_factory (ss_ids st1)" using minted_no_colon [OF m1 _ sample_bytes] st1 by simp
  obtain i f2 where m2: "mint_id KTask sample_mint st1 = (Inr i, st1\<lparr>ss_ids := f2\<rparr>)" using sample_mints by blast
  have colon: "58 \<notin> set i" using minted_no_colon [OF m2 wf1 sample_bytes] by simp
  obtain t where t: "iso_timestamp 0 = Inr t" by (cases "civil_of_days 0") (simp add: iso_timestamp_def)
  obtain prm where prm: "approval_params pq = Inr prm"
    using pq(3,4) ntc by (auto simp: approval_params_def payload_of_def sample_params_def)
  have can: "can_suspend ?deps st1" by (simp add: can_suspend_def st1 unaudited_state_def sample_state_def sample_deps_def)
  obtain x st3 where susp: "suspend_call ?deps ?env pq st1 = (x, st3)" by fastforce
  with m2 prm t pq(2) have "x = Inr i"
    by (auto simp: suspend_call_def action_iffs create_in_def create_approval_def notify_def sample_deps_def st1
        unaudited_state_def sample_state_def opt_list_def sample_env_def)
  with suspend_call_state [OF susp can] have pend: "requests_of \<lparr>lv_state = st3, lv_waiting = []\<rparr> i = Some Pending"
    by (auto simp: requests_of_def approval_status_def get_approval_def pending_request_def st1 unaudited_state_def
        sample_state_def opt_list_def)
  have app: "append_audit ?deps ?env rec st1 = (Inr (), st1)" by (simp add: append_audit_def st1 unaudited_state_def)
  obtain y where fin: "finish_call_of ?deps ?env pq unaudited_state = (y, st3)"
    using a r app can susp \<open>x = Inr i\<close>
    by (auto simp: finish_call_of_def defer_call_def bind_s_def lift_s_def read_s_def)
  have "live_reachable ?deps ?s0 ?s0" by (rule start [OF unaudited_starts])
  from step [OF this arrive [OF _ pq(1)]] ntc
  have "live_reachable ?deps ?s0 \<lparr>lv_state = unaudited_state, lv_waiting = [pq]\<rparr>" by simp
  from step [OF this resume [OF _ fin]] have "live_reachable ?deps ?s0 \<lparr>lv_state = st3, lv_waiting = []\<rparr>" by simp
  with pend colon wf1 can susp \<open>x = Inr i\<close> show ?thesis
    by (intro exI [of _ "\<lparr>lv_state = st3, lv_waiting = []\<rparr>"] exI [of _ i] exI [of _ pq] exI [of _ st1]) simp
qed

lemma sample_approved:
  "\<exists>s s' i. live_reachable (sample_deps strict_risk) \<lparr>lv_state = unaudited_state, lv_waiting = []\<rparr> s
     \<and> live_step (sample_deps strict_risk) s s' \<and> requests_of s i = Some Pending \<and> requests_of s' i = Some Approved"
proof -
  let ?deps = "sample_deps strict_risk" and ?env = "sample_env None" and ?s0 = "\<lparr>lv_state = unaudited_state, lv_waiting = []\<rparr>"
  from sample_suspension obtain s i where s: "live_reachable ?deps ?s0 s" "58 \<notin> set i" "requests_of s i = Some Pending"
    by blast
  obtain sg where sg: "de_signer ?deps = Some sg" "sg = new_signer [] None" by (simp add: sample_deps_def)
  obtain tok where tok: "tok = sign (de_hmac ?deps) sg 0 i ActApprove" by blast
  have ver: "verify (de_hmac ?deps) sg (int (ne_wall ?env)) tok = Inr (i, ActApprove)"
    unfolding verify_Inr_iff tok sign_def Let_def split_token [OF s(2)]
    by (simp add: sample_env_def sg new_signer_def)
  have "tok \<noteq> []" by (simp add: tok sign_def token_payload_def Let_def)
  moreover have "table_ok (lv_state s)" using live_reachable_inv [OF s(1)] by (simp add: live_inv_def)
  ultimately obtain s' where "live_step ?deps s s'" "requests_of s' = (requests_of s)(i := Some Approved)"
    using link_decides [OF sg(1), of ?env tok i True s] ver s(3) by (auto simp: link_action_def sample_env_def)
  with s show ?thesis by (metis fun_upd_same)
qed

section \<open>Properties\<close>

text \<open>
  C7: The gateway refines the life of a request. From a start on fresh databases, where there are none, every
  reachable state has requests an abstract run leads to, and each further step of the gateway, whatever
  request, link, cancellation, restart or change of the surroundings it is, opens a new pending request, approves or denies a
  pending one, or leaves the requests alone: none is lost, reopened, decided twice or decided unopened.
\<close>

theorem gateway_refines_lifecycle:
  assumes "live_reachable deps s0 s"
  shows "requests_of s0 = (\<lambda>_. None) \<and> lifecycle\<^sup>*\<^sup>* (requests_of s0) (requests_of s)
    \<and> (\<forall>s'. live_step deps s s' \<longrightarrow> lifecycle (requests_of s) (requests_of s'))"
proof (intro conjI allI impI)
  from assms show "requests_of s0 = (\<lambda>_. None)" by (induction rule: live_reachable.induct) (simp_all add: requests_start)
  from assms show "lifecycle\<^sup>*\<^sup>* (requests_of s0) (requests_of s)"
    by (induction rule: live_reachable.induct)
      (auto intro: rtranclp.rtrancl_into_rtrancl step_lifecycle live_reachable_inv)
  show "lifecycle (requests_of s) (requests_of s')" if "live_step deps s s'" for s'
    using that live_reachable_inv [OF assms] by (rule step_lifecycle)
qed

theorem gateway_refines_lifecycle_witness:
  "\<exists>s s' i. live_step (sample_deps strict_risk) s s' \<and> requests_of s i = Some Pending \<and> requests_of s' i = Some Approved
     \<and> lifecycle\<^sup>*\<^sup>* (\<lambda>_. None) (requests_of s) \<and> lifecycle (requests_of s) (requests_of s')"
proof -
  obtain s s' i where s: "live_reachable (sample_deps strict_risk) \<lparr>lv_state = unaudited_state, lv_waiting = []\<rparr> s"
    "live_step (sample_deps strict_risk) s s'" "requests_of s i = Some Pending" "requests_of s' i = Some Approved"
    using sample_approved by blast
  from gateway_refines_lifecycle [OF s(1)] s(2-4) show ?thesis by force
qed

text \<open>
  C8: Approval takes a signed link. In any run that began on fresh databases, restarts included, a step after
  which a request is approved that was not approved before is the request of an approve link with that id,
  whose token the signer verifies for that id and the action approve at that moment.
\<close>

theorem approval_takes_a_signed_link:
  assumes "live_reachable deps s0 s" "live_step deps s s'"
    and "requests_of s i \<noteq> Some Approved" "requests_of s' i = Some Approved"
  shows "\<exists>env sg tok reply. de_signer deps = Some sg
    \<and> verify (de_hmac deps) sg (int (ne_wall env)) tok = Inr (i, ActApprove)
    \<and> handle_link deps env True i (Some tok) (lv_state s) = (reply, lv_state s')"
  using step_approval [OF assms(2) live_reachable_inv [OF assms(1)] assms(3,4)] .

theorem approval_takes_a_signed_link_witness:
  "\<exists>s s' i env tok reply. live_step (sample_deps strict_risk) s s' \<and> requests_of s i = Some Pending
     \<and> handle_link (sample_deps strict_risk) env True i (Some tok) (lv_state s) = (reply, lv_state s')"
proof -
  obtain s s' i where s: "live_reachable (sample_deps strict_risk) \<lparr>lv_state = unaudited_state, lv_waiting = []\<rparr> s"
    "live_step (sample_deps strict_risk) s s'" "requests_of s i = Some Pending" "requests_of s' i = Some Approved"
    using sample_approved by blast
  from approval_takes_a_signed_link [OF s(1,2) _ s(4)] s(2,3) show ?thesis by force
qed

text \<open>
  C9: The loop with the human closes. A call that is suspended notifies two tokens under its id; in any later
  state in which the request is still pending, following the link of either one before it expires is a
  step of the gateway that answers with its page and gives this request that decision, and no other
  request anything, provided the database accepts the write.
\<close>

theorem notified_link_decides:
  assumes "suspend_call deps env pq st = (Inr i, st1)" and "can_suspend deps st"
    and "wf_factory (ss_ids st)" and "length (mt_bytes (ne_task env)) = 16"
    and "live_reachable deps s0 s" and "requests_of s i = Some Pending" and "ne_approvalFault later = None"
    and "de_signer deps = Some sg"
    and "int (ne_wall later) \<le> (if decision then ne_approveAt env else ne_denyAt env) + expirationMs sg"
  shows "\<exists>a d s'. Notified i a d \<in> set (ss_trace st1)
    \<and> handle_link deps later decision i (Some (if decision then a else d)) (lv_state s)
        = (Reply 200 (link_page decision), lv_state s')
    \<and> live_step deps s s' \<and> requests_of s' = (requests_of s)(i := Some (if decision then Approved else Denied))"
proof -
  let ?tok = "\<lambda>decision. sign (de_hmac deps) sg (if decision then ne_approveAt env else ne_denyAt env) i (link_action decision)"
  obtain f m where m: "mint_id KTask (ne_task env) st = (m, f)" by fastforce
  with assms(1) have "m = Inr i" by (auto simp: suspend_call_def action_iffs notify_def split: option.splits)
  with minted_no_colon [OF _ assms(3,4)] m have colon: "58 \<notin> set i" by blast
  have told: "Notified i (?tok True) (?tok False) \<in> set (ss_trace st1)"
    using assms(1,8) by (auto simp: suspend_call_def action_iffs notify_def emit_def link_action_def split: option.splits)
  have ver: "verify (de_hmac deps) sg (int (ne_wall later)) (?tok decision) = Inr (i, link_action decision)"
    using signed_token_verifies [of "de_hmac deps" sg "int (ne_wall later)"
        "if decision then ne_approveAt env else ne_denyAt env" i "link_action decision"] colon assms(9) by simp
  have "?tok decision \<noteq> []" by (simp add: sign_def token_payload_def Let_def)
  moreover have "table_ok (lv_state s)" using live_reachable_inv [OF assms(5)] by (simp add: live_inv_def)
  ultimately obtain s' where "handle_link deps later decision i (Some (?tok decision)) (lv_state s)
        = (Reply 200 (link_page decision), lv_state s')"
      "live_step deps s s'" "requests_of s' = (requests_of s)(i := Some (if decision then Approved else Denied))"
    using link_decides [OF assms(8) ver _ assms(7) _ assms(6)] by blast
  with told show ?thesis by (intro exI [of _ "?tok True"] exI [of _ "?tok False"] exI [of _ s']) (cases decision; simp)
qed

theorem notified_link_decides_witness:
  "\<exists>s s' i a. live_reachable (sample_deps strict_risk) \<lparr>lv_state = unaudited_state, lv_waiting = []\<rparr> s
     \<and> requests_of s i = Some Pending
     \<and> handle_link (sample_deps strict_risk) (sample_env None) True i (Some a) (lv_state s) = (Reply 200 (link_page True), lv_state s')
     \<and> requests_of s' = (requests_of s)(i := Some Approved)"
proof -
  let ?deps = "sample_deps strict_risk" and ?env = "sample_env None"
  from sample_suspension obtain s i pq st where
    s: "live_reachable ?deps \<lparr>lv_state = unaudited_state, lv_waiting = []\<rparr> s" "requests_of s i = Some Pending"
      "wf_factory (ss_ids st)" "can_suspend ?deps st" "suspend_call ?deps ?env pq st = (Inr i, lv_state s)" by blast
  have "length (mt_bytes (ne_task ?env)) = 16" "ne_approvalFault ?env = None"
      "int (ne_wall ?env) \<le> (if True then ne_approveAt ?env else ne_denyAt ?env) + expirationMs (new_signer [] None)"
      "de_signer ?deps = Some (new_signer [] None)"
    by (simp_all add: sample_env_def sample_bytes sample_deps_def new_signer_def)
  from notified_link_decides [OF s(5,4,3) this(1) s(1,2) this(2,4,3)] s(1,2) show ?thesis by auto
qed

end
