(* ===== verification/Doubles.thy ===== *)
theory Doubles
  imports Values
begin

text \<open>
  Arithmetic on the numbers of the language where a decimal is not enough: a decimal stands for the double
  nearest to it, a product of doubles is rounded to a double, and \<open>toFixed\<close> reads a double's exact value.
  Doubles here are not negative.
\<close>

section \<open>Rounding\<close>

text \<open>The natural number nearest to \<open>p / q\<close>, the even one of two; and \<open>p / (q * 2 ^ k)\<close>.\<close>

definition round_even :: "nat \<Rightarrow> nat \<Rightarrow> nat" where
  "round_even p q = (let n = p div q; r = p mod q in if q < 2 * r \<or> 2 * r = q \<and> odd n then Suc n else n)"

definition scaled :: "nat \<Rightarrow> nat \<Rightarrow> int \<Rightarrow> nat \<times> nat" where
  "scaled p q k = (if 0 \<le> k then (p, q * 2 ^ nat k) else (p * 2 ^ nat (- k), q))"

fun bit_count :: "nat \<Rightarrow> nat" where
  "bit_count n = (if n = 0 then 0 else Suc (bit_count (n div 2)))"

declare bit_count.simps [simp del]

text \<open>The double nearest to \<open>p / q\<close>, as \<open>m * 2 ^ k\<close> with \<open>m\<close> of 53 bits, fewer for the subnormal ones.\<close>

definition nearest_double :: "nat \<Rightarrow> nat \<Rightarrow> nat \<times> int" where
  "nearest_double p q =
     (let k = int (bit_count p) - int (bit_count q) - 53;
          (a, b) = scaled p q k;
          k' = max (- 1074) (if a div b < 2 ^ 53 then k else k + 1)
      in (case scaled p q k' of (a, b) \<Rightarrow> round_even a b, k'))"

text \<open>A double as a fraction; \<open>None\<close> is infinity.\<close>

definition double_ratio :: "nat \<times> int \<Rightarrow> (nat \<times> nat) option" where
  "double_ratio d = (case d of (m, k) \<Rightarrow>
     if m = 0 then Some (0, 1)
     else if k < 0 then Some (m, 2 ^ nat (- k))
     else if 2 ^ 1024 \<le> m * 2 ^ nat k then None
     else Some (m * 2 ^ nat k, 1))"

definition decimal_double :: "nat \<Rightarrow> int \<Rightarrow> (nat \<times> nat) option" where
  "decimal_double d e = double_ratio (if 0 \<le> e then nearest_double (d * 10 ^ nat e) 1 else nearest_double d (10 ^ nat (- e)))"

definition times_double :: "nat \<Rightarrow> (nat \<times> nat) option \<Rightarrow> (nat \<times> nat) option" where
  "times_double c x = (case x of None \<Rightarrow> None | Some (a, b) \<Rightarrow> double_ratio (nearest_double (c * a) b))"

section \<open>Text\<close>

text \<open>The shortest decimal of an integral double: the fewest digits that are read back as this double.\<close>

definition shortest_decimal :: "nat \<Rightarrow> nat \<times> nat" where
  "shortest_decimal n =
     (let size = length (dec n);
          candidates = concat (map (\<lambda>j. let e = size - j; u = 10 ^ e in
            [((2 * n + u) div (2 * u), e), (n div u, e), (Suc (n div u), e)]) [1..<18])
      in case find (\<lambda>(d, e). double_ratio (nearest_double (d * 10 ^ e) 1) = Some (n, 1)) candidates of
           Some c \<Rightarrow> c
         | None \<Rightarrow> (n, 0))"

definition decimal_text :: "nat \<times> nat \<Rightarrow> jstring" where
  "decimal_text c = (case c of (d, e) \<Rightarrow> case strip_zeros d (int e) of (m, x) \<Rightarrow> num_text (Finite False m x))"

text \<open>\<open>x.toFixed(f)\<close> for \<open>f > 0\<close>.\<close>

definition fixed_digits :: "nat \<Rightarrow> nat \<Rightarrow> nat \<Rightarrow> nat" where
  "fixed_digits f a b = (2 * a * 10 ^ f + b) div (2 * b)"

definition to_fixed :: "nat \<Rightarrow> (nat \<times> nat) option \<Rightarrow> jstring" where
  "to_fixed f x = (case x of
      None \<Rightarrow> js ''Infinity''
    | Some (a, b) \<Rightarrow>
        if 10 ^ 21 * b \<le> a then decimal_text (shortest_decimal a)
        else let t = dec (fixed_digits f a b); padded = replicate (Suc f - length t) 48 @ t
             in take (length padded - f) padded @ 46 # drop (length padded - f) padded)"

section \<open>Accuracy\<close>

lemma round_even_near:
  assumes "0 < q"
  shows "2 * p \<le> 2 * (round_even p q * q) + q" "2 * (round_even p q * q) \<le> 2 * p + q"
proof -
  obtain n r where n: "n = p div q" "r = p mod q" by blast
  have "p = n * q + r" "r < q" using assms by (simp_all add: n)
  moreover have "Suc n * q = n * q + q" by simp
  ultimately show "2 * p \<le> 2 * (round_even p q * q) + q" "2 * (round_even p q * q) \<le> 2 * p + q"
    unfolding round_even_def Let_def n [symmetric] by (auto simp del: mult_Suc)
qed

lemma fixed_near:
  assumes "0 < b"
  shows "2 * a * 10 ^ f \<le> 2 * b * fixed_digits f a b + b" "2 * b * fixed_digits f a b \<le> 2 * a * 10 ^ f + b"
proof -
  obtain N where N: "N = 2 * a * 10 ^ f + b" by blast
  have "N = 2 * b * (N div (2 * b)) + N mod (2 * b)" "N mod (2 * b) < 2 * b" using assms by simp_all
  then show "2 * a * 10 ^ f \<le> 2 * b * fixed_digits f a b + b" "2 * b * fixed_digits f a b \<le> 2 * a * 10 ^ f + b"
    unfolding fixed_digits_def N [symmetric] using N by linarith+
qed

text \<open>The double nearest to 0.15 is a little less than that, and 0.29 times 100 is not 29.\<close>

lemma double_examples:
  "decimal_double 15 (- 2) = Some (5404319552844595, 36028797018963968)"
  "decimal_double 29 (- 2) = Some (5224175567749775, 18014398509481984)"
  "decimal_double 9973 (- 4) = Some (8982879816753191, 9007199254740992)"
  by (simp_all add: decimal_double_def double_ratio_def nearest_double_def scaled_def round_even_def bit_count.simps)

lemma product_examples:
  "times_double 100 (Some (5224175567749775, 18014398509481984)) = Some (8162774324609023, 281474976710656)"
  "times_double 100 (Some (8982879816753191, 9007199254740992)) = Some (7017874856838430, 70368744177664)"
  unfolding times_double_def option.case prod.case
  by (simp_all add: double_ratio_def nearest_double_def scaled_def round_even_def bit_count.simps)

lemma fixed_examples:
  "to_fixed 1 (decimal_double 15 (- 2)) = js ''0.1''"
  "to_fixed 1 (times_double 100 (decimal_double 9973 (- 4))) = js ''99.7''"
  "times_double 100 (decimal_double 29 (- 2)) \<noteq> Some (29, 1)"
  unfolding double_examples product_examples
  by (simp_all add: to_fixed_def fixed_digits_def js_def dec.simps digit_char_def)

end
