(* ===== verification/Detectors.thy ===== *)
theory Detectors
  imports Redact
begin

text \<open>
  The text detectors of the scanner package: \<open>detectors/unicode.ts\<close>, invisible and deceptive characters,
  and \<open>detectors/poisoning.ts\<close>, instructions aimed at the model, in the clear or base64-encoded.
\<close>

section \<open>Invisible and deceptive characters\<close>

definition invisible_char :: "code_unit \<Rightarrow> bool" where
  "invisible_char c = (c \<in> {0x200B, 0x200C, 0x200D, 0x200E, 0x200F, 0xFEFF, 0x2060, 0x2061, 0x2062, 0x2063, 0x2064,
     0xAD, 0x34F})"

definition bidi_control :: "code_unit \<Rightarrow> bool" where
  "bidi_control c = ((0x202A \<le> c \<and> c \<le> 0x202E) \<or> (0x2066 \<le> c \<and> c \<le> 0x2069))"

text \<open>The tag characters U+E0001 to U+E007F, each a pair of code units.\<close>

definition tag_low :: "code_unit \<Rightarrow> bool" where
  "tag_low c = (0xDC01 \<le> c \<and> c \<le> 0xDC7F)"

definition tag_characters :: regex where
  "tag_characters = RSeq (RSet (\<lambda>c. c = 0xDB40)) (RSet tag_low)"

definition cyrillic_confusable :: "code_unit \<Rightarrow> bool" where
  "cyrillic_confusable c = (c \<in> {0x430, 0x435, 0x43E, 0x440, 0x441, 0x445, 0x443, 0x456})"

record unicode_group =
  ug_kind :: jstring
  ug_severity :: severity
  ug_pattern :: regex
  ug_title :: jstring

definition unicode_groups :: "unicode_group list" where
  "unicode_groups =
    [\<lparr>ug_kind = js ''unicode-bidi'', ug_severity = High, ug_pattern = RSet bidi_control,
      ug_title = js ''Bidirectional control characters in text''\<rparr>,
     \<lparr>ug_kind = js ''unicode-tags'', ug_severity = Critical, ug_pattern = tag_characters,
      ug_title = js ''Unicode tag characters (hidden message channel)''\<rparr>,
     \<lparr>ug_kind = js ''unicode-invisible'', ug_severity = High, ug_pattern = RSet invisible_char,
      ug_title = js ''Invisible formatting characters in text''\<rparr>,
     \<lparr>ug_kind = js ''unicode-confusable'', ug_severity = Medium, ug_pattern = RSet cyrillic_confusable,
      ug_title = js ''Cyrillic homoglyph characters (Latin confusables)''\<rparr>]"

text \<open>\<open>cp.toString(16).toUpperCase().padStart(4, '0')\<close>.\<close>

fun hex_digits :: "nat \<Rightarrow> jstring" where
  "hex_digits n = (if n < 16 then [hex_upper n] else hex_digits (n div 16) @ [hex_upper (n mod 16)])"

declare hex_digits.simps [simp del]

definition code_point_text :: "nat \<Rightarrow> jstring" where
  "code_point_text n = js ''U+'' @ replicate (4 - length (hex_digits n)) 48 @ hex_digits n"

text \<open>The distinct values of a list in the order of their first occurrence, as a \<open>Set\<close> iterates.\<close>

definition unique :: "'a list \<Rightarrow> 'a list" where
  "unique xs = foldl (\<lambda>seen x. if x \<in> set seen then seen else seen @ [x]) [] xs"

definition unicode_evidence :: "jstring list \<Rightarrow> jstring" where
  "unicode_evidence matches =
     (let uniqueCodePoints = unique (concat (map (\<lambda>m. map code_point_text (code_points m)) matches)) in
      join_with (js '', '') (take 10 uniqueCodePoints)
      @ (if length uniqueCodePoints > 10
         then js '', '' @ 0x2026 # js '' (+'' @ dec (length uniqueCodePoints - 10) @ js '' more)'' else []))"

definition unicode_finding :: "jstring \<Rightarrow> jstring \<Rightarrow> unicode_group \<Rightarrow> scan_finding list" where
  "unicode_finding text location grp =
     (let matches = regex_matches (ug_pattern grp) text; evidence = unicode_evidence matches in
      if length matches = 0 then []
      else [\<lparr>sf_id = ug_kind grp @ 45 # location, sf_detector = js ''unicode'', sf_severity = ug_severity grp,
             sf_title = ug_title grp,
             sf_detail = js ''Found '' @ dec (length matches) @ 32 # ug_kind grp @ js '' character(s). ''
               @ js ''Code points: '' @ evidence @ js ''. ''
               @ js ''These characters are invisible or deceptive and can hide instructions from human reviewers.'',
             sf_location = location, sf_evidence = Some evidence\<rparr>])"

definition detect_unicode :: "jstring \<Rightarrow> jstring \<Rightarrow> scan_finding list" where
  "detect_unicode text location = concat (map (unicode_finding text location) unicode_groups)"

definition strip_invisible_unicode :: "jstring \<Rightarrow> jstring" where
  "strip_invisible_unicode text =
     regex_replace tag_characters (\<lambda>_. [])
       (regex_replace (RSet bidi_control) (\<lambda>_. []) (regex_replace (RSet invisible_char) (\<lambda>_. []) text))"

section \<open>Instructions aimed at the model\<close>

record pattern_rule =
  pt_id :: jstring
  pt_severity :: severity
  pt_title :: jstring
  pt_patterns :: "regex list"
  pt_detail :: jstring

abbreviation r_sp :: regex where "r_sp \<equiv> r_plus r_space"
abbreviation r_sp0 :: regex where "r_sp0 \<equiv> RStar r_space"
abbreviation r_the :: regex where "r_the \<equiv> r_opt (RSeq (r_ilit ''the'') r_sp)"

text \<open>\<open>\b ... \b\<close> around a sequence, and one that is open at the end.\<close>

definition r_bounded :: "regex list \<Rightarrow> regex" where
  "r_bounded rs = r_seq (RBoundary # rs @ [RBoundary])"

definition r_headed :: "regex list \<Rightarrow> regex" where
  "r_headed rs = r_seq (RBoundary # rs)"

definition r_plural :: "string \<Rightarrow> regex" where
  "r_plural s = RSeq (r_ilit s) (r_opt (r_ilit ''s''))"

definition r_http :: regex where
  "r_http = r_seq [r_ilit ''http'', r_opt (r_ilit ''s''), r_ilit ''://'']"

definition imperative_rule :: pattern_rule where
  "imperative_rule = \<lparr>pt_id = js ''imperative-instruction'', pt_severity = High,
     pt_title = js ''Imperative instruction embedded in description'',
     pt_patterns =
      [r_bounded [r_ilit ''you '', r_ilits [''must'', ''should'', ''need to'', ''have to'', ''are required to'']],
       r_bounded [r_ilits [''always'', ''never''], r_sp,
         r_ilits [''do'', ''send'', ''include'', ''pass'', ''call'', ''run'', ''execute'']],
       r_bounded [r_ilits [''before'', ''after''], r_sp, r_ilits [''calling'', ''using'', ''running''], r_sp,
         r_ilits [''this'', ''any'', ''the'']],
       r_headed [r_ilit ''IMPORTANT'', r_sp0, r_ilit '':''],
       r_bounded [r_ilits [''follow'', ''obey'', ''comply with''], r_sp,
         r_ilits [''the'', ''these'', ''the following'', ''this''], r_sp,
         r_alt [r_plural ''instruction'', r_plural ''step'', r_plural ''rule'']],
       r_bounded [r_alt [r_seq [r_ilit ''step'', r_sp, r_plus r_digit], r_ilits [''first'', ''then'', ''next'', ''finally'']],
         r_sp0, r_any_of '',:'', r_sp0, r_ilits [''read'', ''write'', ''send'', ''call'', ''execute'', ''run'']]],
     pt_detail = js ''Tool descriptions should document what the tool does, not instruct the model. ''
       @ js ''Imperative phrasing ('' @ 34 # js ''you must'' @ 34 # js '', '' @ 34 # js ''always send'' @ 34
         # js '') is a strong indicator of prompt injection.''\<rparr>"

definition secrecy_rule :: pattern_rule where
  "secrecy_rule = (let telling = r_ilits [''tell'', ''mention'', ''reveal'', ''disclose'', ''show'', ''display'', ''inform''] in
    \<lparr>pt_id = js ''secrecy-directive'', pt_severity = Critical, pt_title = js ''Secrecy directive detected'',
     pt_patterns =
      [r_bounded [r_ilit ''do'', r_sp, r_ilit ''not'', r_sp, telling],
       r_bounded [r_ilit ''don'', r_opt (RSet (\<lambda>c. c = 39)), r_ilit ''t'', r_sp, telling],
       r_bounded [r_ilit ''keep'', r_sp, r_ilits [''this'', ''it''], r_sp,
         r_ilits [''secret'', ''hidden'', ''private'', ''confidential'']],
       r_bounded [r_ilit ''hide'', r_sp, r_ilits [''this'', ''it''], r_sp, r_ilit ''from'', r_sp, r_the, r_ilit ''user''],
       r_bounded [r_ilit ''never'', r_sp, r_ilits [''mention'', ''reveal'', ''disclose'', ''show'']],
       r_bounded [r_ilits [''silently'', ''quietly'', ''secretly''], r_sp,
         r_ilits [''send'', ''pass'', ''include'', ''add'', ''embed'']]],
     pt_detail = js ''Secrecy directives ('' @ 34 # js ''do not tell the user'' @ 34
         # js '') have no legitimate purpose in a tool description. ''
       @ js ''They are a hallmark of tool poisoning attacks that try to prevent the user from learning ''
       @ js ''what the agent is being instructed to do.''\<rparr>)"

definition sensitive_path_rule :: pattern_rule where
  "sensitive_path_rule = \<lparr>pt_id = js ''sensitive-path'', pt_severity = High,
     pt_title = js ''Reference to sensitive file paths'',
     pt_patterns =
      [RSeq (r_ilits [''~'', ''$HOME'', ''%USERPROFILE%'']) (r_ilit ''/.ssh/''),
       r_seq [r_ilit ''.ssh/'', r_ilits [''id_rsa'', ''id_ed25519'', ''id_dsa'', ''authorized_keys'', ''known_hosts'', ''config''],
         RBoundary],
       r_seq [r_ilit ''/etc/'', r_ilits [''shadow'', ''passwd'', ''sudoers''], RBoundary],
       r_seq [r_ilit ''.'', r_ilits [''env'', ''npmrc'', ''pypirc'', ''netrc'', ''pgpass'', ''my.cnf'', ''docker/config.json''],
         RBoundary],
       r_seq [r_ilit ''.aws/'', r_ilits [''credentials'', ''config''], RBoundary],
       RSeq (r_ilit ''.kube/config'') RBoundary,
       r_ilit ''.gnupg/'',
       RSeq (r_ilit ''/.git/config'') RBoundary,
       (let dash = r_opt (r_any_of ''_-'') in
        RSeq (r_alt [r_seq [r_ilit ''private'', dash, r_ilit ''key''], r_seq [r_ilit ''secret'', dash, r_ilit ''key''],
               r_seq [r_ilit ''api'', dash, r_ilit ''key''], r_seq [r_ilit ''access'', dash, r_ilit ''token'']]) RBoundary)],
     pt_detail = js ''A tool description referencing sensitive file paths (SSH keys, credentials, etc.) ''
       @ js ''is likely attempting to direct the agent to read and exfiltrate private data.''\<rparr>"

definition exfiltration_rule :: pattern_rule where
  "exfiltration_rule = (let rest_of_line = RLazy (RSet (\<lambda>c. c \<noteq> 13 \<and> c \<noteq> 10)) in
    \<lparr>pt_id = js ''exfiltration-pattern'', pt_severity = Critical, pt_title = js ''Data exfiltration pattern detected'',
     pt_patterns =
      [r_bounded [r_ilit ''send'', r_sp, r_the,
         r_alt [r_plural ''content'', r_ilit ''data'', r_plural ''result'', r_ilit ''output'', r_ilit ''response''],
         r_sp, r_ilit ''to''],
       r_bounded [r_ilit ''post'', r_sp, r_the, r_alt [r_ilit ''data'', r_plural ''content'', r_plural ''result''], r_sp,
         r_ilit ''to'', r_sp,
         r_alt [r_http, r_seq [r_ilit ''a'', r_opt (r_ilit ''n''), r_sp, r_ilits [''external'', ''remote''], r_sp,
           r_ilits [''url'', ''server'', ''endpoint'']]]],
       r_bounded [r_ilit ''pass'', r_sp,
         r_alt [r_ilit ''it'', r_seq [r_ilit ''the'', r_sp, r_plural ''content''], r_seq [r_ilit ''the'', r_sp, r_ilit ''data'']],
         r_sp, r_ilit ''as'', r_sp, r_opt (RSeq (r_ilit ''a'') r_sp),
         r_ilits [''parameter'', ''argument'', ''header'', ''body'']],
       r_bounded [r_ilits [''encode'', ''base64'', ''encrypt''], r_sp, r_opt (RSeq (r_ilit ''and'') r_sp),
         r_ilits [''send'', ''pass'', ''include'', ''embed'']],
       r_headed [r_ilit ''curl'', RBoundary, rest_of_line, r_http],
       r_headed [r_ilit ''wget'', RBoundary, rest_of_line, r_http],
       r_headed [r_ilit ''fetch'', r_sp0, r_ilit ''('', r_sp0, RSet (\<lambda>c. c = 39 \<or> c = 34), r_http]],
     pt_detail = js ''Instructions to send data to external endpoints, encode data for exfiltration, ''
       @ js ''or embed secrets in parameters are strong indicators of a poisoning attack.''\<rparr>)"

definition cross_tool_rule :: pattern_rule where
  "cross_tool_rule = (let named = RSeq (r_plus r_word) (r_opt (RSeq (r_ilit ''__'') (r_plus r_word))) in
    \<lparr>pt_id = js ''cross-tool-manipulation'', pt_severity = High, pt_title = js ''Cross-tool instruction detected'',
     pt_patterns =
      [r_bounded [r_ilits [''when'', ''before'', ''after''], r_sp, r_opt (RSeq (r_ilit ''you'') r_sp),
         r_ilits [''use'', ''call'', ''invoke'', ''run''], r_sp, r_the, named, r_sp0,
         r_opt (r_ilits [''tool'', ''function'', ''command'']), r_sp0, r_any_of '',;'', r_sp0,
         r_ilits [''also'', ''first'', ''then'']],
       r_bounded [r_ilits [''also'', ''additionally'', ''furthermore''], r_sp,
         r_ilits [''call'', ''use'', ''invoke'', ''run'', ''execute''], r_sp, r_the, named],
       r_bounded [r_alt [r_seq [r_ilit ''instead'', r_sp, r_ilit ''of''], r_seq [r_ilit ''rather'', r_sp, r_ilit ''than'']],
         r_sp, r_ilits [''calling'', ''using'']],
       r_bounded [r_ilit ''forward'', r_sp, r_ilits [''all'', ''every'', ''the''], r_sp,
         r_ilits [''request'', ''call'', ''data'']]],
     pt_detail = js ''Instructions that direct the model to use other tools in specific ways (T5 cross-server ''
       @ js ''instruction injection). A tool description should only document its own functionality.''\<rparr>)"

definition role_override_rule :: pattern_rule where
  "role_override_rule = \<lparr>pt_id = js ''role-override'', pt_severity = Critical,
     pt_title = js ''System/role prompt override attempt'',
     pt_patterns =
      [r_bounded [r_ilits [''ignore'', ''disregard'', ''forget''], r_sp, r_opt (RSeq (r_ilit ''all'') r_sp),
         r_ilits [''previous'', ''prior'', ''above'', ''earlier''], r_sp,
         r_alt [r_plural ''instruction'', r_plural ''prompt'', r_plural ''rule'', r_plural ''guideline'']],
       r_bounded [r_ilit ''you'', r_sp, r_ilit ''are'', r_sp, r_ilits [''now'', ''actually'', ''really''], r_sp,
         r_ilits [''a'', ''an'']],
       r_headed [r_ilit ''new'', r_sp, r_opt (RSeq (r_ilit ''system'') r_sp),
         r_alt [r_plural ''instruction'', r_ilit ''prompt'', r_plural ''rule'', r_ilit ''role''], r_sp0, r_ilit '':''],
       r_headed [r_ilits [''system'', ''assistant''], r_sp0, r_ilit '':'', r_space],
       r_seq [r_ilit ''['', r_sp0, r_ilit ''SYSTEM'', r_sp0, r_ilit '']''],
       r_bounded [r_alt [r_ilit ''entering'', r_seq [r_ilit ''switching'', r_sp, r_ilit ''to'']], r_sp,
         r_alt [r_seq [r_ilit ''a'', r_sp, r_ilit ''new''], r_ilits [''admin'', ''root'', ''developer'', ''debug'']],
         r_sp, r_ilit ''mode'']],
     pt_detail = js ''Attempting to override the model'' @ 39 # js ''s system prompt or role from within a tool description ''
       @ js ''is a direct prompt injection attack.''\<rparr>"

definition poisoning_rules :: "pattern_rule list" where
  "poisoning_rules = [imperative_rule, secrecy_rule, sensitive_path_rule, exfiltration_rule, cross_tool_rule,
     role_override_rule]"

text \<open>What a rule reports: one finding, with the first matches of up to three patterns, shortened.\<close>

definition shorten :: "nat \<Rightarrow> jstring \<Rightarrow> jstring" where
  "shorten n s = (if length s > n then take (n - 3) s @ [0x2026] else s)"

definition rule_finding :: "jstring \<Rightarrow> jstring \<Rightarrow> pattern_rule \<Rightarrow> scan_finding list" where
  "rule_finding normalized location rule =
     (let matches = List.map_filter (\<lambda>p. regex_first p normalized) (pt_patterns rule) in
      if length matches = 0 then []
      else [\<lparr>sf_id = pt_id rule @ 45 # location, sf_detector = js ''poisoning'', sf_severity = pt_severity rule,
             sf_title = pt_title rule, sf_detail = pt_detail rule, sf_location = location,
             sf_evidence = Some (join_with (js '' | '') (map (shorten 80) (take 3 matches)))\<rparr>])"

definition detect_poisoning :: "jstring \<Rightarrow> jstring \<Rightarrow> scan_finding list" where
  "detect_poisoning text location =
     concat (map (rule_finding (strip_invisible_unicode text) location) poisoning_rules)"

section \<open>Encoded instructions\<close>

text \<open>
  \<open>Buffer.from(s, 'base64')\<close>: what is no base64 character is skipped, a rest of two or three characters
  gives one or two bytes, a rest of one gives none.
\<close>

fun base64_units :: "jstring \<Rightarrow> byte list" where
  "base64_units (w # x # r) =
     of_nat (b64_val w * 4 + b64_val x div 16) #
     (case r of
        [] \<Rightarrow> []
      | [y] \<Rightarrow> [of_nat (b64_val x mod 16 * 16 + b64_val y div 4)]
      | y # z # q \<Rightarrow> of_nat (b64_val x mod 16 * 16 + b64_val y div 4) # of_nat (b64_val y mod 4 * 64 + b64_val z)
                    # base64_units q)"
| "base64_units _ = []"

definition buffer_base64 :: "jstring \<Rightarrow> byte list" where
  "buffer_base64 s = base64_units (filter is_b64 s)"

text \<open>
  \<open>toString('utf8')\<close>: the longest part of a character that is well formed, or else one byte, becomes
  U+FFFD. The second byte of a character decides whether it is overlong or out of range.
\<close>

definition second_ok :: "nat \<Rightarrow> byte \<Rightarrow> bool" where
  "second_ok n c = (is_cont c \<and> (n = 0xE0 \<longrightarrow> 0xA0 \<le> unat c) \<and> (n = 0xED \<longrightarrow> unat c \<le> 0x9F)
     \<and> (n = 0xF0 \<longrightarrow> 0x90 \<le> unat c) \<and> (n = 0xF4 \<longrightarrow> unat c \<le> 0x8F))"

fun utf8_lossy :: "byte list \<Rightarrow> nat list" where
  "utf8_lossy [] = []"
| "utf8_lossy (b # bs) =
    (let n = unat b in
     if n < 0x80 then n # utf8_lossy bs
     else case bs of
        [] \<Rightarrow> [0xFFFD]
      | c # r \<Rightarrow>
         if \<not> (0xC2 \<le> n \<and> n \<le> 0xF4 \<and> second_ok n c) then 0xFFFD # utf8_lossy (c # r)
         else if n \<le> 0xDF then ((n - 0xC0) * 0x40 + (unat c - 0x80)) # utf8_lossy r
         else (case r of
            [] \<Rightarrow> [0xFFFD]
          | d # q \<Rightarrow>
             if \<not> is_cont d then 0xFFFD # utf8_lossy (d # q)
             else if n \<le> 0xEF
             then ((n - 0xE0) * 0x1000 + (unat c - 0x80) * 0x40 + (unat d - 0x80)) # utf8_lossy q
             else (case q of
                [] \<Rightarrow> [0xFFFD]
              | e # t \<Rightarrow>
                 if \<not> is_cont e then 0xFFFD # utf8_lossy (e # t)
                 else ((n - 0xF0) * 0x40000 + (unat c - 0x80) * 0x1000 + (unat d - 0x80) * 0x40
                       + (unat e - 0x80)) # utf8_lossy t)))"

declare utf8_lossy.simps(2) [simp del]

definition b64_pattern :: regex where
  "b64_pattern = RSeq (r_atleast 20 (RSet is_b64)) (r_upto 2 (r_lit ''=''))"

definition printable :: "code_unit \<Rightarrow> bool" where
  "printable c = (32 \<le> c \<and> c < 127)"

text \<open>The finding a candidate gives rise to, and the first candidate that gives one.\<close>

definition encoded_finding :: "jstring \<Rightarrow> jstring \<Rightarrow> scan_finding option" where
  "encoded_finding location candidate =
     (let decoded = of_code_points (utf8_lossy (buffer_base64 candidate)) in
      if length decoded < 4 then None
      else if 2 * length (filter printable decoded) < length decoded then None
      else let inner = detect_poisoning decoded (location @ js ''[base64-decoded]'') in
        if length inner > 0
        then Some \<lparr>sf_id = js ''encoded-poisoning-'' @ location, sf_detector = js ''poisoning'', sf_severity = Critical,
               sf_title = js ''Base64-encoded poisoning payload detected'',
               sf_detail = js ''A base64 string, when decoded, contains poisoning patterns: ''
                 @ join_with (js '', '') (map sf_title inner) @ js ''. Encoding is a common evasion technique.'',
               sf_location = location, sf_evidence = Some (shorten 120 decoded)\<rparr>
        else None)"

fun first_encoded :: "jstring \<Rightarrow> jstring list \<Rightarrow> scan_finding list" where
  "first_encoded location [] = []"
| "first_encoded location (m # ms) =
     (case encoded_finding location m of Some f \<Rightarrow> [f] | None \<Rightarrow> first_encoded location ms)"

definition detect_encoded_poisoning :: "jstring \<Rightarrow> jstring \<Rightarrow> scan_finding list" where
  "detect_encoded_poisoning text location = first_encoded location (regex_matches b64_pattern text)"

section \<open>What the detectors see\<close>

text \<open>A tag character in a text, and the strongest severity its characters deserve.\<close>

definition has_tag :: "jstring \<Rightarrow> bool" where
  "has_tag text = list_ex (\<lambda>(c, d). c = 0xDB40 \<and> tag_low d) (zip text (tl text))"

definition unicode_severity :: "jstring \<Rightarrow> severity option" where
  "unicode_severity text =
     (if has_tag text then Some Critical
      else if list_ex bidi_control text \<or> list_ex invisible_char text then Some High
      else if list_ex cyrillic_confusable text then Some Medium else None)"

lemma zip_tl_member: "(c, d) \<in> set (zip s (tl s)) \<longleftrightarrow> (\<exists>a b. s = a @ c # d # b)"
proof (induction s)
  case (Cons x s)
  have "(c, d) \<in> set (zip (x # s) s) \<longleftrightarrow> (x = c \<and> (\<exists>b. s = d # b)) \<or> (c, d) \<in> set (zip s (tl s))"
    by (cases s) auto
  also have "\<dots> \<longleftrightarrow> (\<exists>a b. x # s = a @ c # d # b)"
    unfolding Cons.IH by (auto simp: Cons_eq_append_conv)
  finally show ?case by simp
qed simp

lemma test_tag_iff: "regex_test tag_characters s \<longleftrightarrow> has_tag s"
proof -
  have "ends tag_characters (a, b) \<noteq> [] \<longleftrightarrow> (\<exists>d r. b = 0xDB40 # d # r \<and> tag_low d)" for a b
    by (cases b; cases "tl b") (auto simp: tag_characters_def)
  then have "regex_test tag_characters s \<longleftrightarrow> (\<exists>a d r. s = a @ 0xDB40 # d # r \<and> tag_low d)"
    unfolding regex_test_iff by auto
  also have "\<dots> \<longleftrightarrow> (\<exists>d. (0xDB40, d) \<in> set (zip s (tl s)) \<and> tag_low d)" unfolding zip_tl_member by blast
  finally show ?thesis by (auto simp: has_tag_def list_ex_iff)
qed

lemma unicode_finding_cases:
  "unicode_finding text location grp = [] \<longleftrightarrow> \<not> regex_test (ug_pattern grp) text"
  "f \<in> set (unicode_finding text location grp) \<Longrightarrow> sf_severity f = ug_severity grp"
  by (auto simp: unicode_finding_def Let_def matches_empty_iff split: if_splits)

text \<open>The characters \<open>stripInvisibleUnicode\<close> takes out one by one.\<close>

definition plain_char :: "code_unit \<Rightarrow> bool" where
  "plain_char c = (\<not> invisible_char c \<and> \<not> bidi_control c)"

lemma strip_eq: "strip_invisible_unicode text = regex_replace tag_characters (\<lambda>_. []) (filter plain_char text)"
  by (simp add: strip_invisible_unicode_def regex_replace_def replace_set plain_char_def [abs_def] conj_commute)

lemma strip_plain: "strip_invisible_unicode (filter plain_char text) = strip_invisible_unicode text"
  by (simp add: strip_eq)

text \<open>Decoding what encoding made.\<close>

lemma buffer_base64_to_base64: "buffer_base64 (to_base64 bs) = bs"
  unfolding buffer_base64_def
proof (induction bs rule: to_base64.induct)
  case (2 a)
  have q: "unat a div 4 < 64" "unat a mod 4 * 16 < 64" using unat_byte_bound [of a] by auto
  have "of_nat (unat a div 4 * 4 + unat a mod 4) = a" by (simp only: div_mult_mod_eq) simp
  with q show ?case by (simp add: b64_char_cases del: of_nat_add)
next
  case (3 a b)
  have q: "unat a div 4 < 64" "unat a mod 4 * 16 + unat b div 16 < 64" "unat b mod 16 * 4 < 64"
    "unat b div 16 < 16"
    using unat_byte_bound [of a] unat_byte_bound [of b] by auto
  have "of_nat (unat a div 4 * 4 + unat a mod 4) = a" "of_nat (unat b div 16 * 16 + unat b mod 16) = b"
    by (simp_all only: div_mult_mod_eq) simp_all
  with q show ?case by (simp add: b64_char_cases del: of_nat_add)
next
  case (4 a b c r)
  have q: "unat a div 4 < 64" "unat a mod 4 * 16 + unat b div 16 < 64"
    "unat b mod 16 * 4 + unat c div 64 < 64" "unat c mod 64 < 64" "unat b div 16 < 16" "unat c div 64 < 4"
    using unat_byte_bound [of a] unat_byte_bound [of b] unat_byte_bound [of c] by auto
  have "of_nat (unat a div 4 * 4 + unat a mod 4) = a" "of_nat (unat b div 16 * 16 + unat b mod 16) = b"
    "of_nat (unat c div 64 * 64 + unat c mod 64) = c"
    by (simp_all only: div_mult_mod_eq) simp_all
  with q 4 show ?case by (simp add: b64_char_cases del: of_nat_add)
qed simp

lemma utf8_lossy_valid: "utf8_decode bs = Some ns \<Longrightarrow> utf8_lossy bs = ns"
proof (induction "length bs" arbitrary: bs ns rule: less_induct)
  case less
  show ?case
  proof (cases bs)
    case Nil
    with less.prems show ?thesis by simp
  next
    case (Cons b r)
    note dec = less.prems [unfolded Cons utf8_decode.simps(2) Let_def]
    have ih: "utf8_lossy q = ms" if "length q \<le> length r" "utf8_decode q = Some ms" for q ms
      using less.hyps [of q ms] that Cons by simp
    consider (one) "unat b < 0x80" | (two) "\<not> unat b < 0x80" "0xC2 \<le> unat b \<and> unat b \<le> 0xDF"
      | (three) "\<not> unat b < 0x80" "\<not> (0xC2 \<le> unat b \<and> unat b \<le> 0xDF)" "0xE0 \<le> unat b \<and> unat b \<le> 0xEF"
      | (four) "\<not> unat b < 0x80" "\<not> (0xC2 \<le> unat b \<and> unat b \<le> 0xDF)"
          "\<not> (0xE0 \<le> unat b \<and> unat b \<le> 0xEF)" "0xF0 \<le> unat b \<and> unat b \<le> 0xF4"
      using dec by (auto split: if_splits)
    then show ?thesis
    proof cases
      case one
      with dec ih [of r] show ?thesis by (auto simp: Cons utf8_lossy.simps(2))
    next
      case two
      with dec obtain c q ms where "r = c # q" "is_cont c" "utf8_decode q = Some ms"
          "ns = ((unat b - 0xC0) * 0x40 + (unat c - 0x80)) # ms"
        by (auto split: list.splits if_splits)
      with two ih [of q ms] show ?thesis by (simp add: Cons utf8_lossy.simps(2) Let_def second_ok_def)
    next
      case three
      with dec obtain c d q ms where "r = c # d # q" "is_cont c \<and> is_cont d \<and> (unat b = 0xE0 \<longrightarrow> 0xA0 \<le> unat c) \<and> (unat b = 0xED \<longrightarrow> unat c \<le> 0x9F)"
          "utf8_decode q = Some ms"
          "ns = ((unat b - 0xE0) * 0x1000 + (unat c - 0x80) * 0x40 + (unat d - 0x80)) # ms"
        by (auto split: list.splits if_splits)
      with three ih [of q ms] show ?thesis by (simp add: Cons utf8_lossy.simps(2) Let_def second_ok_def)
    next
      case four
      with dec obtain c d e q ms where "r = c # d # e # q"
          "is_cont c \<and> is_cont d \<and> is_cont e \<and> (unat b = 0xF0 \<longrightarrow> 0x90 \<le> unat c) \<and> (unat b = 0xF4 \<longrightarrow> unat c \<le> 0x8F)"
          "utf8_decode q = Some ms"
          "ns = ((unat b - 0xF0) * 0x40000 + (unat c - 0x80) * 0x1000 + (unat d - 0x80) * 0x40 + (unat e - 0x80)) # ms"
        by (auto split: list.splits if_splits)
      with four ih [of q ms] show ?thesis by (simp add: Cons utf8_lossy.simps(2) Let_def second_ok_def)
    qed
  qed
qed

lemma decoded_encoded:
  assumes "well_formed t"
  shows "of_code_points (utf8_lossy (buffer_base64 (to_base64 (utf8 t)))) = t"
  using assms utf8_lossy_valid [OF utf8_decode_utf8 [OF assms]]
  by (simp add: buffer_base64_to_base64)

lemma first_some_iff: "(\<exists>m. regex_first r s = Some m) \<longleftrightarrow> regex_test r s"
  by (auto simp: regex_first_def regex_test_def)

lemma map_filter_Nil_iff: "List.map_filter f xs = [] \<longleftrightarrow> \<not> list_ex (\<lambda>x. f x \<noteq> None) xs"
  by (induction xs) (auto simp: List.map_filter_def)

definition rule_applies :: "jstring \<Rightarrow> pattern_rule \<Rightarrow> bool" where
  "rule_applies text rule = list_ex (\<lambda>p. regex_test p (strip_invisible_unicode text)) (pt_patterns rule)"

lemma rule_finding_shape:
  "map (\<lambda>f. (sf_id f, sf_severity f)) (rule_finding (strip_invisible_unicode text) location rule)
   = (if rule_applies text rule then [(pt_id rule @ 45 # location, pt_severity rule)] else [])"
  by (simp add: rule_finding_def Let_def rule_applies_def map_filter_Nil_iff first_some_iff)

lemma detect_poisoning_shape:
  "map (\<lambda>f. (sf_id f, sf_severity f)) (detect_poisoning text location)
   = map (\<lambda>r. (pt_id r @ 45 # location, pt_severity r)) (filter (rule_applies text) poisoning_rules)"
proof -
  have "map (\<lambda>f. (sf_id f, sf_severity f)) (concat (map (rule_finding (strip_invisible_unicode text) location) rs))
      = map (\<lambda>r. (pt_id r @ 45 # location, pt_severity r)) (filter (rule_applies text) rs)" for rs
    by (induction rs) (simp_all add: rule_finding_shape)
  then show ?thesis by (simp add: detect_poisoning_def)
qed

lemma poisoned_iff: "detect_poisoning text location \<noteq> [] \<longleftrightarrow> list_ex (rule_applies text) poisoning_rules"
proof -
  have "detect_poisoning text location = [] \<longleftrightarrow> map (\<lambda>f. (sf_id f, sf_severity f)) (detect_poisoning text location) = []"
    by simp
  then show ?thesis unfolding detect_poisoning_shape by (auto simp: filter_empty_conv list_ex_iff)
qed

section \<open>Properties\<close>

text \<open>
  Characters a reader cannot see do not hide instructions. The poisoning detector reports, in the order
  of the rules and with their severities, exactly the rules one of whose patterns matches the text without
  its invisible, bidirectional and tag characters; putting invisible or bidirectional characters into a
  text, anywhere and in any number, changes nothing of what is reported.
\<close>

theorem invisible_text_cannot_hide:
  "map (\<lambda>f. (sf_id f, sf_severity f)) (detect_poisoning text location)
     = map (\<lambda>r. (pt_id r @ 45 # location, pt_severity r)) (filter (rule_applies text) poisoning_rules)
   \<and> detect_poisoning text location = detect_poisoning (filter plain_char text) location"
proof
  show "detect_poisoning text location = detect_poisoning (filter plain_char text) location"
    by (simp add: detect_poisoning_def strip_plain)
qed (rule detect_poisoning_shape)

text \<open>
  Encoding does not hide instructions either. The base64 form of a well-formed text of at least four
  units, half of them printable ASCII, is reported exactly when the text itself is.
\<close>

theorem encoding_cannot_hide:
  assumes "well_formed t" "4 \<le> length t" "length t \<le> 2 * length (filter printable t)"
  shows "encoded_finding location (to_base64 (utf8 t)) \<noteq> None \<longleftrightarrow> list_ex (rule_applies t) poisoning_rules"
  using assms poisoned_iff [of t "location @ js ''[base64-decoded]''"]
  by (simp add: encoded_finding_def Let_def decoded_encoded)

lemma sample_poison: "list_ex (rule_applies (js ''do not tell'')) poisoning_rules"
proof -
  have "filter plain_char (js ''do not tell'') = js ''do not tell''" "\<not> has_tag (js ''do not tell'')"
    by (simp_all add: js_def plain_char_def invisible_char_def bidi_control_def has_tag_def)
  then have "strip_invisible_unicode (js ''do not tell'') = js ''do not tell''"
    by (simp add: strip_eq regex_replace_none test_tag_iff)
  moreover have "regex_test (hd (pt_patterns secrecy_rule)) (js ''do not tell'')" by code_simp
  moreover have "hd (pt_patterns secrecy_rule) \<in> set (pt_patterns secrecy_rule)"
    by (simp add: secrecy_rule_def Let_def)
  ultimately have "rule_applies (js ''do not tell'') secrecy_rule" by (auto simp: rule_applies_def list_ex_iff)
  then show ?thesis by (simp add: poisoning_rules_def)
qed

theorem encoding_cannot_hide_witness:
  "encoded_finding [] (to_base64 (utf8 (js ''do not tell''))) \<noteq> None"
proof -
  have "well_formed (js ''do not tell'')" by (rule well_formed_ascii) (auto simp: js_def)
  from encoding_cannot_hide [OF this, of "[]"] sample_poison show ?thesis by (simp add: js_def printable_def)
qed

text \<open>
  The result scanner reads serialised text, where a line break is a backslash and a letter: a word at the
  start of a line has no boundary before it there.
\<close>

lemma plain_points: "list_all printable s \<Longrightarrow> code_points s = map unat s"
proof (induction s rule: code_points.induct)
  case (2 c)
  then show ?case by (simp add: printable_def)
next
  case (3 c d s)
  then have "\<not> is_high c" by (auto simp: is_high_def printable_def word_le_nat_alt word_less_nat_alt)
  with 3 show ?case by simp
qed simp

lemma plain_quote:
  assumes "list_all printable s" "34 \<notin> set s" "92 \<notin> set s"
  shows "concat (map esc_cp (code_points s)) = s"
proof -
  have "esc_cp (unat c) = [c]" if "printable c" "c \<noteq> 34" "c \<noteq> 92" for c
    using that by (auto simp: esc_cp_def utf16_def printable_def word_le_nat_alt word_less_nat_alt word_eq_unat)
  with assms show ?thesis unfolding plain_points [OF assms(1)] by (induction s) auto
qed

lemma escaped_line_break_evades:
  "regex_test (hd (pt_patterns secrecy_rule)) (10 # js ''do not tell'')
   \<and> stringify (JString (10 # js ''do not tell'')) = Inr (Some (34 # 92 # 110 # js ''do not tell'' @ [34]))
   \<and> \<not> regex_test (hd (pt_patterns secrecy_rule)) (34 # 92 # 110 # js ''do not tell'' @ [34])"
proof (intro conjI)
  show "regex_test (hd (pt_patterns secrecy_rule)) (10 # js ''do not tell'')" by code_simp
  have "list_all printable (js ''do not tell'')" "34 \<notin> set (js ''do not tell'')" "92 \<notin> set (js ''do not tell'')"
    by (simp_all add: js_def printable_def)
  from plain_quote [OF this] show "stringify (JString (10 # js ''do not tell'')) = Inr (Some (34 # 92 # 110 # js ''do not tell'' @ [34]))"
    by (simp add: json_quote_def js_def is_high_def esc_cp_def)
  show "\<not> regex_test (hd (pt_patterns secrecy_rule)) (34 # 92 # 110 # js ''do not tell'' @ [34])" by code_simp
qed

end
