(* ===== verification/Scanner.thy ===== *)
theory Scanner
  imports Doubles Detectors Catalog Risk
begin

text \<open>
  The scanner package around its text detectors: \<open>detectors/shadowing.ts\<close> (tools that are not what their
  name says), \<open>classifier/prompt-guard.ts\<close> (an optional model behind an HTTP interface), \<open>scanner.ts\<close> and
  \<open>result-scanner.ts\<close>, which run them over a tool definition and over a tool's result.
\<close>

section \<open>Capabilities\<close>

record capability_words =
  cw_capability :: jstring
  cw_keywords :: "regex list"

abbreviation r_dash :: regex where
  "r_dash \<equiv> r_opt (RSet (\<lambda>c. c = 95 \<or> js_space c \<or> c = 45))"

abbreviation r_bword :: "string \<Rightarrow> regex" where "r_bword s \<equiv> r_bounded [r_ilit s]"

definition filesystem_words :: capability_words where
  "filesystem_words = \<lparr>cw_capability = js ''filesystem'', cw_keywords =
     [r_bounded [r_ilit ''read'', r_dash, r_ilit ''file''], r_bounded [r_ilit ''write'', r_dash, r_ilit ''file''],
      r_bounded [r_ilit ''delete'', r_dash, r_ilit ''file''], r_bounded [r_ilit ''file'', r_dash, r_ilit ''path''],
      r_bword ''directory'', r_bword ''folder'', r_bword ''filesystem'', r_bounded [r_ilit ''file'', r_sp, r_ilit ''system'']]\<rparr>"

definition network_words :: capability_words where
  "network_words = \<lparr>cw_capability = js ''network'', cw_keywords =
     [r_headed [r_http], r_bword ''fetch'', r_bword ''curl'', r_bword ''wget'', r_bword ''url'', r_bword ''endpoint'',
      r_bounded [r_ilit ''api'', r_dash, r_ilit ''call''], r_bounded [r_ilit ''send'', r_sp, r_ilit ''request''],
      r_bounded [r_ilit ''web'', r_sp0, r_ilit ''hook'']]\<rparr>"

definition shell_words :: capability_words where
  "shell_words = \<lparr>cw_capability = js ''shell'', cw_keywords =
     [r_bword ''shell'', r_bword ''bash'', r_bword ''subprocess'', r_bword ''terminal'',
      r_bounded [r_ilit ''run'', r_sp, r_opt (RSeq (r_ilit ''a'') r_sp), r_ilit ''command''],
      r_bounded [r_ilit ''execute'', r_sp, r_opt (RSeq (r_ilit ''a'') r_sp),
        r_ilits [''bash'', ''shell'', ''command'', ''script'', ''subprocess'']],
      r_bounded [r_ilit ''command'', r_sp, r_ilit ''line'']]\<rparr>"

definition database_words :: capability_words where
  "database_words = \<lparr>cw_capability = js ''database'', cw_keywords =
     [r_bword ''sql'', r_bword ''database'',
      r_bounded [r_ilits [''database'', ''sql'', ''db''], r_sp, r_ilit ''table''],
      r_bounded [r_ilits [''database'', ''sql'', ''db''], r_sp, r_ilit ''schema''],
      r_bounded [r_ilit ''schema'', r_sp, r_ilit ''migration''], r_bounded [r_ilit ''drop'', r_sp, r_ilit ''table''],
      r_bounded [r_ilit ''insert'', r_sp, r_ilit ''into''],
      r_bounded [r_ilit ''update'', r_sp, r_plus r_word, r_sp, r_ilit ''set''],
      r_bounded [r_ilit ''delete'', r_sp, r_ilit ''from''],
      r_bounded [r_ilits [''sql'', ''database'', ''db''], r_sp, r_ilit ''query''],
      r_bounded [r_ilit ''query'', r_opt (r_ilit ''ing''), r_sp, r_the,
        r_alt [r_ilit ''database'', r_ilit ''db'', r_plural ''table'']]]\<rparr>"

definition credential_words :: capability_words where
  "credential_words = \<lparr>cw_capability = js ''credentials'', cw_keywords =
     [r_bword ''password'', r_bword ''secret'', r_bword ''token'', r_bounded [r_ilit ''api'', r_dash, r_ilit ''key''],
      r_bword ''credential'', r_bword ''auth'']\<rparr>"

definition capability_keywords :: "capability_words list" where
  "capability_keywords = [filesystem_words, network_words, shell_words, database_words, credential_words]"

text \<open>What a name lets one expect: the fragment may stand anywhere in it.\<close>

definition name_capability_map :: "(regex \<times> jstring) list" where
  "name_capability_map =
     [(r_ilits [''weather'', ''forecast'', ''climate''], js ''weather''),
      (r_ilits [''search'', ''find'', ''lookup'', ''query''], js ''search''),
      (r_ilits [''math'', ''calc'', ''compute'', ''sum'', ''add'', ''sub'', ''mul'', ''div''], js ''math''),
      (r_ilits [''time'', ''clock'', ''date''], js ''time''),
      (r_ilits [''translate'', ''language''], js ''translation''),
      (r_ilits [''file'', ''read'', ''write'', ''fs'', ''directory'', ''folder'', ''path''], js ''filesystem''),
      (r_ilits [''http'', ''api'', ''fetch'', ''request'', ''web'', ''url'', ''net'', ''network'', ''remote'', ''endpoint''],
        js ''network''),
      (r_ilits [''shell'', ''exec'', ''command'', ''run'', ''bash'', ''terminal'', ''subprocess'', ''cli''], js ''shell''),
      (r_ilits [''sql'', ''db'', ''database'', ''query'', ''table''], js ''database''),
      (r_ilits [''password'', ''secret'', ''token'', ''key'', ''credential'', ''auth''], js ''credentials'')]"

definition detect_capabilities :: "jstring \<Rightarrow> jstring list" where
  "detect_capabilities text =
     map cw_capability (filter (\<lambda>w. list_ex (\<lambda>kw. regex_test kw text) (cw_keywords w)) capability_keywords)"

definition expected_capabilities :: "jstring \<Rightarrow> jstring list" where
  "expected_capabilities name = map snd (filter (\<lambda>(pattern, _). regex_test pattern name) name_capability_map)"

section \<open>Shadowing\<close>

text \<open>
  \<open>inputSchema?.properties\<close> if it is an object, an array included, as \<open>Object.entries\<close> lists it; and the
  description of a property.
\<close>

definition schema_properties :: "listed_tool \<Rightarrow> (jstring \<times> jvalue) list option" where
  "schema_properties tool =
     (case js_opt_get (js_opt_get (JObject tool) (js ''inputSchema'')) (js ''properties'') of
        JObject kvs \<Rightarrow> Some kvs
      | JArray xs \<Rightarrow> Some (map (\<lambda>(i, x). (dec i, x)) (zip [0..<length xs] xs))
      | _ \<Rightarrow> None)"

definition property_description :: "jvalue \<Rightarrow> jstring option" where
  "property_description v = as_string (Some (js_opt_get v (js ''description'')))"

definition tool_description :: "listed_tool \<Rightarrow> jstring" where
  "tool_description tool = (case as_string (get_prop tool (js ''description'')) of None \<Rightarrow> [] | Some d \<Rightarrow> d)"

definition schema_text :: "(jstring \<times> jvalue) list \<Rightarrow> jstring" where
  "schema_text props = join_with [32] (map fst props) @ 32 #
     join_with [32] (map (\<lambda>(_, v). case property_description v of None \<Rightarrow> [] | Some d \<Rightarrow> d) props)"

definition dangerous_capabilities :: "jstring list" where
  "dangerous_capabilities = [js ''filesystem'', js ''network'', js ''shell'', js ''database'', js ''credentials'']"

definition shadowing_finding :: "jstring \<Rightarrow> jstring \<Rightarrow> jstring list \<Rightarrow> jstring \<Rightarrow> scan_finding" where
  "shadowing_finding name location descCapabilities cap =
     (let source = (if cap \<in> set descCapabilities then js ''description'' else js ''input schema'') in
      \<lparr>sf_id = js ''shadowing-'' @ cap @ 45 # location, sf_detector = js ''shadowing'',
       sf_severity = (if cap = js ''shell'' \<or> cap = js ''credentials'' then Critical else High),
       sf_title = js ''Tool '' @ quoted name @ js '' references '' @ cap @ js '' capability in '' @ source
         @ js '' but name does not suggest it'',
       sf_detail = js ''The tool is named '' @ quoted name @ js '' but its '' @ source @ js '' references '' @ cap @ js ''-related ''
         @ js ''concepts. This could indicate annotation lying: the tool name suggests one ''
         @ js ''purpose while the implementation does something more dangerous.'',
       sf_location = location,
       sf_evidence = Some (js ''name='' @ quoted name @ js '', unexpected capability: '' @ cap)\<rparr>)"

definition detect_shadowing :: "listed_tool \<Rightarrow> jstring \<Rightarrow> scan_finding list" where
  "detect_shadowing tool location =
     (let name = tool_name_of tool;
          nameCapabilities = expected_capabilities name;
          descCapabilities = detect_capabilities (tool_description tool);
          schemaCapabilities = (case schema_properties tool of None \<Rightarrow> []
             | Some props \<Rightarrow> detect_capabilities (schema_text props));
          allDetected = unique (descCapabilities @ schemaCapabilities)
      in map (shadowing_finding name location descCapabilities)
           (filter (\<lambda>cap. cap \<in> set dangerous_capabilities \<and> cap \<notin> set nameCapabilities) allDetected))"

section \<open>The classifier\<close>

record prompt_guard =
  pg_hfToken :: jstring
  pg_model :: "jstring option"
  pg_timeoutMs :: "nat option"

text \<open>
  The request of one classification; \<open>gq_timeout\<close> is the time after which it is aborted. What \<open>fetch\<close> makes
  of it is a parameter, named by the location that is scanned: a rejection, an abort included, is an error.
\<close>

record guard_request =
  gq_url :: jstring
  gq_authorization :: jstring
  gq_body :: "jvalue props"
  gq_timeout :: nat

type_synonym guard_fetch = "jstring \<Rightarrow> guard_request \<Rightarrow> exn + fetch_response"

definition guard_call :: "prompt_guard \<Rightarrow> jstring \<Rightarrow> guard_request" where
  "guard_call opts text =
     \<lparr>gq_url = js ''https://api-inference.huggingface.co/models/''
        @ (case pg_model opts of None \<Rightarrow> js ''meta-llama/Prompt-Guard-86M'' | Some m \<Rightarrow> m),
      gq_authorization = js ''Bearer '' @ pg_hfToken opts,
      gq_body = [(js ''inputs'', JString (if length text > 4096 then take 4096 text else text))],
      gq_timeout = (case pg_timeoutMs opts of None \<Rightarrow> 10000 | Some t \<Rightarrow> t)\<rparr>"

definition classification :: "jvalue \<Rightarrow> (jstring \<times> jnum) option" where
  "classification item = (case item of
      JObject kvs \<Rightarrow>
        (case (get_prop kvs (js ''label''), get_prop kvs (js ''score'')) of
           (Some (JString label), Some (JNumber score)) \<Rightarrow> Some (label, score)
         | _ \<Rightarrow> None)
    | _ \<Rightarrow> None)"

definition parse_classification_results :: "jvalue \<Rightarrow> (jstring \<times> jnum) list option" where
  "parse_classification_results body = (case body of
      JArray xs \<Rightarrow>
        let inner = (case xs of JArray ys # _ \<Rightarrow> ys | _ \<Rightarrow> xs);
            results = List.map_filter classification inner
        in if results \<noteq> [] then Some results else None
    | _ \<Rightarrow> None)"

text \<open>\<open>x > n / 10\<close>; and the texts of a score that is above one half.\<close>

definition above_tenths :: "nat \<Rightarrow> jnum \<Rightarrow> bool" where
  "above_tenths n x = (case x of
      NaN \<Rightarrow> False
    | Infinity neg \<Rightarrow> \<not> neg
    | Finite neg d e \<Rightarrow> \<not> neg \<and> (if 0 \<le> e then n < 10 * d * 10 ^ nat e else n * 10 ^ nat (- e) < 10 * d))"

definition score_double :: "jnum \<Rightarrow> (nat \<times> nat) option" where
  "score_double x = (case x of Finite _ d e \<Rightarrow> decimal_double d e | _ \<Rightarrow> None)"

definition injection_label :: "jstring \<Rightarrow> bool" where
  "injection_label label = (label = js ''INJECTION'' \<or> label = js ''JAILBREAK'')"

definition guard_finding :: "jstring \<Rightarrow> jstring \<Rightarrow> jnum \<Rightarrow> scan_finding" where
  "guard_finding location label score =
     \<lparr>sf_id = js ''prompt-guard-'' @ location, sf_detector = js ''prompt-guard'',
      sf_severity = (if above_tenths 9 score then Critical else if above_tenths 7 score then High else Medium),
      sf_title = js ''Prompt Guard classified text as '' @ label,
      sf_detail = js ''The meta-llama/Prompt-Guard-86M classifier detected a '' @ js_lower label @ 32 #
        js ''attempt with '' @ to_fixed 1 (times_double 100 (score_double score)) @ js ''% confidence. ''
        @ js ''This is a machine learning classification and should be considered alongside ''
        @ js ''static detector findings.'',
      sf_location = location,
      sf_evidence = Some (js ''label='' @ label @ js '', score='' @ to_fixed 4 (score_double score))\<rparr>"

definition classify_with_prompt_guard :: "guard_fetch \<Rightarrow> prompt_guard \<Rightarrow> jstring \<Rightarrow> jstring \<Rightarrow> scan_finding option" where
  "classify_with_prompt_guard fetch opts text location =
     (case fetch location (guard_call opts text) of
        Inl _ \<Rightarrow> None
      | Inr response \<Rightarrow>
          if \<not> fr_ok response then None
          else case fr_body response of
              Inl _ \<Rightarrow> None
            | Inr body \<Rightarrow>
                (case parse_classification_results body of
                   None \<Rightarrow> None
                 | Some results \<Rightarrow>
                     (case find (\<lambda>(label, score). injection_label label \<and> above_tenths 5 score) results of
                        None \<Rightarrow> None
                      | Some (label, score) \<Rightarrow> Some (guard_finding location label score))))"

section \<open>The scanners\<close>

fun highest_from :: "severity option \<Rightarrow> scan_finding list \<Rightarrow> severity option" where
  "highest_from worst [] = worst"
| "highest_from worst (f # fs) =
     highest_from (case worst of
         None \<Rightarrow> Some (sf_severity f)
       | Some w \<Rightarrow> if severity_rank (sf_severity f) > severity_rank w then Some (sf_severity f) else worst) fs"

definition highest :: "scan_finding list \<Rightarrow> severity option" where
  "highest findings = highest_from None findings"

definition aggregate_verdict :: "severity option \<Rightarrow> scan_verdict" where
  "aggregate_verdict highestSeverity =
     (if highestSeverity = Some Critical \<or> highestSeverity = Some High then Malicious
      else if highestSeverity = Some Medium \<or> highestSeverity = Some Low then Suspicious
      else Clean)"

definition summary_of :: "jstring \<Rightarrow> scan_finding list \<Rightarrow> scan_summary" where
  "summary_of now findings =
     \<lparr>sc_verdict = aggregate_verdict (highest findings), sc_highestSeverity = highest findings,
      sc_findings = findings, sc_scannedAt = now\<rparr>"

text \<open>A scanner's classifier, if it has one, on one text.\<close>

type_synonym text_classifier = "(guard_fetch \<times> prompt_guard) option"

definition ml_findings :: "text_classifier \<Rightarrow> jstring \<Rightarrow> jstring \<Rightarrow> scan_finding list" where
  "ml_findings guard text location = (case guard of
      None \<Rightarrow> []
    | Some (fetch, opts) \<Rightarrow>
        (case classify_with_prompt_guard fetch opts text location of None \<Rightarrow> [] | Some f \<Rightarrow> [f]))"

definition description_findings :: "text_classifier \<Rightarrow> jstring \<Rightarrow> scan_finding list" where
  "description_findings guard description =
     (let location = js ''description'' in
      if description = [] then []
      else detect_unicode description location @ detect_poisoning description location
        @ detect_encoded_poisoning description location @ ml_findings guard description location)"

definition property_findings :: "text_classifier \<Rightarrow> jstring \<times> jvalue \<Rightarrow> scan_finding list" where
  "property_findings guard entry = (case entry of (key, val) \<Rightarrow>
     (let location = js ''inputSchema.properties.'' @ key @ js ''.description'' in
      case property_description val of
        None \<Rightarrow> []
      | Some propDesc \<Rightarrow>
          detect_unicode propDesc location @ detect_poisoning propDesc location @ ml_findings guard propDesc location))"

definition tool_findings :: "text_classifier \<Rightarrow> listed_tool \<Rightarrow> scan_finding list" where
  "tool_findings guard tool =
     description_findings guard (tool_description tool)
     @ detect_shadowing tool (js ''definition'')
     @ (case schema_properties tool of None \<Rightarrow> [] | Some props \<Rightarrow> concat (map (property_findings guard) props))"

definition scan_tool :: "text_classifier \<Rightarrow> jstring \<Rightarrow> listed_tool \<Rightarrow> scan_summary" where
  "scan_tool guard now tool = summary_of now (tool_findings guard tool)"

definition result_findings :: "text_classifier \<Rightarrow> jstring \<Rightarrow> scan_finding list" where
  "result_findings guard resultContent =
     (let location = js ''result.content'' in
      detect_unicode resultContent location @ detect_poisoning resultContent location
      @ detect_encoded_poisoning resultContent location @ ml_findings guard resultContent location)"

definition scan_result :: "text_classifier \<Rightarrow> jstring \<Rightarrow> jstring \<Rightarrow> scan_summary" where
  "scan_result guard now resultContent = summary_of now (result_findings guard resultContent)"

section \<open>The worst finding\<close>

abbreviation serious :: "scan_finding \<Rightarrow> bool" where
  "serious f \<equiv> sf_severity f = High \<or> sf_severity f = Critical"

lemma highest_from_fold:
  "highest_from (Some w) fs = Some (fold (\<lambda>c w. sev.better w c) (map sf_severity fs) w)"
  by (induction fs arbitrary: w) (simp_all add: sev.better_def)

lemma highest_simps [simp]:
  "highest [] = None"
  "highest (f # fs) = Some (fold (\<lambda>c w. sev.better w c) (map sf_severity fs) (sf_severity f))"
  by (simp_all add: highest_def highest_from_fold)

lemma highest_is_max:
  assumes "highest fs = Some s"
  shows "s \<in> sf_severity ` set fs" "f \<in> set fs \<Longrightarrow> severity_rank (sf_severity f) \<le> severity_rank s"
proof -
  obtain g gs where fs: "fs = g # gs" using assms by (cases fs) auto
  then have s: "s = fold (\<lambda>c w. sev.better w c) (map sf_severity gs) (sf_severity g)" using assms by simp
  show "s \<in> sf_severity ` set fs" using sev.fold_member [of "map sf_severity gs" "sf_severity g"] s fs by auto
  have "severity_rank s = Max (set (severity_rank (sf_severity g) # map severity_rank (map sf_severity gs)))"
    unfolding s sev.rank_fold Max.set_eq_fold by simp
  then show "severity_rank (sf_severity f) \<le> severity_rank s" if "f \<in> set fs" using that fs by (auto intro!: Max_ge)
qed

lemma highest_None_iff: "highest fs = None \<longleftrightarrow> fs = []"
  by (cases fs) simp_all

lemma severity_rank_simps [simp]:
  "severity_rank Info = 0" "severity_rank Low = 1" "severity_rank Medium = 2" "severity_rank High = 3"
  "severity_rank Critical = 4"
  by (simp_all add: severity_rank_def)

lemma rank_serious: "3 \<le> severity_rank w \<longleftrightarrow> w = High \<or> w = Critical"
  by (cases w) simp_all

lemma malicious_iff: "aggregate_verdict (highest fs) = Malicious \<longleftrightarrow> list_ex serious fs"
proof (cases "highest fs")
  case None
  then show ?thesis by (simp add: aggregate_verdict_def highest_None_iff)
next
  case (Some s)
  note worst = highest_is_max [OF Some]
  have "list_ex serious fs \<longleftrightarrow> 3 \<le> severity_rank s"
    using worst by (force simp: list_ex_iff rank_serious [symmetric] intro: order_trans)
  then show ?thesis by (auto simp: Some aggregate_verdict_def rank_serious)
qed

lemma clean_iff: "aggregate_verdict (highest fs) = Clean \<longleftrightarrow> list_all (\<lambda>f. sf_severity f = Info) fs"
proof (cases "highest fs")
  case None
  then show ?thesis by (simp add: aggregate_verdict_def highest_None_iff)
next
  case (Some s)
  note worst = highest_is_max [OF Some]
  have "list_all (\<lambda>f. sf_severity f = Info) fs \<longleftrightarrow> s = Info"
  proof
    assume "s = Info"
    then have "severity_rank (sf_severity f) = severity_rank Info" if "f \<in> set fs" for f using worst(2) [OF that] by simp
    then show "list_all (\<lambda>f. sf_severity f = Info) fs" by (auto simp: list_all_iff sev.rank_inject)
  qed (use worst(1) in \<open>auto simp: list_all_iff\<close>)
  then show ?thesis by (cases s) (simp_all add: Some aggregate_verdict_def)
qed

section \<open>What the static detectors say\<close>

text \<open>A text a reader is not meant to see, or that instructs the model.\<close>

definition hostile :: "jstring \<Rightarrow> bool" where
  "hostile text = (has_tag text \<or> list_ex bidi_control text \<or> list_ex invisible_char text
     \<or> list_ex (rule_applies text) poisoning_rules)"

lemma unicode_serious:
  "list_ex serious (detect_unicode text l) \<longleftrightarrow> has_tag text \<or> list_ex bidi_control text \<or> list_ex invisible_char text"
proof -
  have one: "list_ex serious (unicode_finding text l g)
      \<longleftrightarrow> regex_test (ug_pattern g) text \<and> (ug_severity g = High \<or> ug_severity g = Critical)" for g
    using unicode_finding_cases(1) [of "text" l g] unicode_finding_cases(2) [of _ "text" l g]
    by (cases "unicode_finding text l g") (auto simp: list_ex_iff)
  show ?thesis
    unfolding detect_unicode_def by (auto simp: one unicode_groups_def test_tag_iff test_set_iff list_ex_iff [of _ "text"])
qed

lemma poisoning_rules_serious: "r \<in> set poisoning_rules \<Longrightarrow> pt_severity r = High \<or> pt_severity r = Critical"
  by (auto simp: poisoning_rules_def imperative_rule_def secrecy_rule_def sensitive_path_rule_def
      exfiltration_rule_def cross_tool_rule_def role_override_rule_def Let_def)

lemma poisoning_serious:
  "f \<in> set (detect_poisoning text l) \<Longrightarrow> serious f"
proof -
  assume "f \<in> set (detect_poisoning text l)"
  then have "(sf_id f, sf_severity f) \<in> set (map (\<lambda>f. (sf_id f, sf_severity f)) (detect_poisoning text l))" by auto
  then show ?thesis unfolding detect_poisoning_shape by (auto dest: poisoning_rules_serious)
qed

lemma encoded_serious: "f \<in> set (detect_encoded_poisoning text l) \<Longrightarrow> serious f"
proof -
  have "f \<in> set (first_encoded l ms) \<Longrightarrow> sf_severity f = Critical" for ms
    by (induction ms) (auto simp: encoded_finding_def Let_def split: option.splits if_splits)
  then show "f \<in> set (detect_encoded_poisoning text l) \<Longrightarrow> serious f" by (simp add: detect_encoded_poisoning_def)
qed

lemma shadowing_serious: "f \<in> set (detect_shadowing tool l) \<Longrightarrow> serious f"
  by (auto simp: detect_shadowing_def shadowing_finding_def Let_def)

lemma all_serious: "(\<And>f. f \<in> set fs \<Longrightarrow> serious f) \<Longrightarrow> list_ex serious fs \<longleftrightarrow> fs \<noteq> []"
  by (cases fs) (auto simp: list_ex_iff)

lemma static_serious:
  "list_ex serious (detect_unicode text l @ detect_poisoning text l') \<longleftrightarrow> hostile text"
  using poisoned_iff [of "text" l'] by (simp add: unicode_serious all_serious [OF poisoning_serious] hostile_def)

lemma all_static_serious:
  "list_ex serious (detect_unicode text l @ detect_poisoning text l @ detect_encoded_poisoning text l)
   \<longleftrightarrow> hostile text \<or> detect_encoded_poisoning text l \<noteq> []"
  unfolding append_assoc [symmetric] list_ex_append [of _ "_ @ _"] static_serious
  by (simp add: all_serious [OF encoded_serious])

lemma unicode_clean: "list_all (\<lambda>f. sf_severity f = Info) (detect_unicode text l)
  \<longleftrightarrow> \<not> has_tag text \<and> \<not> list_ex bidi_control text \<and> \<not> list_ex invisible_char text \<and> \<not> list_ex cyrillic_confusable text"
proof -
  have one: "list_all (\<lambda>f. sf_severity f = Info) (unicode_finding text l g)
      \<longleftrightarrow> regex_test (ug_pattern g) text \<longrightarrow> ug_severity g = Info" for g
    using unicode_finding_cases(1) [of "text" l g] unicode_finding_cases(2) [of _ "text" l g]
    by (cases "unicode_finding text l g") (auto simp: list_all_iff)
  show ?thesis
    unfolding detect_unicode_def by (auto simp: one unicode_groups_def test_tag_iff test_set_iff list_ex_iff [of _ "text"])
qed

text \<open>The texts of a tool the scanner reads.\<close>

definition scanned_descriptions :: "listed_tool \<Rightarrow> jstring list" where
  "scanned_descriptions tool = (if tool_description tool = [] then [] else [tool_description tool]) @
     (case schema_properties tool of None \<Rightarrow> [] | Some props \<Rightarrow> List.map_filter (\<lambda>(_, v). property_description v) props)"

lemma description_serious:
  "list_ex serious (description_findings None d)
   \<longleftrightarrow> d \<noteq> [] \<and> (hostile d \<or> detect_encoded_poisoning d (js ''description'') \<noteq> [])"
  using all_static_serious [of d "js ''description''"]
  by (auto simp: description_findings_def Let_def ml_findings_def)

lemma property_serious:
  "list_ex serious (property_findings None (k, v)) \<longleftrightarrow> (\<exists>t. property_description v = Some t \<and> hostile t)"
  by (auto simp: property_findings_def Let_def ml_findings_def static_serious simp del: list_ex_append split: option.splits)

lemma properties_serious:
  "list_ex serious (concat (map (property_findings None) props))
   \<longleftrightarrow> list_ex hostile (List.map_filter (\<lambda>(_, v). property_description v) props)"
  by (induction props) (auto simp: property_serious List.map_filter_def split: option.splits)

lemma list_ex_concat_iff: "list_ex P (concat xss) \<longleftrightarrow> list_ex (list_ex P) xss"
  by (induction xss) simp_all

lemma encoded_Nil [simp]: "detect_encoded_poisoning [] l = []"
proof -
  have "regex_matches b64_pattern [] = []" by code_simp
  then show ?thesis by (simp add: detect_encoded_poisoning_def)
qed

lemma tool_serious:
  "list_ex serious (tool_findings None tool) \<longleftrightarrow> list_ex hostile (scanned_descriptions tool)
     \<or> detect_encoded_poisoning (tool_description tool) (js ''description'') \<noteq> []
     \<or> detect_shadowing tool (js ''definition'') \<noteq> []"
  by (cases "schema_properties tool")
    (auto simp: tool_findings_def scanned_descriptions_def description_serious properties_serious
      all_serious [OF shadowing_serious])

section \<open>What a classifier changes\<close>

definition verdict_rank :: "scan_verdict \<Rightarrow> nat" where
  "verdict_rank v = (case v of Clean \<Rightarrow> 0 | Suspicious \<Rightarrow> 1 | Malicious \<Rightarrow> 2)"

lemma more_findings_worse_verdict:
  assumes "set fs \<subseteq> set gs"
  shows "verdict_rank (sc_verdict (summary_of now fs)) \<le> verdict_rank (sc_verdict (summary_of now gs))"
proof -
  have "list_ex serious fs \<Longrightarrow> list_ex serious gs" "list_all (\<lambda>f. sf_severity f = Info) gs \<Longrightarrow> list_all (\<lambda>f. sf_severity f = Info) fs"
    using assms by (auto simp: list_ex_iff list_all_iff)
  then show ?thesis
    using malicious_iff [of fs] malicious_iff [of gs] clean_iff [of fs] clean_iff [of gs]
    by (cases "aggregate_verdict (highest fs)"; cases "aggregate_verdict (highest gs)")
      (simp_all add: summary_of_def verdict_rank_def)
qed

lemma subseq_parts:
  "subseq (description_findings None d) (description_findings guard d)"
  "subseq (property_findings None e) (property_findings guard e)"
  "subseq (result_findings None r) (result_findings guard r)"
  by (auto simp: description_findings_def property_findings_def result_findings_def Let_def ml_findings_def
      intro!: list_emb_append_mono split: prod.splits option.splits)

lemma subseq_tool: "subseq (tool_findings None tool) (tool_findings guard tool)"
proof -
  have "subseq (concat (map (property_findings None) ps)) (concat (map (property_findings guard) ps))" for ps
    by (induction ps) (auto intro: list_emb_append_mono subseq_parts)
  then show ?thesis
    unfolding tool_findings_def by (auto intro!: list_emb_append_mono subseq_parts split: option.splits)
qed

lemma failed_classifier: "ml_findings (Some (\<lambda>_ _. Inl e, opts)) text l = ml_findings None text l"
  by (simp add: ml_findings_def classify_with_prompt_guard_def)

lemma failed_parts:
  "description_findings (Some (\<lambda>_ _. Inl e, opts)) = description_findings None"
  "property_findings (Some (\<lambda>_ _. Inl e, opts)) = property_findings None"
  "result_findings (Some (\<lambda>_ _. Inl e, opts)) = result_findings None"
  by (auto simp: description_findings_def property_findings_def result_findings_def failed_classifier fun_eq_iff Let_def split: option.splits)

section \<open>Properties\<close>

text \<open>
  C22: Without a classifier the verdicts are exactly these. A result is malicious unless it holds no
  character that no reader sees and no instruction matched by a rule behind such characters (it is not
  hostile) and no encoded instruction; otherwise it is suspicious when it holds letters that look like
  Latin ones, and clean when it does not. A tool escapes the verdict malicious exactly when none of the
  descriptions that are read is hostile, its own holds no encoded instruction, and it refers to no
  dangerous capability its name does not suggest.
\<close>

theorem static_verdicts_exact:
  "sc_verdict (scan_result None now r) =
     (if \<not> hostile r \<and> detect_encoded_poisoning r (js ''result.content'') = []
      then if list_ex cyrillic_confusable r then Suspicious else Clean
      else Malicious)
   \<and> (sc_verdict (scan_tool None now tool) \<noteq> Malicious \<longleftrightarrow>
       \<not> list_ex hostile (scanned_descriptions tool)
       \<and> detect_encoded_poisoning (tool_description tool) (js ''description'') = []
       \<and> detect_shadowing tool (js ''definition'') = [])"
proof
  let ?l = "js ''result.content''"
  let ?fs = "result_findings None r"
  have bad: "list_ex serious ?fs \<longleftrightarrow> hostile r \<or> detect_encoded_poisoning r ?l \<noteq> []"
    using all_static_serious [of r ?l] by (simp add: result_findings_def Let_def ml_findings_def)
  have "list_all (\<lambda>f. sf_severity f = Info) ?fs \<longleftrightarrow> \<not> list_ex cyrillic_confusable r"
    if "\<not> (hostile r \<or> detect_encoded_poisoning r ?l \<noteq> [])"
    using that poisoned_iff [of r ?l] unicode_clean [of r ?l]
    by (auto simp: result_findings_def Let_def ml_findings_def hostile_def)
  then show "sc_verdict (scan_result None now r) =
     (if \<not> hostile r \<and> detect_encoded_poisoning r (js ''result.content'') = []
      then if list_ex cyrillic_confusable r then Suspicious else Clean
      else Malicious)"
    using bad malicious_iff [of ?fs] clean_iff [of ?fs]
    by (cases "aggregate_verdict (highest ?fs)") (auto simp: scan_result_def summary_of_def)
qed (auto simp: scan_tool_def summary_of_def malicious_iff tool_serious)

text \<open>
  C23: The classifier is a second opinion that excuses nothing and whose absence costs nothing. With a
  classifier a scan reports all that it reports without, in the same order, with a verdict at least as
  bad; and when every request to it is rejected or times out the scan is that of a scanner without one.
\<close>

theorem classifier_excuses_nothing:
  "subseq (sc_findings (scan_tool None now tool)) (sc_findings (scan_tool guard now tool))
   \<and> subseq (sc_findings (scan_result None now r)) (sc_findings (scan_result guard now r))
   \<and> verdict_rank (sc_verdict (scan_tool None now tool)) \<le> verdict_rank (sc_verdict (scan_tool guard now tool))
   \<and> verdict_rank (sc_verdict (scan_result None now r)) \<le> verdict_rank (sc_verdict (scan_result guard now r))
   \<and> scan_tool (Some (\<lambda>_ _. Inl e, opts)) now tool = scan_tool None now tool
   \<and> scan_result (Some (\<lambda>_ _. Inl e, opts)) now r = scan_result None now r"
proof (intro conjI)
  note sub = subseq_tool [of tool guard] subseq_parts(3) [of r guard]
  show "subseq (sc_findings (scan_tool None now tool)) (sc_findings (scan_tool guard now tool))"
    and "subseq (sc_findings (scan_result None now r)) (sc_findings (scan_result guard now r))"
    using sub by (simp_all add: scan_tool_def scan_result_def summary_of_def)
  show "verdict_rank (sc_verdict (scan_tool None now tool)) \<le> verdict_rank (sc_verdict (scan_tool guard now tool))"
    unfolding scan_tool_def by (rule more_findings_worse_verdict) (rule subseq_set [OF sub(1)])
  show "verdict_rank (sc_verdict (scan_result None now r)) \<le> verdict_rank (sc_verdict (scan_result guard now r))"
    unfolding scan_result_def by (rule more_findings_worse_verdict) (rule subseq_set [OF sub(2)])
qed (simp_all add: scan_tool_def tool_findings_def scan_result_def failed_parts split: option.splits)

end
