(* ===== verification/Screening.thy ===== *)
theory Screening
  imports Server Scanner
begin

text \<open>
  The result scanner in its place: the gateway serialises the content of a tool's result and has the text
  scanned. What the serialisation keeps of the strings, and what that means for what an agent receives.
\<close>

section \<open>What serialisation keeps\<close>

lemma sublist_within: "sublist u p \<Longrightarrow> sublist u (a @ p @ b)"
  unfolding sublist_def by (metis append_assoc)

lemma sublist_join: "p \<in> set ps \<Longrightarrow> sublist p (join_with sep ps)"
proof (induction sep ps rule: join_with.induct)
  case (3 sep p' q ps)
  then consider "p = p'" | "sublist p (join_with sep (q # ps))" by auto
  then show ?case
  proof cases
    case 2
    then show ?thesis using sublist_within [of p "join_with sep (q # ps)" "p' @ sep" "[]"] by simp
  qed simp
qed simp_all

lemma sublist_bracketed: "sublist u p \<Longrightarrow> p \<in> set ps \<Longrightarrow> sublist u (bracketed l ps r)"
  unfolding bracketed_def
  using sublist_within [of u "join_with [44] ps" "[l]" "[r]"] sublist_order.order_trans [OF _ sublist_join [of p ps "[44]"]]
  by simp

text \<open>A code point that is not escaped is there in the quoted text.\<close>

lemma quoted_point:
  assumes "n \<in> set (code_points s)" "esc_cp n = utf16 n"
  shows "sublist (utf16 n) (json_quote s)"
proof -
  obtain a b where "code_points s = a @ n # b" using assms(1) by (meson split_list)
  then have "concat (map esc_cp (code_points s)) = concat (map esc_cp a) @ utf16 n @ concat (map esc_cp b)"
    using assms(2) by simp
  then show ?thesis using sublist_within [of "utf16 n" "utf16 n" "34 # concat (map esc_cp a)" "concat (map esc_cp b) @ [34]"]
    by (simp add: json_quote_def)
qed

lemma unit_point: "c \<in> set s \<Longrightarrow> \<not> is_high c \<Longrightarrow> \<not> is_low c \<Longrightarrow> unat c \<in> set (code_points s)"
  by (induction s rule: code_points.induct) auto

lemma pair_point: "is_high h \<Longrightarrow> is_low l \<Longrightarrow> pair_cp h l \<in> set (code_points (a @ h # l # b))"
proof (induction a rule: code_points.induct)
  case (2 c)
  then have "\<not> is_low h" by (auto simp: surrogate_defs)
  with 2 show ?case by simp
qed auto

text \<open>Every string inside a value is there in its text.\<close>

lemma leaf_quoted:
  assumes "leaf_at d v s" "stringify v = Inr p"
  obtains t where "p = Some t" "sublist (json_quote s) t"
proof -
  have "stringify v = Inr p \<Longrightarrow> \<exists>t. p = Some t \<and> sublist (json_quote s) t"
    using assms(1)
  proof (induction d v s arbitrary: p rule: leaf_at.induct)
    case (element x xs d s)
    then obtain ps where ps: "list_all2 (\<lambda>x y. stringify x = Inr y) xs ps"
        "p = Some (bracketed 91 (map (\<lambda>p. case p of None \<Rightarrow> js ''null'' | Some t \<Rightarrow> t) ps) 93)"
      by (auto simp: result_iffs map_r_Inr_iff)
    obtain q where q: "q \<in> set ps" "stringify x = Inr q" using all2_partner [OF ps(1) element.hyps(1)] by blast
    with element.IH obtain t where "q = Some t" "sublist (json_quote s) t" by blast
    with q(1) show ?case unfolding ps(2) by (force intro: sublist_bracketed)
  next
    case (entry k x kvs d s)
    then obtain ps where ps: "list_all2 (\<lambda>(k, x) y. bind_r (stringify x) (\<lambda>p. Inr (k, p)) = Inr y) kvs ps"
        "p = Some (bracketed 123 (concat (map (\<lambda>(k, p). case p of None \<Rightarrow> [] | Some t \<Rightarrow> [json_quote k @ 58 # t]) ps)) 125)"
      by (auto simp: result_iffs map_r_Inr_iff case_prod_unfold)
    obtain q where q: "(k, q) \<in> set ps" "stringify x = Inr q"
      using all2_partner [OF ps(1) entry.hyps(1)] by (auto simp: result_iffs)
    with entry.IH obtain t where t: "q = Some t" "sublist (json_quote s) t" by blast
    then have "sublist (json_quote s) (json_quote k @ 58 # t)"
      using sublist_within [of "json_quote s" t "json_quote k @ [58]" "[]"] by simp
    with q(1) t(1) show ?case unfolding ps(2) by (force intro: sublist_bracketed)
  qed simp
  with assms(2) that show ?thesis by blast
qed

section \<open>Hidden characters\<close>

definition hidden :: "jstring \<Rightarrow> bool" where
  "hidden s = (has_tag s \<or> list_ex bidi_control s \<or> list_ex invisible_char s)"

lemma hidden_text:
  assumes "hidden s" "sublist (json_quote s) t"
  shows "hidden t"
proof -
  have point: "sublist (utf16 n) t" if "n \<in> set (code_points s)" "esc_cp n = utf16 n" for n
    using quoted_point [OF that] assms(2) by (rule sublist_order.order_trans)
  consider c where "c \<in> set s" "bidi_control c \<or> invisible_char c" | a l b where "s = a @ 0xDB40 # l # b" "tag_low l"
    using assms(1) by (auto simp: hidden_def has_tag_def list_ex_iff zip_tl_member)
  then show ?thesis
  proof cases
    case (1 c)
    then have c: "\<not> is_high c" "\<not> is_low c" "esc_cp (unat c) = [c]" "utf16 (unat c) = [c]"
      by (auto simp: bidi_control_def invisible_char_def surrogate_defs esc_cp_def utf16_def word_le_nat_alt)
    from point [OF unit_point [OF 1(1) c(1,2)]] c(3,4) have "c \<in> set t" by (auto simp: sublist_def)
    with 1(2) show ?thesis by (auto simp: hidden_def list_ex_iff)
  next
    case (2 a l b)
    have hl: "is_high 0xDB40" "is_low l" using 2(2) by (auto simp: tag_low_def surrogate_defs word_le_nat_alt)
    note two = utf16_pair_cp [OF hl]
    have "0x10000 \<le> pair_cp 0xDB40 l" by (simp add: pair_cp_def)
    then have "esc_cp (pair_cp 0xDB40 l) = utf16 (pair_cp 0xDB40 l)" by (simp add: esc_cp_def)
    from point [OF pair_point [OF hl, of a b, folded 2(1)] this] two obtain x y where "t = x @ 0xDB40 # l # y"
      by (auto simp: sublist_def)
    then have "(0xDB40, l) \<in> set (zip t (tl t))" unfolding zip_tl_member by blast
    with 2(2) show ?thesis by (auto simp: hidden_def has_tag_def list_ex_iff)
  qed
qed

lemma array_text: "stringify (JArray xs) = Inr p \<Longrightarrow> \<exists>t. p = Some t"
  by (auto simp: result_iffs)

lemma hidden_is_hostile: "hidden s \<Longrightarrow> hostile s"
  by (auto simp: hidden_def hostile_def)

lemma hostile_result_is_malicious: "hostile t \<Longrightarrow> sc_verdict (scan_result guard now t) = Malicious"
proof -
  assume "hostile t"
  then have "list_ex serious (result_findings None t)"
    using all_static_serious [of t "js ''result.content''"] by (simp add: result_findings_def Let_def ml_findings_def)
  then have "list_ex serious (result_findings guard t)"
    using subseq_set [OF subseq_parts(3) [of t guard]] by (auto simp: list_ex_iff)
  then show ?thesis by (simp add: scan_result_def summary_of_def malicious_iff)
qed

lemma severity_when_malicious:
  "sc_verdict (scan_result guard now t) = Malicious \<Longrightarrow>
     sc_highestSeverity (scan_result guard now t) = Some High \<or> sc_highestSeverity (scan_result guard now t) = Some Critical"
  by (auto simp: scan_result_def summary_of_def aggregate_verdict_def split: if_splits)

text \<open>
  What the gateway relies on in a result scanner, and its answer to a tool's result under that contract:
  the scanner answers, calls hostile text malicious, and malicious only what is of high or critical severity.
\<close>

locale result_scanner =
  fixes scan :: "jstring \<Rightarrow> exn + scan_summary"
  assumes answers: "\<exists>s. scan t = Inr s"
    and rejects: "hostile t \<Longrightarrow> scan t = Inr s \<Longrightarrow> sc_verdict s = Malicious"
    and severe: "scan t = Inr s \<Longrightarrow> sc_verdict s = Malicious \<Longrightarrow>
      sc_highestSeverity s = Some High \<or> sc_highestSeverity s = Some Critical"
begin

lemma screened_result:
  assumes "de_scanner deps = Some scan" "pq_method pq = js_tools_call" "screen_result deps pq result = Inr v"
  obtains (blocked) w where "v = blocked_result (Some w)" "w = High \<or> w = Critical"
    | (passed) "v = result" "\<And>xs t. js_opt_get result (js ''content'') = JArray xs \<Longrightarrow>
        stringify (JArray xs) = Inr (Some t) \<Longrightarrow> \<not> hostile t"
proof (cases "js_opt_get result (js ''content'')")
  case (JArray xs)
  then have "\<exists>t. stringify (JArray xs) = Inr (Some t)"
    using assms by (cases "stringify (JArray xs)")
      (auto simp: screen_result_def simp del: stringify.simps dest: array_text)
  then obtain t where str: "stringify (JArray xs) = Inr (Some t)" by blast
  obtain s where "scan t = Inr s" using answers by blast
  with JArray str assms have t: "stringify (JArray xs) = Inr (Some t)" "scan t = Inr s"
      "v = (if sc_verdict s = Malicious then blocked_result (sc_highestSeverity s) else result)"
    by (auto simp: screen_result_def simp del: stringify.simps)
  show ?thesis
  proof (cases "sc_verdict s = Malicious")
    case True
    then show ?thesis using t(3) severe [OF t(2) True] blocked by auto
  next
    case False
    have "\<not> hostile t" using False rejects [OF _ t(2)] by blast
    moreover have "v = result" using t(3) False by simp
    ultimately show ?thesis
    proof (intro passed)
      show "\<not> hostile t'" if "js_opt_get result (js ''content'') = JArray xs'" "stringify (JArray xs') = Inr (Some t')"
        for xs' t' using that t(1) JArray \<open>\<not> hostile t\<close> by (simp del: stringify.simps)
    qed
  qed
qed (use assms passed in \<open>auto simp: screen_result_def\<close>)

text \<open>No string of the content of a result that passed is hidden text.\<close>

lemma passed_leaf:
  assumes "de_scanner deps = Some scan" "pq_method pq = js_tools_call" "screen_result deps pq result = Inr v"
    and "js_opt_get result (js ''content'') = JArray xs" "leaf_at d (JArray xs) s"
  shows "\<not> hidden s \<or> (\<exists>w. v = blocked_result (Some w))"
  using assms(1-3)
proof (cases rule: screened_result)
  case passed
  obtain t where t: "stringify (JArray xs) = Inr (Some t)"
    using assms(1-4) by (auto simp: screen_result_def result_iffs simp del: stringify.simps dest: array_text)
  obtain u where "Some t = Some u" "sublist (json_quote s) u" using leaf_quoted [OF assms(5) t] by blast
  then show ?thesis using passed(2) [OF assms(4) t] hidden_text [of s t] hidden_is_hostile [of t] by auto
qed blast

end

text \<open>The package's scanner keeps the contract, with any classifier or none.\<close>

definition scanner_of :: "text_classifier \<Rightarrow> jstring \<Rightarrow> jstring \<Rightarrow> exn + scan_summary" where
  "scanner_of guard now t = Inr (scan_result guard now t)"

interpretation rs: result_scanner "scanner_of guard now" for guard now
  by unfold_locales (auto simp: scanner_of_def hostile_result_is_malicious dest: severity_when_malicious)

lemma ascii_visible: "list_all (\<lambda>c. c < 128) s \<Longrightarrow> \<not> hidden s"
proof -
  assume "list_all (\<lambda>c. c < 128) s"
  then have small: "c < 128" if "c \<in> set s" for c using that by (simp add: list_all_iff)
  have "\<not> bidi_control c \<and> \<not> invisible_char c" if "c < 128" for c
    using that by (auto simp: bidi_control_def invisible_char_def word_le_nat_alt word_less_nat_alt)
  moreover have "0xDB40 \<notin> set s" using small [of "0xDB40"] by auto
  ultimately show ?thesis using small by (auto simp: hidden_def has_tag_def list_ex_iff dest: set_zip_leftD)
qed

lemma blocked_is_visible: "leaf_at d v s \<Longrightarrow> js_opt_get (blocked_result (Some w)) (js ''content'') = v \<Longrightarrow> \<not> hidden s"
proof (rule ascii_visible)
  have ascii: "list_all (\<lambda>c. c < 128) (js ''Sentinel blocked this tool response: the server returned content flagged as '')"
    "list_all (\<lambda>c. c < 128) (js '' risk by the result scanner.'')" "list_all (\<lambda>c. c < 128) (js ''text'')"
    "list_all (\<lambda>c. c < 128) (severity_text w)"
    by (simp_all add: js_def severity_text_def split: severity.split)
  assume "leaf_at d v s" "js_opt_get (blocked_result (Some w)) (js ''content'') = v"
  then show "list_all (\<lambda>c. c < 128) s"
    by (auto simp: blocked_result_def error_result_def text_content_def js_opt_get_def js_get_def leaf_at_simps ascii)
qed

section \<open>Properties\<close>

text \<open>
  C21: What an agent reads it can see. With the result scanner in place, whatever its classifier says, a
  tool's result that the gateway returns is the upstream's result itself, unchanged, or the gateway's
  message that it blocked one of high or critical severity; and when its content is an array, no string at
  any depth of it holds an invisible, bidirectional or tag character.
\<close>

theorem returned_content_is_visible:
  assumes "de_scanner deps = Some (scanner_of guard now)" "pq_method pq = js_tools_call"
    and "screen_result deps pq result = Inr v"
  shows "(v = result \<or> v = blocked_result (Some High) \<or> v = blocked_result (Some Critical))
    \<and> (\<forall>xs d s. js_opt_get v (js ''content'') = JArray xs \<longrightarrow> leaf_at d (JArray xs) s \<longrightarrow> \<not> hidden s)"
  using assms
proof (cases rule: rs.screened_result)
  case (blocked w)
  then show ?thesis using blocked_is_visible [of _ _ _ w] by auto
next
  case passed
  have "\<not> hidden s" if c: "js_opt_get v (js ''content'') = JArray xs" "leaf_at d (JArray xs) s" for xs d s
    using rs.passed_leaf [OF assms _ c(2)] c(1) passed(1) blocked_is_visible [OF c(2)] by auto
  with passed(1) show ?thesis by blast
qed

theorem returned_content_is_visible_witness:
  "\<exists>deps pq w m. screen_result deps pq (JObject [(js ''content'', JArray [JString [0x200B]])]) = Inr (blocked_result (Some w))
     \<and> js_opt_get (blocked_result (Some w)) (js ''content'')
       = JArray [JObject [(js ''type'', JString (js ''text'')), (js ''text'', JString m)]] \<and> \<not> hidden m"
proof -
  let ?r = "JObject [(js ''content'', JArray [JString [0x200B]])]"
  obtain deps :: server_deps where d: "de_scanner deps = Some (scanner_of None [])"
    by (rule that [of "undefined\<lparr>de_scanner := Some (scanner_of None [])\<rparr>"]) simp
  obtain pq :: prepared_call where pq: "pq_method pq = js_tools_call"
    by (rule that [of "undefined\<lparr>pq_method := js_tools_call\<rparr>"]) simp
  have c: "js_opt_get ?r (js ''content'') = JArray [JString [0x200B]]" by (simp add: js_opt_get_def js_get_def)
  obtain t where t: "stringify (JArray [JString [0x200B]]) = Inr (Some t)" by simp
  obtain v where v: "screen_result deps pq ?r = Inr v"
    using d pq c t by (simp add: screen_result_def scanner_of_def del: stringify.simps)
  have leaf: "leaf_at 1 (JArray [JString [0x200B]]) [0x200B]" by (simp add: leaf_at_simps)
  have "hidden [0x200B]" by (simp add: hidden_def invisible_char_def)
  with rs.passed_leaf [OF d pq v c leaf] obtain w where w: "v = blocked_result (Some w)" by blast
  obtain m where m: "js_opt_get (blocked_result (Some w)) (js ''content'')
      = JArray [JObject [(js ''type'', JString (js ''text'')), (js ''text'', JString m)]]"
    by (simp add: blocked_result_def error_result_def text_content_def js_opt_get_def js_get_def)
  have "leaf_at 2 (JArray [JObject [(js ''type'', JString (js ''text'')), (js ''text'', JString m)]]) m"
    unfolding numeral_2_eq_2
    by (rule leaf_at.element [OF _ leaf_at.entry [of "js ''text''", OF _ leaf_at.leaf]]) (simp, simp add: insertI1 insertI2)
  with returned_content_is_visible [OF d pq v] m [folded w] have "\<not> hidden m" by blast
  with v [unfolded w] m show ?thesis by (intro exI conjI)
qed

end
