(* ===== verification/Logger.thy ===== *)
theory Logger
  imports Redact Upstream
begin

text \<open>
  The operator's console, \<open>apps/gateway/src/observability/logger.ts\<close>: levels, records whose fields are
  redacted, the line a record becomes, and text of upstream servers. That a record is one line, and that
  what a server writes changes one labelled string of it and nothing else.
\<close>

section \<open>Levels\<close>

datatype log_level = LDebug | LInfo | LWarn | LError | LSilent

definition log_levels :: "log_level list" where
  "log_levels = [LDebug, LInfo, LWarn, LError, LSilent]"

definition level_text :: "log_level \<Rightarrow> jstring" where
  "level_text l = (case l of LDebug \<Rightarrow> js ''debug'' | LInfo \<Rightarrow> js ''info'' | LWarn \<Rightarrow> js ''warn''
     | LError \<Rightarrow> js ''error'' | LSilent \<Rightarrow> js ''silent'')"

definition level_rank :: "log_level \<Rightarrow> nat" where
  "level_rank l = (case l of LDebug \<Rightarrow> 10 | LInfo \<Rightarrow> 20 | LWarn \<Rightarrow> 30 | LError \<Rightarrow> 40 | LSilent \<Rightarrow> 100)"

definition parse_log_level :: "jstring option \<Rightarrow> log_level \<Rightarrow> log_level" where
  "parse_log_level val fallback = (case val of
      None \<Rightarrow> fallback
    | Some s \<Rightarrow> (case find (\<lambda>l. level_text l = js_lower (js_trim s)) log_levels of
        None \<Rightarrow> fallback
      | Some l \<Rightarrow> l))"

section \<open>Loggers\<close>

definition max_log_string :: nat where "max_log_string = 512"
definition max_upstream_line :: nat where "max_upstream_line = 2000"

record log_record =
  lr_time :: jstring
  lr_level :: log_level
  lr_msg :: jstring
  lr_fields :: "jvalue props"

record logger =
  lg_level :: log_level
  lg_base :: "jvalue props"

definition new_logger :: "log_level option \<Rightarrow> jvalue props option \<Rightarrow> logger" where
  "new_logger level base = \<lparr>lg_level = (case level of None \<Rightarrow> LInfo | Some l \<Rightarrow> l),
     lg_base = (case base of None \<Rightarrow> [] | Some fs \<Rightarrow> fs)\<rparr>"

definition child_logger :: "jvalue props \<Rightarrow> logger \<Rightarrow> logger" where
  "child_logger fs lg = \<lparr>lg_level = lg_level lg, lg_base = spread (lg_base lg) fs\<rparr>"

definition log_enabled :: "logger \<Rightarrow> log_level \<Rightarrow> bool" where
  "log_enabled lg level = (level_rank level \<ge> level_rank (lg_level lg))"

text \<open>What reaches the sink, if anything does; redaction can throw. HMAC is not used without a correlation key.\<close>

definition log_redaction :: redact_options where
  "log_redaction = default_redact_options\<lparr>ro_maxStringLength := max_log_string\<rparr>"

definition log_emit ::
    "hmac_fun \<Rightarrow> jstring \<Rightarrow> logger \<Rightarrow> log_level \<Rightarrow> jstring \<Rightarrow> jvalue props \<Rightarrow> exn + log_record option" where
  "log_emit hmac time lg level msg fs =
     (if \<not> log_enabled lg level then Inr None
      else bind_r (redact hmac log_redaction (JObject (spread (lg_base lg) fs))) (\<lambda>r.
        Inr (Some \<lparr>lr_time = time, lr_level = level, lr_msg = msg,
                   lr_fields = (case rd_value r of JObject kvs \<Rightarrow> kvs | _ \<Rightarrow> [])\<rparr>)))"

text \<open>\<open>text.trimEnd()\<close>, and a line of text produced by an upstream server.\<close>

definition js_trim_end :: "jstring \<Rightarrow> jstring" where
  "js_trim_end s = rev (dropWhile js_space (rev s))"

definition upstream_output :: "jstring \<Rightarrow> jstring" where
  "upstream_output trimmed =
     (if length trimmed > max_upstream_line then take max_upstream_line trimmed @ [0x2026] else trimmed)"

definition log_from_upstream ::
    "hmac_fun \<Rightarrow> jstring \<Rightarrow> logger \<Rightarrow> jstring \<Rightarrow> jstring \<Rightarrow> jstring \<Rightarrow> exn + log_record option" where
  "log_from_upstream hmac time lg serverId stream text =
     (let trimmed = js_trim_end text in
      if length trimmed = 0 then Inr None
      else log_emit hmac time lg LWarn (js ''upstream wrote to its own log stream'')
        [(js ''serverId'', JString serverId), (js ''source'', JString (js ''upstream-'' @ stream)),
         (js ''upstreamOutput'', JString (upstream_output trimmed))])"

section \<open>Lines\<close>

definition line_fields :: "log_record \<Rightarrow> jvalue props" where
  "line_fields rec = spread [(js ''time'', JString (lr_time rec)), (js ''level'', JString (level_text (lr_level rec))),
     (js ''msg'', JString (lr_msg rec))] (lr_fields rec)"

definition stderr_sink :: "log_record \<Rightarrow> exn + jstring" where
  "stderr_sink rec = bind_r (stringify (JObject (line_fields rec))) (\<lambda>line.
     Inr ((case line of None \<Rightarrow> js ''undefined'' | Some t \<Rightarrow> t) @ [10]))"

section \<open>Errors as fields\<close>

text \<open>What can be thrown: any value, or an error with a name, a message, a cause and a numeric code.\<close>

datatype thrown =
    ThrownValue jvalue
  | ThrownError jstring jstring "thrown option" "jnum option"

definition error_line :: "jstring \<Rightarrow> jstring \<Rightarrow> jvalue" where
  "error_line name msg = JString (name @ js '': '' @ msg)"

definition error_fields :: "thrown \<Rightarrow> exn + jvalue props" where
  "error_fields e = (case e of
      ThrownValue v \<Rightarrow> bind_r (js_string v) (\<lambda>s. Inr [(js ''error'', JString s)])
    | ThrownError name msg cause code \<Rightarrow>
        Inr ([(js ''error'', error_line name msg)]
          @ (case cause of Some (ThrownError n m _ _) \<Rightarrow> [(js ''cause'', error_line n m)] | _ \<Rightarrow> [])
          @ (case code of Some c \<Rightarrow> [(js ''errorCode'', JNumber c)] | None \<Rightarrow> [])))"

section \<open>A line is one line\<close>

abbreviation visible :: "code_unit \<Rightarrow> bool" where "visible c \<equiv> 32 \<le> c"

lemma hex4_visible: "list_all visible (hex4 n)"
proof -
  have "visible (hex_lower d)" if "d < 16" for d
    using that by (auto simp: hex_lower_def word_le_nat_alt unat_of_nat simp del: of_nat_add)
  then show ?thesis by (simp add: hex4_def)
qed

lemma esc_visible: "n < 0x110000 \<Longrightarrow> list_all visible (esc_cp n)"
proof -
  assume n: "n < 0x110000"
  have "list_all visible (utf16 n)" if "32 \<le> n"
    using that n by (auto simp: utf16_def word_le_nat_alt unat_of_nat simp del: of_nat_add)
  then show ?thesis using hex4_visible [of n] by (auto simp: esc_cp_def)
qed

lemma quote_visible: "list_all visible (json_quote s)"
  using esc_visible code_points_bound by (fastforce simp: json_quote_def list_all_iff)

lemma join_visible: "list_all (list_all visible) ps \<Longrightarrow> list_all visible (join_with [44] ps)"
  by (induction "[44 :: code_unit]" ps rule: join_with.induct) auto

lemma digits_visible: "list_all visible (dec n)"
proof (induction n rule: dec.induct)
  case (1 n)
  have "visible (digit_char d)" if "d < 10" for d
    using that by (auto simp: digit_char_def word_le_nat_alt unat_of_nat simp del: of_nat_add)
  with 1 show ?case by (subst dec.simps) simp
qed

lemma number_visible: "list_all visible (num_text x)"
proof -
  have "list_all visible (take n (dec d))" "list_all visible (drop n (dec d))" for n d
    using digits_visible [of d] by (auto simp: list_all_iff dest: in_set_takeD in_set_dropD)
  then have "list_all visible (layout d e)" for d e
    using digits_visible by (auto simp: layout_def Let_def list_all_iff)
  then show ?thesis by (cases x) (auto simp: num_text_def sign_text_def js_def)
qed

lemma bracketed_visible: "visible l \<Longrightarrow> visible r \<Longrightarrow> list_all (list_all visible) ps \<Longrightarrow> list_all visible (bracketed l ps r)"
  using join_visible by (simp add: bracketed_def)

lemma text_visible: "stringify v = Inr (Some t) \<Longrightarrow> list_all visible t"
proof (induction v arbitrary: t rule: stringify.induct)
  case (1 xs)
  then obtain ps where ps: "list_all2 (\<lambda>x p. stringify x = Inr p) xs ps"
      "t = bracketed 91 (map (\<lambda>p. case p of None \<Rightarrow> js ''null'' | Some t \<Rightarrow> t) ps) 93"
    by (auto simp: result_iffs map_r_Inr_iff)
  have "list_all visible (case p of None \<Rightarrow> js ''null'' | Some t \<Rightarrow> t)" if mem: "p \<in> set ps" for p
  proof -
    obtain x where "x \<in> set xs" "stringify x = Inr p" using all2_origin [OF ps(1) mem] by blast
    with 1(1) show ?thesis by (cases p) (auto simp: js_def)
  qed
  then show ?case unfolding ps(2) by (intro bracketed_visible) (auto simp: list_all_iff)
next
  case (2 kvs)
  then obtain ps where ps: "list_all2 (\<lambda>(k, x) p. bind_r (stringify x) (\<lambda>p. Inr (k, p)) = Inr p) kvs ps"
      "t = bracketed 123 (concat (map (\<lambda>(k, p). case p of None \<Rightarrow> [] | Some t \<Rightarrow> [json_quote k @ 58 # t]) ps)) 125"
    by (auto simp: result_iffs map_r_Inr_iff case_prod_unfold)
  have "list_all (list_all visible) (case p of None \<Rightarrow> [] | Some t \<Rightarrow> [json_quote k @ 58 # t])" if mem: "(k, p) \<in> set ps" for k p
  proof -
    obtain x where "(k, x) \<in> set kvs" "stringify x = Inr p"
      using all2_origin [OF ps(1) mem] by (auto simp: result_iffs)
    with 2(1) show ?thesis using quote_visible [of k] by (cases p) auto
  qed
  then show ?case unfolding ps(2) by (intro bracketed_visible) (auto simp: list_all_iff)
qed (auto simp: js_def number_visible quote_visible)

section \<open>Foreign text\<close>

text \<open>Entries that differ in the value of one key make objects that differ in that value.\<close>

definition differ_at :: "jstring \<Rightarrow> jvalue \<Rightarrow> jvalue props \<Rightarrow> jvalue props \<Rightarrow> bool" where
  "differ_at key w = list_all2 (\<lambda>p q. fst p = fst q \<and> (if fst p = key then snd q = w else snd p = snd q))"

lemma put_prop_swap:
  "key \<in> fst ` set out \<Longrightarrow> k \<noteq> key \<Longrightarrow> put_prop k v (put_prop key w out) = put_prop key w (put_prop k v out)"
  by (induction out) auto

lemma assign_later:
  assumes "differ_at key w kvs kvs'" "key \<noteq> js ''__proto__''" "key \<in> fst ` set out"
  shows "fold (\<lambda>(k, v) out. js_assign k v out) kvs' (put_prop key w out)
    = put_prop key w (fold (\<lambda>(k, v) out. js_assign k v out) kvs out)"
  using assms(1,3) unfolding differ_at_def
proof (induction kvs kvs' arbitrary: out rule: list_all2_induct)
  case (Cons p r q r')
  obtain k v v' where p: "p = (k, v)" "q = (k, v')" using Cons.hyps(1) by (cases p; cases q) auto
  show ?case
  proof (cases "k = key")
    case True
    with Cons.hyps(1) p have "v' = w" by simp
    then show ?thesis using Cons.IH [of "put_prop key v out"] True p assms(2) by (simp add: js_assign_def dom_update)
  next
    case False
    with Cons.hyps(1) p have "v' = v" by simp
    then show ?thesis
      using Cons.IH [of "put_prop k v out"] Cons.IH [of out] Cons.prems False p put_prop_swap [OF Cons.prems False]
      by (simp add: js_assign_def dom_update)
  qed
qed simp

lemma assign_first:
  assumes "differ_at key w kvs kvs'" "key \<noteq> js ''__proto__''" "key \<in> fst ` set kvs"
  shows "fold (\<lambda>(k, v) out. js_assign k v out) kvs' out = put_prop key w (fold (\<lambda>(k, v) out. js_assign k v out) kvs out)"
  using assms(1,3) unfolding differ_at_def
proof (induction kvs kvs' arbitrary: out rule: list_all2_induct)
  case (Cons p r q r')
  obtain k v v' where p: "p = (k, v)" "q = (k, v')" using Cons.hyps(1) by (cases p; cases q) auto
  show ?case
  proof (cases "k = key")
    case True
    with Cons.hyps(1) p have "v' = w" by simp
    then show ?thesis
      using assign_later [of key w r r' "put_prop key v out"] Cons.hyps(2) True p assms(2)
      by (simp add: js_assign_def dom_update differ_at_def)
  next
    case False
    with Cons.hyps(1) p have "v' = v" by simp
    with False p show ?thesis using Cons.IH Cons.prems by simp
  qed
qed simp

lemma spread_last:
  "k \<notin> fst ` set b \<Longrightarrow> spread a (b @ [(k, v)]) = put_prop k v (spread a b)"
  by (simp add: spread_def)

lemma differ_put:
  assumes "wf_props ob"
  shows "differ_at k w (put_prop k v ob) (put_prop k w ob)"
  using assms unfolding differ_at_def wf_props_def by (induction ob) (fastforce simp: list_all2_same image_iff)+

lemma wf_spread: "wf_props a \<Longrightarrow> wf_props (spread a b)"
  unfolding spread_def by (induction b arbitrary: a) auto

abbreviation walk_entry :: "hmac_fun \<Rightarrow> jstring \<times> jvalue \<Rightarrow> exn + jvalue \<times> redaction_finding list" where
  "walk_entry hmac \<equiv> \<lambda>(k, x). redact_entry hmac log_redaction [] k x (redact_walk hmac log_redaction (child_path [] k) (Suc 0) x)"

lemma walk_text: "redact_walk hmac log_redaction path (Suc 0) (JString u)
    = Inr (JString (fst (redact_string hmac log_redaction path u)), snd (redact_string hmac log_redaction path u))"
  by (simp add: redact_walk.simps [of _ _ _ _ "JString _"] log_redaction_def default_redact_options_def split: prod.split)

lemma walk_differ:
  assumes "differ_at key (JString u) kvs kvs'" "\<not> is_sensitive_key key" "map_r (walk_entry hmac) kvs = Inr ys"
  shows "\<exists>ys'. map_r (walk_entry hmac) kvs' = Inr ys' \<and>
    differ_at key (JString (fst (redact_string hmac log_redaction key u)))
      (zip (map fst kvs) (map fst ys)) (zip (map fst kvs') (map fst ys'))"
  using assms(1,3) unfolding differ_at_def
proof (induction kvs kvs' arbitrary: ys rule: list_all2_induct)
  case (Cons p r q r')
  obtain k v v' where p: "p = (k, v)" "q = (k, v')" using Cons.hyps(1) by (cases p; cases q) auto
  obtain y zs where y: "walk_entry hmac p = Inr y" "map_r (walk_entry hmac) r = Inr zs" "ys = y # zs"
    using Cons.prems by (auto simp: result_iffs)
  from Cons.IH [OF y(2)] obtain zs' where zs: "map_r (walk_entry hmac) r' = Inr zs'"
    "list_all2 (\<lambda>p q. fst p = fst q \<and> (if fst p = key then snd q = JString (fst (redact_string hmac log_redaction key u))
       else snd p = snd q)) (zip (map fst r) (map fst zs)) (zip (map fst r') (map fst zs'))" by blast
  have "\<exists>y'. walk_entry hmac q = Inr y'
      \<and> (if k = key then fst y' = JString (fst (redact_string hmac log_redaction key u)) else y' = y)"
  proof (cases "k = key")
    case True
    with Cons.hyps(1) p assms(2) show ?thesis by (simp add: redact_entry_def walk_text child_path_def)
  next
    case False
    with Cons.hyps(1) p y(1) show ?thesis by simp
  qed
  then obtain y' where "walk_entry hmac q = Inr y'"
      "if k = key then fst y' = JString (fst (redact_string hmac log_redaction key u)) else y' = y" by blast
  with p y zs show ?case by (intro exI [of _ "y' # zs'"]) (auto simp del: split_paired_All)
qed simp

lemma output_key: "\<not> is_sensitive_key (js ''upstreamOutput'')" "js ''upstreamOutput'' \<noteq> js ''__proto__''"
  by code_simp+

lemma emit_other_text:
  assumes "wf_props ob" "redact hmac log_redaction (JObject (put_prop (js ''upstreamOutput'') (JString t) ob)) = Inr a"
    and "rd_value a = JObject kvs"
  shows "\<exists>b w. redact hmac log_redaction (JObject (put_prop (js ''upstreamOutput'') (JString u) ob)) = Inr b
    \<and> rd_value b = JObject (put_prop (js ''upstreamOutput'') (JString w) kvs)"
proof -
  let ?k = "js ''upstreamOutput''"
  let ?p = "put_prop ?k (JString t) ob" and ?q = "put_prop ?k (JString u) ob"
  have unfold: "redact_walk hmac log_redaction [] 0 (JObject kvs) = bind_r (map_r (walk_entry hmac) kvs)
      (\<lambda>ys. Inr (JObject (assign_all (zip (map fst kvs) (map fst ys))), concat (map snd ys)))" for kvs
    by (simp add: redact_walk.simps [of _ _ _ _ "JObject _"] log_redaction_def default_redact_options_def)
  obtain ys where ys: "map_r (walk_entry hmac) ?p = Inr ys" "kvs = assign_all (zip (map fst ?p) (map fst ys))"
    using assms(2,3) by (auto simp: redact_def unfold result_iffs)
  from walk_differ [OF differ_put [OF assms(1)] output_key(1) ys(1)] obtain ys' w where
    ys': "map_r (walk_entry hmac) ?q = Inr ys'"
      "differ_at ?k (JString w) (zip (map fst ?p) (map fst ys)) (zip (map fst ?q) (map fst ys'))" by blast
  have "length ys = length ?p" using ys(1) by (auto simp: map_r_Inr_iff dest: list_all2_lengthD)
  then have "map fst (zip (map fst ?p) (map fst ys)) = map fst ?p" by simp
  then have "?k \<in> fst ` set (zip (map fst ?p) (map fst ys))"
    unfolding set_map [symmetric] by (simp add: update_keys)
  from assign_first [OF ys'(2) output_key(2) this, of "[]"]
  have "assign_all (zip (map fst ?q) (map fst ys')) = put_prop ?k (JString w) kvs"
    unfolding ys(2) assign_all_def by simp
  with ys'(1) show ?thesis by (simp add: redact_def unfold) blast
qed

text \<open>The sink lets a field called \<open>level\<close> replace the level; the gateway's own calls have none.\<close>

lemma fields_replace_the_level:
  "get_prop (line_fields (rec\<lparr>lr_fields := [(js ''level'', v)]\<rparr>)) (js ''level'') = Some v"
  by (simp add: line_fields_def spread_def)

section \<open>Properties\<close>

text \<open>
  A log record is one line. Whatever its fields hold, the line written for it ends with the only line
  break in it and holds no other control character, so no text can start a record of its own.
\<close>

theorem log_record_is_one_line:
  assumes "stderr_sink rec = Inr line"
  shows "\<exists>t. line = t @ [10] \<and> list_all visible t"
proof -
  obtain p where p: "stringify (JObject (line_fields rec)) = Inr p"
      "line = (case p of None \<Rightarrow> js ''undefined'' | Some t \<Rightarrow> t) @ [10]"
    using assms by (auto simp: stderr_sink_def result_iffs simp del: stringify.simps)
  have "list_all visible (case p of None \<Rightarrow> js ''undefined'' | Some t \<Rightarrow> t)"
    using text_visible [of "JObject (line_fields rec)"] p(1) by (cases p) (simp_all add: js_def del: stringify.simps)
  with p(2) show ?thesis by blast
qed

theorem log_record_is_one_line_witness:
  "\<exists>line t. stderr_sink \<lparr>lr_time = [], lr_level = LInfo, lr_msg = [10], lr_fields = []\<rparr> = Inr line
     \<and> line = t @ [10] \<and> list_all visible t"
proof -
  obtain line where l: "stderr_sink \<lparr>lr_time = [], lr_level = LInfo, lr_msg = [10], lr_fields = []\<rparr> = Inr line"
    by (simp add: stderr_sink_def line_fields_def spread_def)
  from log_record_is_one_line [OF l] l show ?thesis by blast
qed

text \<open>
  A server cannot forge a log record. The record made of a text it wrote says \<open>warn\<close> and the gateway's own
  message; and had the server written any other text that is not blank, the record would be the same but for
  the value of the field \<open>upstreamOutput\<close>, which is a string.
\<close>

theorem upstream_text_stays_in_its_field:
  assumes "wf_props (lg_base lg)" "log_from_upstream hmac time lg serverId stream t = Inr (Some r)"
    and "js_trim_end u \<noteq> []"
  shows "lr_time r = time \<and> lr_level r = LWarn \<and> lr_msg r = js ''upstream wrote to its own log stream''
    \<and> (\<exists>w. log_from_upstream hmac time lg serverId stream u
          = Inr (Some (r\<lparr>lr_fields := put_prop (js ''upstreamOutput'') (JString w) (lr_fields r)\<rparr>)))"
proof -
  let ?ob = "spread (lg_base lg) [(js ''serverId'', JString serverId), (js ''source'', JString (js ''upstream-'' @ stream))]"
  have put: "spread (lg_base lg) [(js ''serverId'', JString serverId), (js ''source'', JString (js ''upstream-'' @ stream)),
      (js ''upstreamOutput'', v)] = put_prop (js ''upstreamOutput'') v ?ob" for v by (simp add: spread_def)
  have wf: "wf_props ?ob" using assms(1) by (rule wf_spread)
  have en: "log_enabled lg LWarn" "js_trim_end t \<noteq> []"
    using assms(2) by (auto simp: log_from_upstream_def log_emit_def Let_def split: if_splits)
  with assms(2) obtain a where a: "redact hmac log_redaction (JObject (put_prop (js ''upstreamOutput'')
        (JString (upstream_output (js_trim_end t))) ?ob)) = Inr a"
      "r = \<lparr>lr_time = time, lr_level = LWarn, lr_msg = js ''upstream wrote to its own log stream'',
            lr_fields = (case rd_value a of JObject kvs \<Rightarrow> kvs | _ \<Rightarrow> [])\<rparr>"
    by (auto simp: log_from_upstream_def log_emit_def Let_def put result_iffs)
  obtain kvs where kvs: "rd_value a = JObject kvs"
    using a(1) by (auto simp: redact_def redact_walk.simps [of _ _ _ _ "JObject _"] log_redaction_def
        default_redact_options_def result_iffs)
  from emit_other_text [OF wf a(1) kvs, of "upstream_output (js_trim_end u)"] show ?thesis
    using a(2) kvs en(1) assms(3) by (auto simp: log_from_upstream_def log_emit_def Let_def put)
qed

theorem upstream_text_stays_in_its_field_witness:
  "\<exists>r w. log_from_upstream (\<lambda>_ _. []) [] (new_logger None None) (js ''demo'') (js ''stderr'') (js ''x'') = Inr (Some r)
     \<and> log_from_upstream (\<lambda>_ _. []) [] (new_logger None None) (js ''demo'') (js ''stderr'') (js ''y'')
       = Inr (Some (r\<lparr>lr_fields := put_prop (js ''upstreamOutput'') (JString w) (lr_fields r)\<rparr>))"
proof -
  have keys: "\<not> is_sensitive_key (js ''serverId'')" "\<not> is_sensitive_key (js ''source'')" by code_simp+
  have diff: "js ''serverId'' \<noteq> js ''source''" "js ''serverId'' \<noteq> js ''upstreamOutput''" "js ''source'' \<noteq> js ''upstreamOutput''"
    by (simp_all add: js_def)
  have trim: "js_trim_end (js ''x'') = js ''x''" "js_trim_end (js ''y'') \<noteq> []"
    by (simp_all add: js_trim_end_def js_space_def js_def)
  have en: "log_enabled (new_logger None None) LWarn" by (simp add: log_enabled_def new_logger_def level_rank_def)
  obtain r where r: "log_from_upstream (\<lambda>_ _. []) [] (new_logger None None) (js ''demo'') (js ''stderr'') (js ''x'') = Inr (Some r)"
    using trim(1) en
    by (simp add: log_from_upstream_def log_emit_def new_logger_def spread_def diff redact_def
        redact_walk.simps [of _ _ _ _ "JObject _"] log_redaction_def default_redact_options_def redact_entry_def keys output_key
        walk_text [unfolded log_redaction_def default_redact_options_def, simplified])
  have "wf_props (lg_base (new_logger None None))" by (simp add: new_logger_def wf_props_def)
  from upstream_text_stays_in_its_field [OF this r trim(2)] r show ?thesis by blast
qed

end
