(* ===== verification/Notifier.thy ===== *)
theory Notifier
  imports Approvals
begin

text \<open>
  The notification of a suspended call, \<open>packages/approvals/src/notifier.ts\<close>: a text with two links for the
  operator's console and, when a webhook is configured, a message to it. The URL parser and the webhook
  are parameters; a webhook that rejects, for which the model keeps the text of the error, is reported and
  otherwise ignored.
\<close>

section \<open>The messages\<close>

record notice =
  nt_agentId :: jstring
  nt_method :: jstring
  nt_qualifiedName :: jstring

definition link_path :: "string \<Rightarrow> jstring \<Rightarrow> jstring \<Rightarrow> jstring" where
  "link_path verb approvalId token = js verb @ approvalId @ js ''?token='' @ token"

definition message_text :: "jstring \<Rightarrow> notice \<Rightarrow> jstring \<Rightarrow> jstring \<Rightarrow> jstring" where
  "message_text approvalId details approveUrl denyUrl =
     js ''[SENTINEL APPROVAL REQUIRED]'' @ 10 # js ''ID: '' @ approvalId @ 10 # js ''Agent: '' @ nt_agentId details
     @ 10 # js ''Method: '' @ nt_method details @ 10 # js ''Target: '' @ nt_qualifiedName details
     @ 10 # js ''Approve: '' @ approveUrl @ 10 # js ''Deny: '' @ denyUrl @ [10]"

definition webhook_body :: "notice \<Rightarrow> jstring \<Rightarrow> jstring \<Rightarrow> jvalue" where
  "webhook_body details approveUrl denyUrl = JObject [(js ''content'', JString (
     [0xD83D, 0xDEA8] @ js '' **Sentinel Approval Required**'' @ [10, 10] @ js ''**Agent:** '' @ nt_agentId details
     @ 10 # js ''**Method:** '' @ nt_method details @ 10 # js ''**Target:** '' @ nt_qualifiedName details
     @ [10, 10] @ js ''['' @ 0x2705 # js '' Approve Request]('' @ approveUrl @ js '')''
     @ 10 # js ''['' @ 0x274C # js '' Deny Request]('' @ denyUrl @ js '')''))]"

section \<open>Notifying\<close>

record notifier =
  nf_loopbackBaseUrl :: jstring
  nf_discordWebhookUrl :: "jstring option"

type_synonym url_resolver = "jstring \<Rightarrow> jstring \<Rightarrow> exn + jstring"

record notified =
  no_stdout :: jstring
  no_posted :: "(jstring \<times> jvalue) option"
  no_stderr :: jstring

definition notify_approval ::
    "url_resolver \<Rightarrow> (jstring \<Rightarrow> jvalue \<Rightarrow> jstring option) \<Rightarrow> notifier \<Rightarrow> jstring \<Rightarrow> jstring \<Rightarrow> jstring \<Rightarrow> notice
      \<Rightarrow> exn + notified" where
  "notify_approval resolve webhook self approvalId approveToken denyToken details =
     bind_r (resolve (link_path ''/approve/'' approvalId approveToken) (nf_loopbackBaseUrl self)) (\<lambda>approveUrl.
     bind_r (resolve (link_path ''/deny/'' approvalId denyToken) (nf_loopbackBaseUrl self)) (\<lambda>denyUrl.
     let out = message_text approvalId details approveUrl denyUrl @ [10] in
     case nf_discordWebhookUrl self of
       None \<Rightarrow> Inr \<lparr>no_stdout = out, no_posted = None, no_stderr = []\<rparr>
     | Some hook \<Rightarrow>
         if hook = [] then Inr \<lparr>no_stdout = out, no_posted = None, no_stderr = []\<rparr>
         else let body = webhook_body details approveUrl denyUrl in
           Inr \<lparr>no_stdout = out, no_posted = Some (hook, body),
                no_stderr = (case webhook hook body of
                   None \<Rightarrow> []
                 | Some err \<Rightarrow> js ''Failed to send Discord webhook for approval '' @ approvalId @ js '': '' @ err @ [10])\<rparr>))"

section \<open>What the operator is told\<close>

text \<open>The console gets the links whenever there are any, whatever the webhook is and does.\<close>

lemma console_gets_the_links:
  assumes "resolve (link_path ''/approve/'' i a) (nf_loopbackBaseUrl self) = Inr u"
    and "resolve (link_path ''/deny/'' i d) (nf_loopbackBaseUrl self) = Inr v"
  shows "\<exists>n. notify_approval resolve webhook self i a d details = Inr n
    \<and> no_stdout n = message_text i details u v @ [10]"
  using assms by (simp add: notify_approval_def Let_def split: option.split)

text \<open>A link carries its token to the end of the path, behind the id.\<close>

lemma link_path_inject:
  assumes "63 \<notin> set i" "63 \<notin> set j" "link_path verb i a = link_path verb j b"
  shows "i = j \<and> a = b"
proof -
  have "i @ 63 # (js ''token='' @ a) = j @ 63 # (js ''token='' @ b)"
    using assms(3) by (simp add: link_path_def js_def)
  moreover have "takeWhile (\<lambda>c. c \<noteq> 63) (k @ 63 # x) = k" if "63 \<notin> set k" for k x :: jstring
    using that by (induction k) auto
  ultimately have "i = j" using assms(1,2) by metis
  with assms(3) show ?thesis by (simp add: link_path_def)
qed

end
