(* ===== verification/Provider.thy ===== *)
theory Provider
  imports Gateway Logger
begin

text \<open>
  What the risk engine asks a model, \<open>packages/risk-engine/src/provider.ts\<close>: the prompt, the requests to
  Groq and Ollama, and the promise the engine races against its timer. The network is a parameter. What the
  arguments of a call can and cannot add to the prompt.
\<close>

section \<open>\<open>JSON.stringify(value, null, 2)\<close>\<close>

definition deeper :: "jstring \<Rightarrow> jstring" where
  "deeper ind = ind @ [32, 32]"

definition laid_out :: "jstring \<Rightarrow> code_unit \<Rightarrow> jstring list \<Rightarrow> code_unit \<Rightarrow> jstring" where
  "laid_out ind l ps r = (if ps = [] then [l, r]
     else l # 10 # deeper ind @ join_with (44 # 10 # deeper ind) ps @ 10 # ind @ [r])"

definition member_text :: "jstring \<times> jstring option \<Rightarrow> jstring list" where
  "member_text m = (case m of (k, None) \<Rightarrow> [] | (k, Some t) \<Rightarrow> [json_quote k @ 58 # 32 # t])"

function stringify_indented :: "jstring \<Rightarrow> jvalue \<Rightarrow> exn + jstring option" where
  "stringify_indented ind (JArray xs) =
     bind_r (map_r (stringify_indented (deeper ind)) xs)
       (\<lambda>ps. Inr (Some (laid_out ind 91 (map (\<lambda>p. case p of None \<Rightarrow> js ''null'' | Some t \<Rightarrow> t) ps) 93)))"
| "stringify_indented ind (JObject kvs) =
     bind_r (map_r (\<lambda>(k, x). bind_r (stringify_indented (deeper ind) x) (\<lambda>p. Inr (k, p))) kvs)
       (\<lambda>ps. Inr (Some (laid_out ind 123 (concat (map member_text ps)) 125)))"
| "stringify_indented ind JNull = stringify JNull"
| "stringify_indented ind (JNumber x) = stringify (JNumber x)"
| "stringify_indented ind (JBool b) = stringify (JBool b)"
| "stringify_indented ind (JString s) = stringify (JString s)"
| "stringify_indented ind (JBigInt i) = stringify (JBigInt i)"
| "stringify_indented ind JUndefined = stringify JUndefined"
| "stringify_indented ind JFunction = stringify JFunction"
| "stringify_indented ind JSymbol = stringify JSymbol"
  by pat_completeness auto
termination
  by (relation "measure (size \<circ> snd)") (auto simp: size_prop less_Suc_eq_le size_list_estimation')

section \<open>The prompt\<close>

definition prompt_head :: jstring where
  "prompt_head = js ''You are a security risk engine for an AI agent gateway.'' @ 10 #
     js ''Analyze the following tool/resource request from an autonomous AI agent and assign a risk score from 0 to 100.'' @ 10 #
     js ''0 = Completely safe, benign, read-only or harmless.'' @ 10 #
     js ''100 = Extremely dangerous, malicious, destructive, or clear attempt at system compromise.'' @ 10 #
     10 # js ''Request Context:'' @ [10]"

definition prompt_tail :: jstring where
  "prompt_tail = 10 # 10 # js ''Provide your response as a valid JSON object matching this schema:'' @ 10 #
     js ''{'' @ 10 # js ''  \"score\": number,'' @ 10 # js ''  \"rationale\": string,'' @ 10 #
     js ''  \"signals\": string[]'' @ 10 # js ''}''"

definition build_prompt :: "jstring \<Rightarrow> jstring \<Rightarrow> jvalue \<Rightarrow> exn + jstring" where
  "build_prompt meth name payload =
     bind_r (stringify_indented [] payload) (\<lambda>text. Inr (prompt_head
       @ js ''Method: '' @ meth @ 10 # js ''Target: '' @ name @ 10 # js ''Payload: ''
       @ (case text of None \<Rightarrow> js ''undefined'' | Some t \<Rightarrow> t) @ prompt_tail))"

section \<open>Requests to the models\<close>

record fetch_request =
  fq_url :: jstring
  fq_headers :: "jstring props"
  fq_body :: jvalue

text \<open>Both requests are POSTs; \<open>fq_body\<close> is the value whose JSON text is the body.\<close>

definition groq_request :: "jstring \<Rightarrow> jstring \<Rightarrow> jstring \<Rightarrow> fetch_request" where
  "groq_request apiKey model prompt =
     \<lparr>fq_url = js ''https://api.groq.com/openai/v1/chat/completions'',
      fq_headers = [(js ''Content-Type'', js ''application/json''), (js ''Authorization'', js ''Bearer '' @ apiKey)],
      fq_body = JObject [(js ''model'', JString model),
        (js ''messages'', JArray [JObject [(js ''role'', JString (js ''user'')), (js ''content'', JString prompt)]]),
        (js ''response_format'', JObject [(js ''type'', JString (js ''json_object''))])]\<rparr>"

definition ollama_request :: "jstring \<Rightarrow> jstring \<Rightarrow> jstring \<Rightarrow> fetch_request" where
  "ollama_request baseUrl model prompt =
     \<lparr>fq_url = baseUrl @ js ''/api/generate'',
      fq_headers = [(js ''Content-Type'', js ''application/json'')],
      fq_body = JObject [(js ''model'', JString model), (js ''prompt'', JString prompt),
        (js ''format'', JString (js ''json'')), (js ''stream'', JBool False)]\<rparr>"

text \<open>
  What the network makes of a request: nothing ever, or after some milliseconds a response or an error.
  \<open>nw_parse\<close> is \<open>JSON.parse\<close>, and \<open>nw_message\<close> the text under which the engine reports an error.
\<close>

record network =
  nw_fetch :: "fetch_request \<Rightarrow> (nat \<times> jnum \<times> (exn + fetch_response)) option"
  nw_parse :: "jstring \<Rightarrow> exn + jvalue"
  nw_message :: "exn \<Rightarrow> jstring"

definition settled :: "network \<Rightarrow> nat \<Rightarrow> exn + risk_assessment \<Rightarrow> llm_promise" where
  "settled net t r = Settles t (case r of Inl e \<Rightarrow> Inl (nw_message net e) | Inr a \<Rightarrow> Inr a)"

definition asked ::
    "network \<Rightarrow> (jnum \<Rightarrow> exn + fetch_response \<Rightarrow> exn + risk_assessment) \<Rightarrow> (jstring \<Rightarrow> fetch_request)
      \<Rightarrow> exn + jstring \<Rightarrow> llm_promise" where
  "asked net assess request prompt = (case prompt of
      Inl e \<Rightarrow> settled net 0 (Inl e)
    | Inr p \<Rightarrow> (case nw_fetch net (request p) of
        None \<Rightarrow> Hangs
      | Some (t, latency, fetched) \<Rightarrow> settled net t (assess latency fetched)))"

definition groq_provider :: "network \<Rightarrow> jstring \<Rightarrow> jstring \<Rightarrow> llm_provider" where
  "groq_provider net apiKey model meth name payload =
     asked net (groq_evaluate_risk (nw_parse net) model) (groq_request apiKey model) (build_prompt meth name payload)"

definition ollama_provider :: "network \<Rightarrow> jstring \<Rightarrow> jstring \<Rightarrow> llm_provider" where
  "ollama_provider net baseUrl model meth name payload =
     asked net (ollama_evaluate_risk (nw_parse net) model) (ollama_request baseUrl model) (build_prompt meth name payload)"

section \<open>Lines\<close>

text \<open>What follows each line break of a text.\<close>

fun after_breaks :: "jstring \<Rightarrow> jstring list" where
  "after_breaks [] = []"
| "after_breaks (c # r) = (if c = 10 then r # after_breaks r else after_breaks r)"

lemma after_breaks_append [simp]: "after_breaks (a @ b) = map (\<lambda>s. s @ b) (after_breaks a) @ after_breaks b"
  by (induction a) auto

lemma after_breaks_none: "10 \<notin> set a \<Longrightarrow> after_breaks a = []"
  by (induction a) auto

lemma lines_of: "split_on 10 t = takeWhile (\<lambda>c. c \<noteq> 10) t # map (takeWhile (\<lambda>c. c \<noteq> 10)) (after_breaks t)"
  by (induction t) auto

lemma split_on_break: "split_on c (a @ c # b) = split_on c a @ split_on c b"
  by (induction a) (auto split: list.splits)

lemma visible_no_break: "list_all visible a \<Longrightarrow> 10 \<notin> set a"
  by (auto simp: list_all_iff)

text \<open>Every line but the first is indented deeper, or closes a bracket.\<close>

definition closes :: "jstring \<Rightarrow> jstring \<Rightarrow> bool" where
  "closes ind s = (s = ind @ [93] \<or> s = ind @ [125])"

definition indented :: "jstring \<Rightarrow> jstring \<Rightarrow> bool" where
  "indented ind t = list_all (\<lambda>s. starts_with s (deeper ind) \<or> closes ind s) (after_breaks t)"

lemma indented_flat: "10 \<notin> set t \<Longrightarrow> indented ind t"
  by (simp add: indented_def after_breaks_none)

lemma indented_all:
  "indented (deeper ind) t \<Longrightarrow> list_all (\<lambda>s. starts_with (s @ r) (deeper ind)) (after_breaks t)"
  by (auto simp: indented_def list_all_iff closes_def starts_with_iff deeper_def)

lemma joined_indented:
  assumes "10 \<notin> set ind" "list_all (indented (deeper ind)) ps"
  shows "list_all (\<lambda>s. starts_with (s @ r) (deeper ind)) (after_breaks (join_with (44 # 10 # deeper ind) ps))"
  using assms(2)
proof (induction "44 # 10 # deeper ind" ps arbitrary: r rule: join_with.induct)
  case (2 p)
  then show ?case by (simp add: indented_all)
next
  case (3 p q ps)
  have "after_breaks (deeper ind) = []" using assms(1) by (intro after_breaks_none) (auto simp: deeper_def)
  moreover have "list_all (\<lambda>s. starts_with (s @ u) (deeper ind)) (after_breaks p)" for u
    using indented_all [of ind p u] 3(2) by simp
  moreover have "list_all (\<lambda>s. starts_with (s @ r) (deeper ind)) (after_breaks (join_with (44 # 10 # deeper ind) (q # ps)))"
    using 3 by simp
  moreover have "starts_with (deeper ind @ u) (deeper ind)" for u by (auto simp: starts_with_iff)
  ultimately show ?case by (auto simp: list_all_iff)
qed simp

lemma laid_out_indented:
  assumes "10 \<notin> set ind" "list_all (indented (deeper ind)) ps" "l \<noteq> 10" "r = 93 \<or> r = 125"
  shows "indented ind (laid_out ind l ps r)"
proof -
  have flat: "after_breaks ind = []" "after_breaks (deeper ind) = []"
    using assms(1) by (auto intro!: after_breaks_none simp: deeper_def)
  have "starts_with (deeper ind @ u) (deeper ind)" for u by (auto simp: starts_with_iff)
  with joined_indented [OF assms(1,2)] assms(3,4) flat show ?thesis
    by (auto simp: laid_out_def indented_def list_all_iff closes_def)
qed

lemma member_indented:
  assumes "indented ind t" shows "indented ind (json_quote k @ 58 # 32 # t)"
  using assms visible_no_break [OF quote_visible, of k] by (simp add: indented_def after_breaks_none)

lemma deeper_flat: "10 \<notin> set (deeper ind) \<longleftrightarrow> 10 \<notin> set ind"
  by (simp add: deeper_def)

lemma stringify_indented_lines:
  "stringify_indented ind v = Inr (Some t) \<Longrightarrow> 10 \<notin> set ind \<Longrightarrow> indented ind t"
proof (induction ind v arbitrary: t rule: stringify_indented.induct)
  case (1 ind xs)
  then obtain ps where ps: "list_all2 (\<lambda>x p. stringify_indented (deeper ind) x = Inr p) xs ps"
      "t = laid_out ind 91 (map (\<lambda>p. case p of None \<Rightarrow> js ''null'' | Some t \<Rightarrow> t) ps) 93"
    by (auto simp: result_iffs map_r_Inr_iff)
  have "indented (deeper ind) (case p of None \<Rightarrow> js ''null'' | Some t \<Rightarrow> t)" if mem: "p \<in> set ps" for p
  proof -
    obtain x where "x \<in> set xs" "stringify_indented (deeper ind) x = Inr p" using all2_origin [OF ps(1) mem] by blast
    with 1(1,3) show ?thesis by (cases p) (auto simp: js_def deeper_flat intro: indented_flat)
  qed
  with 1(3) show ?case unfolding ps(2) by (intro laid_out_indented) (auto simp: list_all_iff)
next
  case (2 ind kvs)
  then obtain ps where ps: "list_all2 (\<lambda>(k, x) p. bind_r (stringify_indented (deeper ind) x) (\<lambda>p. Inr (k, p)) = Inr p) kvs ps"
      "t = laid_out ind 123 (concat (map member_text ps)) 125"
    by (auto simp: result_iffs map_r_Inr_iff case_prod_unfold)
  have "list_all (indented (deeper ind)) (member_text (k, p))" if mem: "(k, p) \<in> set ps" for k p
  proof -
    obtain x where "(k, x) \<in> set kvs" "stringify_indented (deeper ind) x = Inr p"
      using all2_origin [OF ps(1) mem] by (auto simp: result_iffs)
    with 2(1,3) show ?thesis by (cases p) (auto simp: member_text_def deeper_flat intro!: member_indented)
  qed
  with 2(3) show ?case unfolding ps(2) by (intro laid_out_indented) (auto simp: list_all_iff)
qed (auto intro!: indented_flat visible_no_break text_visible simp del: stringify.simps)

section \<open>What the arguments can add\<close>

text \<open>A prompt has the lines of its head, a line for the method, one for the name, those of the payload and its tail's.\<close>

lemma lines_of_prompt:
  assumes "build_prompt meth name payload = Inr prompt" and "10 \<notin> set meth" and "10 \<notin> set name"
  shows "\<exists>p first more. stringify_indented [] payload = Inr p
    \<and> join_with [10] (first # more) = (case p of None \<Rightarrow> js ''undefined'' | Some t \<Rightarrow> t)
    \<and> split_on 10 prompt = butlast (split_on 10 prompt_head) @ [js ''Method: '' @ meth, js ''Target: '' @ name]
        @ (js ''Payload: '' @ first) # more @ tl (split_on 10 prompt_tail)
    \<and> list_all (\<lambda>l. starts_with l [32, 32] \<or> l \<in> {[93], [125]}) more"
proof -
  obtain p where p: "stringify_indented [] payload = Inr p"
    and prompt: "prompt = prompt_head @ js ''Method: '' @ meth @ 10 # js ''Target: '' @ name @ 10 # js ''Payload: ''
       @ (case p of None \<Rightarrow> js ''undefined'' | Some t \<Rightarrow> t) @ prompt_tail"
    using assms(1) by (auto simp: build_prompt_def result_iffs)
  obtain t where t: "t = (case p of None \<Rightarrow> js ''undefined'' | Some t \<Rightarrow> t)" by blast
  have ind: "indented [] t"
    using stringify_indented_lines [of "[]" payload] p by (cases p) (auto simp: t js_def intro: indented_flat)
  obtain first more where f: "split_on 10 t = first # more" by (cases "split_on 10 t") auto
  obtain tail where tail: "prompt_tail = 10 # tail" by (simp add: prompt_tail_def)
  obtain head where head: "prompt_head = head @ [10]" by (simp add: prompt_head_def)
  have flat: "10 \<notin> set (js ''Method: '' @ meth)" "10 \<notin> set (js ''Target: '' @ name)" "10 \<notin> set (js ''Payload: '')"
    using assms(2,3) by (simp_all add: js_def)
  have glue: "split_on 10 (a @ t) = (a @ first) # more" if "10 \<notin> set a" for a
    using that f by (induction a) auto
  have "prompt = head @ 10 # (js ''Method: '' @ meth) @ 10 # (js ''Target: '' @ name) @ 10 # (js ''Payload: '' @ t) @ 10 # tail"
    by (simp add: prompt t tail head)
  then have "split_on 10 prompt = split_on 10 head @ [js ''Method: '' @ meth, js ''Target: '' @ name]
      @ (js ''Payload: '' @ first) # more @ split_on 10 tail"
    by (simp only: split_on_break split_on_single [OF flat(1)] split_on_single [OF flat(2)] glue [OF flat(3)]
        append.simps)
  moreover have "butlast (split_on 10 prompt_head) = split_on 10 head"
    using split_on_break [of 10 head "[]"] by (simp add: head butlast_append)
  moreover have "tl (split_on 10 prompt_tail) = split_on 10 tail" by (simp add: tail)
  moreover have "list_all (\<lambda>l. starts_with l [32, 32] \<or> l \<in> {[93], [125]}) more"
    unfolding list_all_iff
  proof
    fix l assume "l \<in> set more"
    then obtain x where l: "l = takeWhile (\<lambda>c. c \<noteq> 10) x" and x: "x \<in> set (after_breaks t)"
      using f unfolding lines_of by auto
    from ind x have "starts_with x [32, 32] \<or> x \<in> {[93], [125]}"
      by (auto simp: indented_def list_all_iff closes_def deeper_def)
    with l show "starts_with l [32, 32] \<or> l \<in> {[93], [125]}" by (auto simp: starts_with_iff)
  qed
  moreover have "join_with [10] (first # more) = t" using split_on_join [of 10 t] f by simp
  ultimately show ?thesis using p t by (intro exI [of _ p] exI [of _ first] exI [of _ more] conjI) simp_all
qed

section \<open>The names of a call\<close>

lemma routed_resolves:
  assumes "route_of deps st m name params = Inr t"
  shows "\<exists>kind r. resolve_target (gc_forward (de_config deps))
    \<lparr>gv_catalog = ss_catalog st, gv_registry = ss_registry st\<rparr> m kind name = Inr r"
proof -
  from assms obtain r where r: "route_request (de_sha deps) (gc_forward (de_config deps))
         \<lparr>gv_catalog = ss_catalog st, gv_registry = ss_registry st\<rparr> (build_inline_metadata m name)
         \<lparr>ir_method = Some (JString m), ir_params = Some (JObject params)\<rparr> = Inr r"
    and c: "(case r of ForwardRoute t \<Rightarrow> Inr t | DiscoverRoute \<Rightarrow> Inl (PlainError (js ''unexpected route kind for '' @ m))) = Inr t"
    unfolding route_of_def bind_r_Inr_iff by blast
  from c have "r = ForwardRoute t" by (cases r) auto
  with r show ?thesis
    by (cases "strip_reserved_meta (get_prop params (js ''_meta''))")
      (auto simp: route_request_def Let_def bind_r_Inr_iff header_check_iff build_inline_metadata_def plain_object_def
        split: if_splits option.splits prod.splits)
qed

lemma chars_no_break:
  "is_valid_server_id s \<Longrightarrow> 10 \<notin> set s" "is_valid_tool_name s \<Longrightarrow> 10 \<notin> set s" "\<not> uri_unreserved 10"
  using server_id_chars [of s 10]
  by (auto simp: is_valid_tool_name_def list_all_iff uri_unreserved_def char_class_defs word_le_nat_alt)

lemma qualified_no_break: "qualify k s n = Inr q \<Longrightarrow> 10 \<notin> set q"
  by (auto simp: qualify_Inr_iff chars_no_break)

lemma resource_no_break: "qualify_resource_uri s u = Inr q \<Longrightarrow> 10 \<notin> set q"
  using encode_uri_chars [of u _ 10]
  by (auto simp: qualify_resource_Inr_iff resource_uri_prefix_def js_def chars_no_break)

lemma resolved_no_break:
  assumes cat: "catalog_reachable sha cfg scanner cfgs (gv_catalog gw)" and res: "resolve_target fw gw m kind q = Inr r"
  shows "10 \<notin> set q"
proof -
  consider e where "m = js_tools_call" "catalog_get (gv_catalog gw) q = Some e"
    | s u where "parse_qualified_resource_uri q = Inr (Some (s, u))"
    | s n where "parse_qualified_prompt_name q = Some (s, n)"
    using res by (auto simp: resolve_target_def Let_def bind_r_Inr_iff split: if_splits option.splits)
  then show ?thesis
  proof cases
    case (1 e)
    from get_indexed [OF cat 1(2)] show ?thesis
      by (auto simp: indexed_ok_def entry_ok_def qualify_tool_name_def dest: qualified_no_break)
  next
    case (2 s u)
    from parse_resource_Some [OF this] show ?thesis by (rule resource_no_break)
  next
    case (3 s n)
    then show ?thesis by (auto simp: prompt_parse_is_tool_parse parse_tool_Some_iff chars_no_break)
  qed
qed

lemma prepared_no_break:
  assumes "catalog_reachable sha cfg scanner cfgs (ss_catalog st)" "prepare_call deps env st m params = Inr pq"
  shows "10 \<notin> set (pq_method pq) \<and> 10 \<notin> set (pq_name pq)"
proof (rule prepare_call_parts [OF assms(2)])
  fix t d assume m: "pq_method pq = m" and r: "route_of deps st m (pq_name pq) params = Inr t"
  let ?gw = "\<lparr>gv_catalog = ss_catalog st, gv_registry = ss_registry st\<rparr>"
  have "catalog_reachable sha cfg scanner cfgs (gv_catalog ?gw)" using assms(1) by simp
  then have "10 \<notin> set (pq_name pq)" using routed_resolves [OF r] resolved_no_break by blast
  moreover have "10 \<notin> set m"
    using route_of_target [OF r]
    by (auto simp: is_forward_method_def forward_methods_def js_tools_call_def js_resources_read_def js_prompts_get_def js_def)
  ultimately show ?thesis using m by simp
qed

section \<open>Property\<close>

text \<open>
  C17: The arguments of a call cannot speak to the risk model in a line of their own. The prompt for any call
  the gateway has routed has exactly these lines: those of the code's own head, one for the method, one for
  the name of the tool, resource or prompt, those of the serialised payload, and those of the code's own
  tail. Of the payload's lines the first follows \<open>Payload:\<close> and every other is indented or a single closing
  bracket.
\<close>

theorem arguments_cannot_address_the_model:
  assumes "catalog_reachable sha cfg scanner cfgs (ss_catalog st)" and "prepare_call deps env st m params = Inr pq"
    and "build_prompt (pq_method pq) (pq_name pq) (payload_of pq) = Inr prompt"
  shows "\<exists>p first more. stringify_indented [] (payload_of pq) = Inr p
    \<and> join_with [10] (first # more) = (case p of None \<Rightarrow> js ''undefined'' | Some t \<Rightarrow> t)
    \<and> split_on 10 prompt = butlast (split_on 10 prompt_head)
        @ [js ''Method: '' @ pq_method pq, js ''Target: '' @ pq_name pq]
        @ (js ''Payload: '' @ first) # more @ tl (split_on 10 prompt_tail)
    \<and> list_all (\<lambda>l. starts_with l [32, 32] \<or> l \<in> {[93], [125]}) more"
  using lines_of_prompt [OF assms(3)] prepared_no_break [OF assms(1,2)] by blast

theorem arguments_cannot_address_the_model_witness:
  "\<exists>pq prompt first more. prepare_call (sample_deps None) (sample_env None) sample_state js_prompts_get sample_params = Inr pq
    \<and> build_prompt (pq_method pq) (pq_name pq) (payload_of pq) = Inr prompt
    \<and> split_on 10 prompt = butlast (split_on 10 prompt_head)
        @ [js ''Method: '' @ pq_method pq, js ''Target: '' @ pq_name pq]
        @ (js ''Payload: '' @ first) # more @ tl (split_on 10 prompt_tail)"
proof -
  obtain pq where pq: "prepare_call (sample_deps None) (sample_env None) sample_state js_prompts_get sample_params = Inr pq"
      "pq_method pq = js_prompts_get" "pq_params pq = sample_params"
    using sample_prepared by blast
  have "payload_of pq = JObject sample_params"
    using pq by (simp add: payload_of_def js_prompts_get_def js_tools_call_def)
  then obtain prompt where p: "build_prompt (pq_method pq) (pq_name pq) (payload_of pq) = Inr prompt"
    by (auto simp: build_prompt_def sample_params_def)
  have cat: "catalog_reachable (\<lambda>_. []) default_catalog None [] (ss_catalog sample_state)"
    by (simp add: sample_state_def catalog_start)
  from arguments_cannot_address_the_model [OF cat pq(1) p] pq p show ?thesis by blast
qed

end
