(* ===== verification/Startup.thy ===== *)
theory Startup
  imports Lifecycle Screening Logger Notifier Provider
begin

text \<open>
  The process, \<open>apps/gateway/src/main.ts\<close>: how the components are built from a configuration and the
  environment, and how they are closed. What the gateway it starts is made of, that it starts in a state the
  other theories begin with, and that a shutdown closes everything once. The environment, the files, the
  network, the databases and zod are parameters.
\<close>

section \<open>The configuration\<close>

record machine =
  ma_env :: "jstring \<Rightarrow> jstring option"
  ma_cwd :: jstring
  ma_exists :: "jstring \<Rightarrow> bool"
  ma_read :: "jstring \<Rightarrow> exn + jstring"
  ma_zod :: config_schema
  ma_network :: network
  ma_sha :: hash_fun
  ma_hmac :: hmac_fun
  ma_url_protocol :: "jstring \<Rightarrow> exn + jstring"
  ma_input_required :: "jvalue \<Rightarrow> bool"
  ma_guard_fetch :: guard_fetch
  ma_scan_time :: jstring
  ma_listing :: "jstring \<Rightarrow> exn + listed_tool list"
  ma_arrivals :: "server_settings list \<Rightarrow> server_settings list"
  ma_connected :: "upstream_registry \<Rightarrow> upstream_registry"
  ma_audit :: "jstring \<Rightarrow> exn + audit_row list \<times> nat"
  ma_approvals :: "jstring \<Rightarrow> exn + approvals_table"
  ma_listen :: "http_settings \<Rightarrow> exn + jstring \<times> int"

text \<open>
  \<open>ma_connected\<close> is what warm-up and the initial refresh, which dial, have made of the registry by the time the
  server listens. Below, \<open>None\<close> is \<open>process.exit(1)\<close>.
\<close>

definition load_raw_config :: "machine \<Rightarrow> jvalue props option" where
  "load_raw_config m =
     (let configPath = (case ma_env m (js ''SENTINEL_CONFIG'') of Some p \<Rightarrow> p
        | None \<Rightarrow> path_resolve (ma_cwd m) [ma_cwd m, js ''sentinel.config.json''])
      in if \<not> ma_exists m configPath then Some []
         else case bind_r (ma_read m configPath) (nw_parse (ma_network m)) of
             Inr (JObject parsed) \<Rightarrow> Some parsed
           | _ \<Rightarrow> None)"

text \<open>A setting that may name a variable: \<open>ref.startsWith('env:') ? process.env[ref.slice(4)] : ref\<close>.\<close>

definition env_or_literal :: "machine \<Rightarrow> jstring \<Rightarrow> jstring option" where
  "env_or_literal m ref = (if starts_with ref (js ''env:'') then ma_env m (drop 4 ref) else Some ref)"

definition or_blank :: "jstring option \<Rightarrow> jstring" where
  "or_blank x = (case x of None \<Rightarrow> [] | Some s \<Rightarrow> s)"

section \<open>The components\<close>

text \<open>The classifier, when there is a token for it.\<close>

definition build_guard :: "machine \<Rightarrow> text_classifier" where
  "build_guard m = (case ma_env m (js ''HF_TOKEN'') of
      None \<Rightarrow> None
    | Some hfToken \<Rightarrow> if hfToken = [] then None
        else Some (ma_guard_fetch m, \<lparr>pg_hfToken = hfToken, pg_model = None, pg_timeoutMs = None\<rparr>))"

definition build_provider :: "machine \<Rightarrow> provider_settings \<Rightarrow> llm_provider" where
  "build_provider m p = (case p of
      GroqSettings apiKeyRef model \<Rightarrow> groq_provider (ma_network m) (or_blank (env_or_literal m apiKeyRef)) model
    | OllamaSettings url model \<Rightarrow> ollama_provider (ma_network m) url model)"

definition build_risk_engine :: "machine \<Rightarrow> risk_settings \<Rightarrow> risk_config \<times> llm_provider option" where
  "build_risk_engine m r =
     (\<lparr>rk_heuristicOnly = Some (rs_heuristicOnly r), rk_llmTimeoutMs = Some (rs_llmTimeoutMs r),
       rk_escalationThreshold = Some (rs_escalationThreshold r), rk_escalateObligation = Some (rs_escalateObligation r)\<rparr>,
      map_option (build_provider m) (rs_provider r))"

definition build_signer :: "machine \<Rightarrow> approval_settings \<Rightarrow> signer" where
  "build_signer m a = new_signer (or_blank (env_or_literal m (as_hmacSecret a))) None"

definition build_notifier :: "machine \<Rightarrow> approval_settings \<Rightarrow> notifier" where
  "build_notifier m a = \<lparr>nf_loopbackBaseUrl = as_loopbackBaseUrl a,
     nf_discordWebhookUrl = (case as_discordWebhookUrl a of
         None \<Rightarrow> None
       | Some webhookRef \<Rightarrow> (case env_or_literal m webhookRef of
             None \<Rightarrow> None
           | Some url \<Rightarrow> if url = [] then None else Some url))\<rparr>"

text \<open>The catalog after its initial refresh; one that fails leaves what it had made of it.\<close>

definition initial_catalog :: "machine \<Rightarrow> gateway_config \<Rightarrow> upstream_registry \<Rightarrow> tool_catalog" where
  "initial_catalog m config registry =
     snd (catalog_refresh (ma_sha m) (gc_catalog config)
       (Some (\<lambda>tool. Inr (scan_tool (build_guard m) (ma_scan_time m) tool))) registry
       (ma_arrivals m (map uc_server (registry_dialable registry))) (ma_listing m) empty_catalog)"

definition start_http_server :: "machine \<Rightarrow> http_settings \<Rightarrow> exn + jstring \<times> int" where
  "start_http_server m settings = bind_r (ma_listen m settings) (\<lambda>(address, port).
     Inr (if address = [] then ht_host settings else address, port))"

section \<open>Starting\<close>

record running =
  ru_deps :: server_deps
  ru_state :: gateway_state
  ru_notifier :: "notifier option"
  ru_logger :: logger
  ru_bound :: "jstring \<times> int"

datatype startup = Exited nat | Serving running

definition build_deps :: "machine \<Rightarrow> gateway_config \<Rightarrow> server_deps" where
  "build_deps m config =
     \<lparr>de_sha = ma_sha m, de_hmac = ma_hmac m, de_cwd = ma_cwd m, de_url_protocol = ma_url_protocol m,
      de_config = config, de_policy = None, de_risk = Some (build_risk_engine m (gc_risk config)),
      de_scanner = Some (scanner_of (build_guard m) (ma_scan_time m)),
      de_signer = map_option (build_signer m) (gc_approval config),
      de_notifier = (gc_approval config \<noteq> None), de_input_required = ma_input_required m\<rparr>"

definition start_with :: "machine \<Rightarrow> gateway_config \<Rightarrow> exn + running" where
  "start_with m config =
     (let logger = new_logger (Some (parse_log_level (ma_env m (js ''SENTINEL_LOG_LEVEL'')) LInfo))
            (Some [(js ''instance'', JString (gc_instanceName config))]);
          registry = build_registry (gc_servers config);
          catalog = initial_catalog m config registry
      in bind_r (ma_audit m (gc_auditDb config)) (\<lambda>(rows, nextSequence).
         bind_r (case gc_approval config of
             None \<Rightarrow> Inr None
           | Some a \<Rightarrow> bind_r (ma_approvals m (gc_approvalDb config)) (\<lambda>table. Inr (Some table))) (\<lambda>approvals.
         bind_r (start_http_server m (gc_http config)) (\<lambda>bound.
         Inr \<lparr>ru_deps = build_deps m config,
              ru_state = \<lparr>ss_registry = ma_connected m registry, ss_catalog = catalog,
                ss_audit = Some (open_store rows nextSequence), ss_approvals = approvals,
                ss_ids = new_factory, ss_trace = []\<rparr>,
              ru_notifier = map_option (build_notifier m) (gc_approval config),
              ru_logger = logger, ru_bound = bound\<rparr>))))"

definition start_gateway :: "machine \<Rightarrow> startup" where
  "start_gateway m =
     (case load_raw_config m of
        None \<Rightarrow> Exited 1
      | Some rawConfig \<Rightarrow>
          (case gateway_config_schema (ma_zod m) (JObject rawConfig) of
             Inl issues \<Rightarrow> Exited 1
           | Inr config \<Rightarrow> (case start_with m config of Inl e \<Rightarrow> Exited 1 | Inr r \<Rightarrow> Serving r)))"

section \<open>Shutting down\<close>

text \<open>
  The first signal starts the sequence; each component is closed when the closing of the one before has
  settled, whether it failed or not. The audit store closes at once and ends the process.
\<close>

datatype closing = McpHandler | HttpServer | Registry | AuditDb

record shutdown =
  sd_inProgress :: bool
  sd_awaiting :: "closing option"
  sd_closed :: "closing list"
  sd_warned :: "closing list"
  sd_exited :: bool

datatype shutdown_event = Signal | Settled bool

definition serving :: shutdown where
  "serving = \<lparr>sd_inProgress = False, sd_awaiting = None, sd_closed = [], sd_warned = [], sd_exited = False\<rparr>"

definition close_next :: "closing \<Rightarrow> shutdown \<Rightarrow> shutdown" where
  "close_next c s = s\<lparr>sd_awaiting := Some c, sd_closed := sd_closed s @ [c]\<rparr>"

definition warn_if :: "bool \<Rightarrow> closing \<Rightarrow> shutdown \<Rightarrow> shutdown" where
  "warn_if failed c s = (if failed then s\<lparr>sd_warned := sd_warned s @ [c]\<rparr> else s)"

fun shutdown_on :: "bool \<Rightarrow> shutdown_event \<Rightarrow> shutdown \<Rightarrow> shutdown" where
  "shutdown_on auditFails Signal s =
     (if sd_inProgress s then s else close_next McpHandler (s\<lparr>sd_inProgress := True\<rparr>))"
| "shutdown_on auditFails (Settled failed) s =
     (case sd_awaiting s of
        None \<Rightarrow> s
      | Some McpHandler \<Rightarrow> close_next HttpServer (warn_if failed McpHandler s)
      | Some HttpServer \<Rightarrow> close_next Registry (warn_if failed HttpServer s)
      | Some Registry \<Rightarrow>
          (let s' = warn_if failed Registry s
           in warn_if auditFails AuditDb (s'\<lparr>sd_awaiting := None, sd_closed := sd_closed s' @ [AuditDb], sd_exited := True\<rparr>))
      | Some AuditDb \<Rightarrow> s)"

section \<open>What is started\<close>

lemma startedE:
  assumes "start_gateway m = Serving r"
  obtains raw config where "gateway_config_schema (ma_zod m) (JObject raw) = Inr config"
    "ru_deps r = build_deps m config" "ss_registry (ru_state r) = ma_connected m (build_registry (gc_servers config))"
    "ss_catalog (ru_state r) = initial_catalog m config (build_registry (gc_servers config))"
    "ss_trace (ru_state r) = []" "ss_audit (ru_state r) \<noteq> None"
    "ss_approvals (ru_state r) \<noteq> None \<longleftrightarrow> gc_approval config \<noteq> None"
  using assms that
  by (auto simp: start_gateway_def start_with_def Let_def bind_r_Inr_iff
      split: option.splits sum.splits prod.splits)

text \<open>The registry holds a fresh client for every server, in the order of the configuration.\<close>

lemma put_all_new:
  "distinct (map us_id ss) \<Longrightarrow> fst ` set m \<inter> us_id ` set ss = {} \<Longrightarrow>
   fold (\<lambda>sv m. put_prop (us_id sv) (new_upstream_client sv) m) ss m
     = m @ map (\<lambda>sv. (us_id sv, new_upstream_client sv)) ss"
proof (induction ss arbitrary: m)
  case (Cons sv ss)
  then have "put_prop (us_id sv) (new_upstream_client sv) m = m @ [(us_id sv, new_upstream_client sv)]"
    by (intro put_new) auto
  with Cons show ?case by auto
qed simp

lemma registry_clients:
  "distinct (map us_id ss) \<Longrightarrow> registry_all (build_registry ss) = map new_upstream_client ss"
  using put_all_new [of ss "[]"] by (simp add: registry_all_def build_registry_def)

lemma dialable_targets:
  assumes "distinct (map us_id ss)"
  shows "map uc_server (registry_dialable (build_registry ss)) = filter (\<lambda>sv. client_dialable (new_upstream_client sv)) ss"
  using assms by (simp add: registry_dialable_def registry_clients filter_map comp_def new_upstream_client_def)

lemma initial_catalog_reachable:
  assumes "distinct (map us_id (gc_servers config))" "\<And>ts. mset (ma_arrivals m ts) = mset ts"
  shows "catalog_reachable (ma_sha m) (gc_catalog config) (Some (\<lambda>tool. Inr (scan_tool (build_guard m) (ma_scan_time m) tool)))
    (gc_servers config) (initial_catalog m config (build_registry (gc_servers config)))"
  unfolding initial_catalog_def catalog_refresh_def dialable_targets [OF assms(1)]
  by (rule catalog_round [OF catalog_start]) (simp add: round_ok_def assms subseq_filter)

lemma not_own_name:
  assumes "qualify_tool_name i t = Inr q" "i \<noteq> sentinel_server_id"
  shows "\<not> is_sentinel_tool_name q"
proof
  assume "is_sentinel_tool_name q"
  then obtain u where u: "q = sentinel_server_id @ [95, 95] @ u"
    by (auto simp: is_sentinel_tool_name_def starts_with_iff separator_eq)
  from assms(1) have i: "is_valid_server_id i" "q = i @ [95, 95] @ t"
    by (simp_all add: qualify_tool_name_def qualify_Inr_iff)
  have "95 \<notin> set sentinel_server_id" by (simp add: sentinel_server_id_def js_def)
  then have "index_of [95, 95] q = Some (length sentinel_server_id)" unfolding u by (simp add: index_of_separator)
  moreover have "index_of [95, 95] q = Some (length i)" unfolding i(2) using i(1) by (simp add: index_of_separator name_rules)
  ultimately have "length i = length sentinel_server_id" by simp
  with u i(2) assms(2) show False by simp
qed

lemma initial_catalog_get:
  assumes "distinct (map us_id (gc_servers config))" "\<And>ts. mset (ma_arrivals m ts) = mset ts"
    and "catalog_get (initial_catalog m config (build_registry (gc_servers config))) q = Some e"
  shows "\<exists>sv \<in> set (gc_servers config). us_id sv = ct_serverId e \<and> us_enabled sv \<and> us_trust sv \<noteq> Quarantined"
proof -
  let ?reg = "build_registry (gc_servers config)" and ?sc = "Some (\<lambda>tool. Inr (scan_tool (build_guard m) (ma_scan_time m) tool))"
  let ?ts = "map uc_server (registry_dialable ?reg)"
  obtain out c where run: "catalog_refresh (ma_sha m) (gc_catalog config) ?sc ?reg (ma_arrivals m ?ts) (ma_listing m) empty_catalog = (out, c)"
    by fastforce
  with assms(3) have get: "catalog_get c q = Some e" by (simp add: initial_catalog_def)
  have ok: "round_ok (gc_servers config) ?ts (ma_arrivals m ?ts)"
    unfolding dialable_targets [OF assms(1)] by (simp add: round_ok_def assms(1,2) subseq_filter)
  have "\<exists>cl \<in> set (registry_dialable ?reg). us_id (uc_server cl) = ct_serverId e"
  proof (cases out)
    case (Inl x)
    with run have "cat_index c = []"
      by (auto simp: catalog_refresh_def refresh_once_def empty_catalog_def Let_def split: prod.splits option.splits)
    with get show ?thesis by (simp add: catalog_get_def)
  next
    case (Inr result)
    with advertised_dialable [OF catalog_start ok _ get] run show ?thesis by simp
  qed
  then show ?thesis
    using dialable_targets [OF assms(1)] by (auto simp: client_dialable_def new_upstream_client_def registry_dialable_def
      registry_clients [OF assms(1)])
qed

lemma initial_catalog_entry:
  assumes "distinct (map us_id (gc_servers config))" "list_all (\<lambda>s. us_id s \<noteq> sentinel_server_id) (gc_servers config)"
    and "\<And>ts. mset (ma_arrivals m ts) = mset ts"
    and mem: "(q, e) \<in> set (cat_index (initial_catalog m config (build_registry (gc_servers config))))"
  shows "\<not> is_sentinel_tool_name q
    \<and> (\<exists>sv \<in> set (gc_servers config). us_id sv = ct_serverId e \<and> us_enabled sv \<and> us_trust sv \<noteq> Quarantined)"
proof -
  let ?c = "initial_catalog m config (build_registry (gc_servers config))"
  note inv = reachable_inv [OF initial_catalog_reachable [OF assms(1,3)]]
  from inv mem have "catalog_get ?c q = Some e" by (simp add: catalog_inv_def catalog_get_def)
  moreover from inv mem obtain sv where sv: "sv \<in> set (gc_servers config)"
      "qualify_tool_name (us_id sv) (ct_toolName e) = Inr q"
    by (auto simp: catalog_inv_def list_all_iff indexed_ok_def entry_ok_def)
  moreover from sv(1) assms(2) have "us_id sv \<noteq> sentinel_server_id" by (simp add: list_all_iff)
  ultimately show ?thesis using initial_catalog_get [OF assms(1,3)] by (blast dest: not_own_name)
qed

text \<open>No step takes the log away.\<close>

lemma suspension_audit: "suspension env pq st st' \<Longrightarrow> ss_audit st' = ss_audit st"
  by (induction rule: suspension.induct) simp_all

lemma logged_audit: "logged deps env rec st st' \<Longrightarrow> ss_audit st' = None \<longleftrightarrow> ss_audit st = None"
  by (auto simp: logged_def)

lemma finished_audit: "finished deps env pq st st' \<Longrightarrow> ss_audit st' = None \<longleftrightarrow> ss_audit st = None"
proof (induction rule: finished.induct)
  case (deferred risk w rec f st st2 st3)
  with suspension_audit [OF deferred(5)] logged_audit [OF deferred(4)] show ?case by simp
qed (auto dest: logged_audit simp: emit_def)

lemma live_step_audit:
  assumes "live_step deps s s'" "live_inv deps s"
  shows "ss_audit (lv_state s') = None \<longleftrightarrow> ss_audit (lv_state s) = None"
  using assms
proof (induction rule: live_step.induct)
  case (resume pq ps env st r st')
  with finished_audit [OF finish_call_finished [OF resume(2)]] show ?case by simp
next
  case (approve env args st r st' ps)
  with approve_request_idle [OF _ approve(1)] show ?case by (simp add: live_inv_def)
next
  case (cancel env params st r st' ps)
  then show ?case by (auto simp: handle_tasks_cancel_def Let_def split: option.splits sum.splits)
next
  case (link env decision i token st reply st' ps)
  with handle_link_cases [OF link(1)] show ?case by auto
qed simp_all

lemma live_reachable_audit: "live_reachable deps s0 s \<Longrightarrow> ss_audit (lv_state s) = None \<longleftrightarrow> ss_audit (lv_state s0) = None"
proof (induction rule: live_reachable.induct)
  case (step s s')
  with live_step_audit [OF step.hyps(2) live_reachable_inv [OF step.hyps(1)]] show ?case by simp
qed simp

section \<open>A sample start\<close>

definition sample_machine :: machine where
  "sample_machine = \<lparr>ma_env = (\<lambda>_. None), ma_cwd = js ''/'', ma_exists = (\<lambda>_. False), ma_read = (\<lambda>_. Inl TypeError),
     ma_zod = (\<lambda>_. Inr sample_settings),
     ma_network = \<lparr>nw_fetch = (\<lambda>_. None), nw_parse = (\<lambda>_. Inl TypeError), nw_message = (\<lambda>_. [])\<rparr>,
     ma_sha = take 2, ma_hmac = (\<lambda>_ _. []), ma_url_protocol = Inr, ma_input_required = (\<lambda>_. False),
     ma_guard_fetch = (\<lambda>_ _. Inl TypeError), ma_scan_time = [], ma_listing = (\<lambda>_. Inl TypeError),
     ma_arrivals = (\<lambda>ts. ts), ma_connected = (\<lambda>r. r), ma_audit = (\<lambda>_. Inr ([], 1)), ma_approvals = (\<lambda>_. Inr []),
     ma_listen = (\<lambda>_. Inr ([], 8787))\<rparr>"

lemma sample_started:
  "\<exists>r. start_gateway sample_machine = Serving r \<and> ru_deps r = build_deps sample_machine sample_settings
     \<and> ss_registry (ru_state r) = build_registry (gc_servers sample_settings)
     \<and> ss_catalog (ru_state r) = initial_catalog sample_machine sample_settings (build_registry (gc_servers sample_settings))
     \<and> ss_audit (ru_state r) = Some (open_store [] 1) \<and> ss_approvals (ru_state r) = None \<and> ss_ids (ru_state r) = new_factory
     \<and> ss_trace (ru_state r) = []"
proof -
  have "gateway_config_schema (ma_zod sample_machine) (JObject []) = Inr sample_settings"
    unfolding schema_accepts_iff
    by (simp add: sample_machine_def sample_settings_def sample_server_def is_valid_server_id_def sentinel_server_id_def
        js_def char_class_defs)
  then show ?thesis
    by (simp add: start_gateway_def load_raw_config_def start_with_def start_http_server_def Let_def)
      (simp add: sample_machine_def sample_settings_def)
qed

text \<open>The heuristics find nothing in the sample call, so its risk lets it through.\<close>

lemma sample_no_flags: "heuristic_flags (JObject sample_params) = Inr []"
proof -
  have "value_flags (js ''files__read'') = []" by code_simp
  moreover have "json_quote s = 34 # s @ [34]" if "s = js ''files__read'' \<or> s = js ''name''" for s
    using that plain_quote [of s] by (auto simp: json_quote_def printable_def js_def)
  then have "stringify (JObject sample_params) = Inr (Some (123 # 34 # js ''name'' @ [34, 58, 34] @ js ''files__read'' @ [34, 125]))"
    by (simp add: sample_params_def bracketed_def)
  ultimately show ?thesis
    by (simp add: heuristic_flags_def truthy_def js_values_def size_flags_def) (simp add: sample_params_def js_def)
qed

definition sample_quiet :: risk_assessment where
  "sample_quiet = \<lparr>ra_score = 0, ra_band = RLow, ra_rationale = js ''No heuristic flags'', ra_signals = [],
     ra_provider = js ''heuristic'', ra_model = js ''static-v1'', ra_cached = False, ra_latencyMs = num_of_int 0\<rparr>"

lemma sample_finite: "case Some sample_quiet of None \<Rightarrow> True | Some x \<Rightarrow> finite_num (ra_latencyMs x)"
  by (simp add: sample_quiet_def num_of_int_def finite_num_def split: prod.split)

lemma sample_startup_risk:
  assumes "pq_method pq = js_prompts_get" "pq_params pq = sample_params" "pq_decision pq = None"
  shows "assess_call (build_deps sample_machine sample_settings) (sample_env fault) pq = Inr (Some sample_quiet, Allow)"
proof -
  have "payload_of pq = JObject sample_params"
    using assms by (simp add: payload_of_def js_prompts_get_def js_tools_call_def)
  then show ?thesis
    using assms(3) sample_no_flags
    by (simp add: assess_call_def build_deps_def build_risk_engine_def evaluate_risk_def heuristic_risk_score_def
        risk_threshold_def escalate_obligation_def sample_settings_def default_risk_def sample_env_def Let_def
        sample_quiet_def band_of_def)
qed

section \<open>Properties\<close>

text \<open>
  C15: A gateway that starts is in a state the invariants begin with. On fresh databases it is a start of the
  interleaving model; its catalog is one that refreshes of the configured servers reach, whatever order they
  answered in; and every catalogued tool is one of a configured server that is enabled and not quarantined,
  under a name outside the gateway's own namespace.
\<close>

theorem startup_establishes_invariants:
  assumes "start_gateway m = Serving r" and "\<And>ts. mset (ma_arrivals m ts) = mset ts"
    and "ss_audit (ru_state r) = Some (open_store [] 1)" and "ss_approvals (ru_state r) \<in> {None, Some []}"
  shows "starts \<lparr>lv_state = ru_state r, lv_waiting = []\<rparr>
    \<and> (\<exists>scanner. catalog_reachable (de_sha (ru_deps r)) (gc_catalog (de_config (ru_deps r))) scanner
         (gc_servers (de_config (ru_deps r))) (ss_catalog (ru_state r)))
    \<and> list_all (\<lambda>(q, e). \<not> is_sentinel_tool_name q
         \<and> list_ex (\<lambda>sv. us_id sv = ct_serverId e \<and> us_enabled sv \<and> us_trust sv \<noteq> Quarantined)
             (gc_servers (de_config (ru_deps r)))) (cat_index (ss_catalog (ru_state r)))"
proof (rule startedE [OF assms(1)])
  fix raw config
  assume c: "gateway_config_schema (ma_zod m) (JObject raw) = Inr config" "ru_deps r = build_deps m config"
    "ss_catalog (ru_state r) = initial_catalog m config (build_registry (gc_servers config))" "ss_trace (ru_state r) = []"
  from c(1) have ids: "distinct (map us_id (gc_servers config))" "list_all (\<lambda>s. us_id s \<noteq> sentinel_server_id) (gc_servers config)"
    unfolding schema_accepts_iff by (auto simp: list_all_iff)
  note reach = initial_catalog_reachable [OF ids(1) assms(2)]
  have "\<not> is_sentinel_tool_name q \<and> (\<exists>sv \<in> set (gc_servers config). us_id sv = ct_serverId e
      \<and> us_enabled sv \<and> us_trust sv \<noteq> Quarantined)" if mem: "(q, e) \<in> set (cat_index (ss_catalog (ru_state r)))" for q e
    using initial_catalog_entry [OF ids assms(2)] mem c(3) by simp
  moreover have "starts \<lparr>lv_state = ru_state r, lv_waiting = []\<rparr>"
    using reachable_coherent [OF reach] assms(3,4) c(3,4) by (simp add: starts_def)
  ultimately show ?thesis
    using reach c by (auto simp: build_deps_def list_all_iff list_ex_iff)
qed

theorem startup_establishes_invariants_witness:
  "\<exists>r. start_gateway sample_machine = Serving r \<and> starts \<lparr>lv_state = ru_state r, lv_waiting = []\<rparr>
    \<and> (\<exists>scanner. catalog_reachable (de_sha (ru_deps r)) (gc_catalog (de_config (ru_deps r))) scanner
         (gc_servers (de_config (ru_deps r))) (ss_catalog (ru_state r)))"
proof -
  obtain r where r: "start_gateway sample_machine = Serving r" "ss_audit (ru_state r) = Some (open_store [] 1)"
      "ss_approvals (ru_state r) \<in> {None, Some []}"
    using sample_started by auto
  have "mset (ma_arrivals sample_machine ts) = mset ts" for ts by (simp add: sample_machine_def)
  from startup_establishes_invariants [OF r(1) this r(2,3)] r(1) show ?thesis by blast
qed

text \<open>
  C16: In the gateway as \<open>main.ts\<close> builds it the risk engine is the only gate. It has no policy engine: in
  every run from fresh databases, restarts included, every call that reaches an upstream does so straight after a record that says the policy was bypassed and that
  holds a risk score below the configured threshold, unless the configuration escalates to nothing.
\<close>

theorem risk_engine_is_the_only_gate:
  assumes "start_gateway m = Serving r" and "live_reachable (ru_deps r) \<lparr>lv_state = ru_state r, lv_waiting = []\<rparr> s"
    and "ss_trace (lv_state s) = before @ Forwarded t # rest"
  shows "\<exists>earlier rec risk. before = earlier @ [Recorded rec] \<and> dr_policy rec = bypassed_policy
    \<and> dr_method rec = ft_method t \<and> dr_qualifiedName rec = Some (ft_qualifiedName t) \<and> dr_risk rec = Some risk
    \<and> (ra_score risk < rs_escalationThreshold (gc_risk (de_config (ru_deps r)))
       \<or> rs_escalateObligation (gc_risk (de_config (ru_deps r))) = Allow)"
proof (rule startedE [OF assms(1)])
  fix raw config assume c: "ru_deps r = build_deps m config" "ss_audit (ru_state r) \<noteq> None"
  have "justified (ru_deps r) (ss_trace (lv_state s))"
    using live_reachable_inv [OF assms(2)] live_reachable_audit [OF assms(2)] c(2)
    by (auto simp: live_inv_def log_ok_def split: option.splits)
  with assms(3) obtain earlier rec where e: "before = earlier @ [Recorded rec]" "grants (ru_deps r) rec t"
    unfolding justified_def by blast
  from e(2) obtain risk where g: "dr_policy rec = bypassed_policy" "dr_method rec = ft_method t"
      "dr_qualifiedName rec = Some (ft_qualifiedName t)" "dr_risk rec = Some risk"
      "escalate_obligation (fst (build_risk_engine m (gc_risk config))) (pd_obligation bypassed_policy) risk = Allow"
    by (auto simp: grants_def permits_def c(1) build_deps_def split: prod.splits)
  from g(5) have "ra_score risk < rs_escalationThreshold (gc_risk config) \<or> rs_escalateObligation (gc_risk config) = Allow"
    by (cases "rs_escalateObligation (gc_risk config)")
      (auto simp: escalate_obligation_def risk_threshold_def escalation_target_def build_risk_engine_def
        bypassed_policy_def obligation_rank_def split: if_splits)
  with e(1) g show ?thesis by (auto simp: c(1) build_deps_def)
qed

theorem risk_engine_is_the_only_gate_witness:
  "\<exists>r s rec risk t. start_gateway sample_machine = Serving r
    \<and> live_reachable (ru_deps r) \<lparr>lv_state = ru_state r, lv_waiting = []\<rparr> s
    \<and> ss_trace (lv_state s) = [Recorded rec, Forwarded t] \<and> dr_policy rec = bypassed_policy
    \<and> dr_risk rec = Some risk \<and> ra_score risk < 80"
proof -
  obtain r where r: "start_gateway sample_machine = Serving r" "ru_deps r = build_deps sample_machine sample_settings"
      "ss_registry (ru_state r) = build_registry (gc_servers sample_settings)"
      "ss_catalog (ru_state r) = initial_catalog sample_machine sample_settings (build_registry (gc_servers sample_settings))"
      "ss_audit (ru_state r) = Some (open_store [] 1)" "ss_approvals (ru_state r) = None"
      "ss_ids (ru_state r) = new_factory" "ss_trace (ru_state r) = []"
    using sample_started by blast
  have cat: "catalog_reachable (take 2) default_catalog
      (Some (\<lambda>tool. Inr (scan_tool (build_guard sample_machine) (ma_scan_time sample_machine) tool)))
      [sample_server Trusted] (ss_catalog (ru_state r))"
    using initial_catalog_reachable [of sample_settings sample_machine]
    by (simp add: r(4)) (simp add: sample_settings_def sample_machine_def)
  have like: "sample_like (ru_deps r) (ru_state r)"
    using cat r by (auto simp: sample_like_def build_deps_def) (simp_all add: sample_machine_def sample_settings_def)
  have st: "starts \<lparr>lv_state = ru_state r, lv_waiting = []\<rparr>"
    using reachable_coherent [OF cat] r by (simp add: starts_def)
  have "\<exists>s rec t. live_reachable (ru_deps r) \<lparr>lv_state = ru_state r, lv_waiting = []\<rparr> s
      \<and> ss_audit (lv_state s) \<noteq> None \<and> ss_trace (lv_state s) = [Recorded rec] @ Forwarded t # []"
    by (rule like_run [OF like st _ sample_finite]) (unfold r(2), rule sample_startup_risk)
  then obtain s rec t where run: "live_reachable (ru_deps r) \<lparr>lv_state = ru_state r, lv_waiting = []\<rparr> s"
      "ss_trace (lv_state s) = [Recorded rec] @ Forwarded t # []"
    by blast
  from risk_engine_is_the_only_gate [OF r(1) run] r(1,2) run show ?thesis
    by (auto simp: build_deps_def sample_settings_def default_risk_def)
qed

text \<open>
  A secret whose variable is not set opens the approval links: the gateway starts with approvals enabled, and
  a token that anyone makes with the empty key passes for a link it sent.
\<close>

theorem unset_secret_opens_links:
  assumes "start_gateway m = Serving r" and "gc_approval (de_config (ru_deps r)) = Some a"
    and "as_hmacSecret a = js ''env:'' @ name" and "ma_env m name = None" and "58 \<notin> set i" and "now \<le> e"
  shows "\<exists>sg. de_signer (ru_deps r) = Some sg
    \<and> verify (ma_hmac m) sg now (token_payload i act e @ 58 # to_hex (ma_hmac m [] (utf8 (token_payload i act e))))
        = Inr (i, act)"
proof (rule startedE [OF assms(1)])
  fix raw config assume c: "ru_deps r = build_deps m config"
  let ?sg = "build_signer m a"
  have "of_hex [] = []" by simp
  then have "secret ?sg = []"
    using assms(3,4) by (simp add: build_signer_def env_or_literal_def new_signer_def or_blank_def starts_with_def js_def)
  moreover have "de_signer (ru_deps r) = Some ?sg" using assms(2) by (simp add: c build_deps_def)
  ultimately show ?thesis using assms(5,6) by (auto simp: verify_Inr_iff split_token)
qed

text \<open>How many closings have settled since the first signal, and what follows from that number.\<close>

definition settled_count :: "shutdown_event list \<Rightarrow> nat" where
  "settled_count evs = length (filter (\<lambda>e. e \<noteq> Signal) (dropWhile (\<lambda>e. e \<noteq> Signal) evs))"

definition closing_order :: "closing list" where
  "closing_order = [McpHandler, HttpServer, Registry, AuditDb]"

lemma settled_count_unsignalled: "Signal \<notin> set evs \<Longrightarrow> settled_count evs = 0"
proof -
  assume "Signal \<notin> set evs"
  then have "dropWhile (\<lambda>e. e \<noteq> Signal) evs = []" by (auto simp: dropWhile_eq_Nil_conv)
  then show ?thesis unfolding settled_count_def by (simp only: filter.simps list.size)
qed

lemma settled_count_snoc:
  "settled_count (evs @ [x]) = (if Signal \<in> set evs \<and> x \<noteq> Signal then Suc (settled_count evs) else settled_count evs)"
proof (cases "Signal \<in> set evs")
  case True
  then have "dropWhile (\<lambda>e. e \<noteq> Signal) (evs @ [x]) = dropWhile (\<lambda>e. e \<noteq> Signal) evs @ [x]"
    by (auto intro: dropWhile_append1)
  with True show ?thesis by (simp add: settled_count_def)
next
  case False
  then have "dropWhile (\<lambda>e. e \<noteq> Signal) (evs @ [x]) = dropWhile (\<lambda>e. e \<noteq> Signal) [x]"
    by (intro dropWhile_append2) auto
  with settled_count_unsignalled [OF False] False show ?thesis by (simp add: settled_count_def)
qed

definition closed_after :: "nat \<Rightarrow> shutdown \<Rightarrow> bool" where
  "closed_after n s \<longleftrightarrow> sd_inProgress s \<and> (sd_exited s \<longleftrightarrow> 3 \<le> n)
     \<and> sd_awaiting s = (if 3 \<le> n then None else Some (closing_order ! n))
     \<and> sd_closed s = (if 3 \<le> n then closing_order else take (Suc n) closing_order)"

lemma closed_after_settled:
  assumes "closed_after n s" shows "closed_after (Suc n) (shutdown_on f (Settled b) s)"
proof -
  consider "n = 0" | "n = 1" | "n = 2" | "3 \<le> n" by linarith
  then show ?thesis
    using assms by cases (auto simp: closed_after_def closing_order_def close_next_def warn_if_def Let_def numeral_2_eq_2)
qed

lemma shutdown_state:
  "if Signal \<in> set evs then closed_after (settled_count evs) (fold (shutdown_on f) evs serving)
   else fold (shutdown_on f) evs serving = serving"
proof (induction evs rule: rev_induct)
  case (snoc x evs)
  show ?case
  proof (cases "Signal \<in> set evs")
    case True
    with snoc have ca: "closed_after (settled_count evs) (fold (shutdown_on f) evs serving)" by simp
    show ?thesis
    proof (cases x)
      case Signal
      with True ca show ?thesis by (simp add: settled_count_snoc closed_after_def)
    next
      case (Settled b)
      with True closed_after_settled [OF ca, of f b] show ?thesis by (simp add: settled_count_snoc del: shutdown_on.simps)
    qed
  next
    case False
    with snoc show ?thesis
      by (cases x) (auto simp: settled_count_snoc settled_count_unsignalled serving_def closed_after_def close_next_def closing_order_def)
  qed
qed simp

text \<open>
  C18: A shutdown closes every component once. However often it is signalled and whatever fails, the MCP
  handler, the HTTP server, the registry and the audit store are closed once each and in this order, each as
  soon as the closing before it has settled, and the process ends when the first three have settled.
\<close>

theorem shutdown_closes_everything_once:
  "let s = fold (shutdown_on auditFails) evs serving in
     sd_closed s = (if Signal \<notin> set evs then []
       else if 3 \<le> settled_count evs then [McpHandler, HttpServer, Registry, AuditDb]
       else take (Suc (settled_count evs)) [McpHandler, HttpServer, Registry])
   \<and> (sd_exited s \<longleftrightarrow> Signal \<in> set evs \<and> 3 \<le> settled_count evs)"
proof -
  have "take (Suc n) closing_order = take (Suc n) [McpHandler, HttpServer, Registry]" if "\<not> 3 \<le> n" for n
  proof -
    from that consider "n = 0" | "n = 1" | "n = 2" by linarith
    then show ?thesis by cases (simp_all add: closing_order_def)
  qed
  with shutdown_state [of evs auditFails] show ?thesis
    by (auto simp: closed_after_def Let_def serving_def closing_order_def split: if_splits)
qed

end
