(* ===== verification/WarmUp.thy ===== *)
theory WarmUp
  imports Startup
begin

text \<open>
  Warm-up, \<open>warmUp\<close> of \<open>upstream/client.ts\<close> and \<open>upstream/registry.ts\<close>: every server that may be dialled is
  dialled once when the process starts. \<open>main\<close> does not wait for it; what else calls into a client meanwhile is
  the matter of \<open>Upstream\<close>, here each client is left to itself.
\<close>

section \<open>One client\<close>

text \<open>How the dial ends: no transport, which fails at once, no handshake, or a connection, each later at a time.\<close>

datatype dial_end = TransportFails failure rat | HandshakeFails failure int rat | Connects handshake int

definition settle_dial :: "pool_settings \<Rightarrow> int \<Rightarrow> dial_end \<Rightarrow> upstream_client \<Rightarrow> upstream_client" where
  "settle_dial pool now d c = (case d of
      TransportFails f random \<Rightarrow> record_connect_failure pool (uc_generation c) (describe_failure f) now random c
    | HandshakeFails f t random \<Rightarrow> record_connect_failure pool (uc_generation c) (describe_failure f) t random c
    | Connects h t \<Rightarrow> snd (adopt_connection (uc_generation c) h t c))"

text \<open>
  \<open>warmUp\<close> of a client: a refusal and a failed dial are absorbed, a connection that is there is used. A dial in
  flight is someone else's, whose end is not this one's.
\<close>

definition client_warm_up ::
    "pool_settings \<Rightarrow> int \<Rightarrow> dial_end \<Rightarrow> upstream_client \<Rightarrow> upstream_client \<times> upstream_snapshot" where
  "client_warm_up pool now d c =
     (if \<not> client_dialable c then (c, client_snapshot c)
      else let c' = (case ensure_ready pool now c of
               StartDial \<Rightarrow> settle_dial pool now d (begin_dial c)
             | Existing _ \<Rightarrow> c
             | Join _ \<Rightarrow> c
             | Refused _ \<Rightarrow> c)
           in (c', client_snapshot c'))"

section \<open>The registry\<close>

text \<open>
  \<open>Promise.allSettled\<close> over the clients that may be dialled, then the snapshots of all. \<open>dials\<close> gives for each
  server the time of its attempt and the end of it.
\<close>

definition registry_warm_up ::
    "pool_settings \<Rightarrow> (jstring \<Rightarrow> int \<times> dial_end) \<Rightarrow> upstream_registry \<Rightarrow> upstream_registry \<times> upstream_snapshot list" where
  "registry_warm_up pool dials r =
     (if registry_dialable r = [] then (r, registry_snapshots r)
      else let r' = r\<lparr>rg_clients := map (\<lambda>(i, c). (i, if client_dialable c
                 then fst (client_warm_up pool (fst (dials i)) (snd (dials i)) c) else c)) (rg_clients r)\<rparr>
           in (r', registry_snapshots r'))"

section \<open>Lemmas\<close>

text \<open>The warm-up of a client is a run of the connection, so its invariants hold afterwards.\<close>

lemma warm_up_is_run:
  assumes "uc_inFlight (cs_client s) = None" and "\<And>h t. d = Connects h t \<Longrightarrow> valid_clock t"
  shows "\<exists>es s'. upstream_run pool es s = Some s' \<and> cs_client s' = fst (client_warm_up pool now d (cs_client s))"
proof (cases "client_dialable (cs_client s) \<and> ensure_ready pool now (cs_client s) = StartDial")
  case True
  let ?g = "uc_generation (begin_dial (cs_client s))"
  have w: "fst (client_warm_up pool now d (cs_client s)) = settle_dial pool now d (begin_dial (cs_client s))"
    using True by (simp add: client_warm_up_def Let_def)
  show ?thesis
  proof (cases d)
    case (TransportFails f r)
    show ?thesis unfolding w
      by (rule exI [of _ "[EnsureReady now (Some f) r, DialSettled ?g]"]) (use True assms(1) in \<open>simp add:
        TransportFails settle_dial_def request_connection_def client_op_defs Let_def\<close>)
  next
    case (HandshakeFails f t r)
    show ?thesis unfolding w
      by (rule exI [of _ "[EnsureReady now None r, HandshakeFailed ?g f t r, DialSettled ?g]"]) (use True assms(1) in \<open>simp add:
        HandshakeFails settle_dial_def request_connection_def client_op_defs Let_def\<close>)
  next
    case (Connects h t)
    show ?thesis unfolding w
      by (rule exI [of _ "[EnsureReady now None 0, HandshakeDone ?g h t, DialSettled ?g]"]) (use True assms in \<open>simp add:
        Connects settle_dial_def request_connection_def begin_dial_def adopt_connection_def Let_def split: sum.split\<close>)
  qed
next
  case False
  then have "fst (client_warm_up pool now d (cs_client s)) = cs_client s"
    by (auto simp: client_warm_up_def Let_def split: readiness.splits)
  then show ?thesis by (intro exI [of _ "[]"]) simp
qed

lemma fresh_warm_up:
  assumes "0 \<le> now" and "\<And>h t. d = Connects h t \<Longrightarrow> valid_clock t"
  shows "uc_health (fst (client_warm_up pool now d (new_upstream_client sv))) =
      (if \<not> client_dialable (new_upstream_client sv) then uc_health (new_upstream_client sv)
       else case d of Connects _ _ \<Rightarrow> Ready | _ \<Rightarrow> Unavailable)"
proof (cases "client_dialable (new_upstream_client sv)")
  case True
  have start: "ensure_ready pool now (new_upstream_client sv) = StartDial"
    unfolding start_dial_iff using True assms(1) by (simp add: new_upstream_client_def)
  show ?thesis
  proof (cases d)
    case (Connects h t)
    with assms(2) obtain i where "iso_timestamp t = Inr i" using iso_valid by blast
    then show ?thesis
      using True start Connects by (simp add: client_warm_up_def Let_def settle_dial_def adopt_connection_def
          begin_dial_def client_dialable_def)
  qed (use True start in \<open>simp_all add: client_warm_up_def Let_def settle_dial_def record_connect_failure_def\<close>)
qed (simp add: client_warm_up_def)

section \<open>What a warm-up reports\<close>

text \<open>
  The snapshots of a warm-up list every server of the configuration, in its order: those that may be dialled as
  ready when their dial connected and as unavailable when it did not, the others as quarantined or disabled,
  never dialled. One server that is down changes nothing for another.
\<close>

theorem warm_up_reports:
  assumes "distinct (map us_id servers)"
    and "\<And>i. 0 \<le> fst (dials i)" and "\<And>i h t. snd (dials i) = Connects h t \<Longrightarrow> valid_clock t"
  shows "map (\<lambda>n. (sn_serverId n, sn_health n)) (snd (registry_warm_up pool dials (build_registry servers))) =
    map (\<lambda>sv. (us_id sv, if us_trust sv = Quarantined then QuarantinedHealth
       else if \<not> us_enabled sv then DisabledHealth
       else case snd (dials (us_id sv)) of Connects _ _ \<Rightarrow> Ready | _ \<Rightarrow> Unavailable)) servers"
proof -
  have clients: "rg_clients (build_registry servers) = map (\<lambda>sv. (us_id sv, new_upstream_client sv)) servers"
    using put_all_new [of servers "[]"] assms(1) by (simp add: build_registry_def)
  have same: "uc_server (fst (client_warm_up pool now d c)) = uc_server c" for now d c
    by (auto simp: client_warm_up_def Let_def settle_dial_def record_connect_failure_def adopt_connection_def
        begin_dial_def clear_negotiated_def split: readiness.splits dial_end.splits sum.splits)
  have health: "uc_health (if client_dialable (new_upstream_client sv)
        then fst (client_warm_up pool (fst (dials i)) (snd (dials i)) (new_upstream_client sv)) else new_upstream_client sv) =
      (if us_trust sv = Quarantined then QuarantinedHealth else if \<not> us_enabled sv then DisabledHealth
       else case snd (dials i) of Connects _ _ \<Rightarrow> Ready | _ \<Rightarrow> Unavailable)" for sv i
    using fresh_warm_up [of "fst (dials i)" "snd (dials i)" pool sv] assms(2,3) by (auto simp: client_dialable_def new_upstream_client_def)
  have idle: "registry_dialable (build_registry servers) = [] \<Longrightarrow> sv \<in> set servers \<Longrightarrow>
      \<not> client_dialable (new_upstream_client sv)" for sv
    using registry_clients [OF assms(1)] by (auto simp: registry_dialable_def filter_empty_conv)
  show ?thesis
  proof (cases "registry_dialable (build_registry servers) = []")
    case True
    then show ?thesis
      using idle [OF True] by (auto simp: registry_warm_up_def registry_snapshots_def registry_all_def clients
          client_snapshot_def client_dialable_def new_upstream_client_def)
  next
    case False
    have "uc_server (new_upstream_client sv) = sv" for sv by (simp add: new_upstream_client_def)
    then have "uc_server (if b then fst (client_warm_up pool now d (new_upstream_client sv)) else new_upstream_client sv) = sv"
      for b now d sv by (simp add: same)
    with False show ?thesis
      by (simp add: registry_warm_up_def Let_def registry_snapshots_def registry_all_def clients client_snapshot_def health)
  qed
qed

end
