(* ===== verification/PolicyLint.thy ===== *)
theory PolicyLint
  imports PolicyLoader
begin

text \<open>
  The bundle linter of \<open>scripts/policy-lint.mjs\<close>: the checks of the loader, made over the whole bundle with
  every problem collected, then strict validation and a report. Cedar and the file system are parameters, as
  in \<open>PolicyLoader\<close>; the two are shown to accept the same bundles, up to templates and validation.
\<close>

section \<open>Cedar as the linter calls it\<close>

text \<open>The lists of a successful validation.\<close>

record validation =
  va_validationErrors :: "jvalue list"
  va_validationWarnings :: "jvalue list"
  va_otherWarnings :: "jvalue list"

text \<open>
  \<open>checkParseSchema\<close> answers the value of its \<open>errors\<close> field or nothing, \<open>policySetTextToParts\<close> the policies and the
  number of templates, \<open>validate\<close> is called in strict mode with the schema and the policies.
\<close>

record cedar_linter =
  cl_version :: jstring
  cl_checkParseSchema :: "jstring \<Rightarrow> jvalue option"
  cl_policySetTextToParts :: "jstring \<Rightarrow> jvalue + jstring list \<times> nat"
  cl_policyToJson :: "jstring \<Rightarrow> jvalue + policy_json"
  cl_validate :: "jstring \<Rightarrow> jstring props \<Rightarrow> jvalue + validation"

section \<open>Problems\<close>

record problem =
  pr_where :: jstring
  pr_message :: jstring
  pr_detail :: "jstring option"

record lint_row =
  ro_file :: jstring
  ro_id :: jstring
  ro_effect :: jstring
  ro_obligation :: jstring

record lint_state =
  li_problems :: "problem list"
  li_bundle :: "jstring props"
  li_origin :: "jstring props"
  li_rows :: "lint_row list"

definition fail_at :: "jstring \<Rightarrow> jstring \<Rightarrow> jstring option \<Rightarrow> lint_state \<Rightarrow> lint_state" where
  "fail_at place message d st =
     st\<lparr>li_problems := li_problems st @ [\<lparr>pr_where = place, pr_message = message, pr_detail = d\<rparr>]\<rparr>"

text \<open>A value inside a template literal, and as an element that \<open>join\<close> joins; \<open>v ?? w\<close>.\<close>

definition in_template :: "jvalue \<Rightarrow> exn + jstring" where
  "in_template v = (if v = JSymbol then Inl TypeError else js_string v)"

definition absent :: "jvalue \<Rightarrow> bool" where
  "absent v = (v = JNull \<or> v = JUndefined)"

definition format_locations :: "jvalue \<Rightarrow> exn + jstring list" where
  "format_locations locations = (case locations of
      JNull \<Rightarrow> Inr []
    | JUndefined \<Rightarrow> Inr []
    | JString _ \<Rightarrow> Inr []
    | JArray ls \<Rightarrow> map_r (\<lambda>v. bind_r (in_template v) (\<lambda>t. Inr (js ''at: '' @ t)))
        (filter truthy (map (\<lambda>l. js_opt_get l (js ''label'')) ls))
    | _ \<Rightarrow> Inl TypeError)"

definition format_cedar_error :: "jvalue \<Rightarrow> exn + jstring" where
  "format_cedar_error e =
     bind_r (js_get e (js ''message'')) (\<lambda>m.
     bind_r (if absent m then js_string e else in_template m) (\<lambda>first.
     bind_r (js_get e (js ''help'')) (\<lambda>h.
     bind_r (if truthy h then bind_r (in_template h) (\<lambda>t. Inr [js ''help: '' @ t]) else Inr []) (\<lambda>help.
     bind_r (js_get e (js ''sourceLocations'')) (\<lambda>l.
     bind_r (format_locations l) (\<lambda>ats.
       Inr (join_with (10 # js ''      '') (first # help @ ats))))))))"

definition format_cedar_errors :: "jvalue \<Rightarrow> exn + jstring" where
  "format_cedar_errors errors = (case errors of
      JArray (e # es) \<Rightarrow>
        bind_r (map_r format_cedar_error (e # es)) (\<lambda>ps. Inr (join_with (10 # js ''    - '') ps))
    | _ \<Rightarrow> Inr (js ''(no detail)''))"

definition fail_with :: "jstring \<Rightarrow> jstring \<Rightarrow> jvalue \<Rightarrow> lint_state \<Rightarrow> exn + lint_state" where
  "fail_with place message errors st =
     bind_r (format_cedar_errors errors) (\<lambda>d. Inr (fail_at place message (Some d) st))"

section \<open>The rules for one policy\<close>

definition lint_id ::
    "jstring \<Rightarrow> nat \<Rightarrow> jstring \<Rightarrow> jstring option option \<Rightarrow> lint_state \<Rightarrow> exn + lint_state" where
  "lint_id file index source pid st =
     (let missing = fail_at file (js ''policy #'' @ dec index @ js '' has no @id annotation'')
             (Some (hd (split_on 10 source))) st
      in case pid of
        None \<Rightarrow> Inr missing
      | Some None \<Rightarrow> Inl TypeError
      | Some (Some i) \<Rightarrow>
          if i = [] then Inr missing
          else (case get_prop (li_origin st) i of
              Some first \<Rightarrow> Inr (fail_at file
                (js ''duplicate @id('' @ quoted i @ js ''), already declared in '' @ first) None st)
            | None \<Rightarrow> Inr (st\<lparr>li_origin := put_prop i file (li_origin st),
                        li_bundle := js_assign i source (li_bundle st)\<rparr>)))"

definition lint_obligation ::
    "jstring \<Rightarrow> jstring \<Rightarrow> jstring \<Rightarrow> jstring option option \<Rightarrow> lint_state \<Rightarrow> lint_state" where
  "lint_obligation file label effect obligation st =
     (if effect = js ''permit''
      then (case obligation of
          None \<Rightarrow> fail_at file (js ''permit '' @ quoted label @ js '' has no @sentinel_obligation'') None st
        | Some w \<Rightarrow> if Option.bind w obligation_of_text = None
            then fail_at file (js ''permit '' @ quoted label @ js '' has @sentinel_obligation(''
                   @ quoted (annotation_text w) @ js ''), expected one of allow, review, approve'') None st
            else st)
      else (case obligation of
          None \<Rightarrow> st
        | Some w \<Rightarrow> fail_at file (js ''forbid '' @ quoted label @ js '' carries @sentinel_obligation(''
            @ quoted (annotation_text w) @ js ''); forbids take no obligation'') None st))"

text \<open>\<open>null\<close> has no length: an \<open>@id\<close> or a \<open>@sentinel_reason\<close> without a value ends the script.\<close>

definition lint_reason :: "jstring \<Rightarrow> jstring \<Rightarrow> jstring option option \<Rightarrow> lint_state \<Rightarrow> exn + lint_state" where
  "lint_reason file label reason st =
     (let missing = fail_at file (js ''policy '' @ quoted label @ js '' has no @sentinel_reason'') None st
      in case reason of
        None \<Rightarrow> Inr missing
      | Some None \<Rightarrow> Inl TypeError
      | Some (Some r) \<Rightarrow> if r = [] then Inr missing else Inr st)"

definition lint_policy ::
    "cedar_linter \<Rightarrow> jstring \<Rightarrow> nat \<Rightarrow> jstring \<Rightarrow> lint_state \<Rightarrow> exn + lint_state" where
  "lint_policy cedar file index source st =
    (case cl_policyToJson cedar source of
      Inl errors \<Rightarrow> fail_with file (js ''policy #'' @ dec index @ js '' does not convert to JSON'') errors st
    | Inr json \<Rightarrow>
       let ann = (case pj_annotations json of None \<Rightarrow> [] | Some a \<Rightarrow> a);
           effect = pj_effect json;
           pid = get_prop ann (js ''id'');
           label = (case written pid of None \<Rightarrow> file @ [35] @ dec index | Some i \<Rightarrow> i);
           obligation = get_prop ann (js ''sentinel_obligation'')
       in bind_r (lint_id file index source pid st) (\<lambda>st.
          bind_r (lint_reason file label (get_prop ann (js ''sentinel_reason''))
            (lint_obligation file label effect obligation st)) (\<lambda>st.
          Inr (st\<lparr>li_rows := li_rows st @ [\<lparr>ro_file = file, ro_id = label, ro_effect = effect,
            ro_obligation = (case written obligation of None \<Rightarrow> [0x2014] | Some w \<Rightarrow> w)\<rparr>]\<rparr>))))"

section \<open>Files\<close>

fun lint_policies ::
    "cedar_linter \<Rightarrow> jstring \<Rightarrow> nat \<Rightarrow> jstring list \<Rightarrow> lint_state \<Rightarrow> exn + lint_state" where
  "lint_policies cedar file index [] st = Inr st"
| "lint_policies cedar file index (source # r) st =
     bind_r (lint_policy cedar file index source st) (lint_policies cedar file (Suc index) r)"

definition lint_file ::
    "cedar_linter \<Rightarrow> (jstring \<Rightarrow> exn + jstring) \<Rightarrow> jstring \<Rightarrow> lint_state \<Rightarrow> exn + lint_state" where
  "lint_file cedar read file st =
     bind_r (read file) (\<lambda>text. case cl_policySetTextToParts cedar text of
        Inl errors \<Rightarrow> fail_with file (js ''file does not parse as a Cedar policy set'') errors st
      | Inr (policies, templates) \<Rightarrow> lint_policies cedar file 0 policies
          (if templates > 0
           then fail_at file (js ''contains '' @ dec templates
             @ js '' policy template(s); templates are not supported'') None st
           else st))"

fun lint_files ::
    "cedar_linter \<Rightarrow> (jstring \<Rightarrow> exn + jstring) \<Rightarrow> jstring list \<Rightarrow> lint_state \<Rightarrow> exn + lint_state" where
  "lint_files cedar read [] st = Inr st"
| "lint_files cedar read (f # fs) st = bind_r (lint_file cedar read f st) (lint_files cedar read fs)"

section \<open>Validation of the bundle\<close>

text \<open>One entry of a list of the validation: \<open>e.policyId ?? '?'\<close> in the message, \<open>e.error ?? e\<close> as its detail.\<close>

definition lint_validation_entry ::
    "jstring \<Rightarrow> jstring \<Rightarrow> jvalue \<Rightarrow> lint_state \<Rightarrow> exn + lint_state" where
  "lint_validation_entry what key e st =
     bind_r (js_get e (js ''policyId'')) (\<lambda>p.
     bind_r (if absent p then Inr [63] else in_template p) (\<lambda>policy.
     bind_r (js_get e key) (\<lambda>v.
       fail_with (js ''bundle'') (js ''validation '' @ what @ js '' in '' @ quoted policy)
         (JArray [if absent v then e else v]) st)))"

fun lint_each :: "('a \<Rightarrow> 's \<Rightarrow> exn + 's) \<Rightarrow> 'a list \<Rightarrow> 's \<Rightarrow> exn + 's" where
  "lint_each f [] st = Inr st"
| "lint_each f (x # xs) st = bind_r (f x st) (lint_each f xs)"

definition lint_combined :: "cedar_linter \<Rightarrow> jstring \<Rightarrow> lint_state \<Rightarrow> exn + lint_state" where
  "lint_combined cedar schemaText st =
     (if li_bundle st = [] then Inr st
      else (case cl_validate cedar schemaText (li_bundle st) of
          Inl errors \<Rightarrow> fail_with (js ''bundle'') (js ''validation call failed'') errors st
        | Inr v \<Rightarrow>
            bind_r (lint_each (lint_validation_entry (js ''error'') (js ''error'')) (va_validationErrors v) st) (\<lambda>st.
            bind_r (lint_each (lint_validation_entry (js ''warning'') (js ''warning'')) (va_validationWarnings v) st)
              (lint_each (\<lambda>w. fail_with (js ''bundle'') (js ''validation warning'') (JArray [w]))
                (va_otherWarnings v)))))"

text \<open>Everything between the reading of the directory and the report.\<close>

definition lint_bundle ::
    "cedar_linter \<Rightarrow> jstring \<Rightarrow> (jstring \<Rightarrow> exn + jstring) \<Rightarrow> jstring list \<Rightarrow> exn + lint_state" where
  "lint_bundle cedar schemaText read files =
    (let st = \<lparr>li_problems = [], li_bundle = [], li_origin = [], li_rows = []\<rparr>
     in bind_r (lint_files cedar read files
          (if length files = 0 then fail_at (js ''policies/'') (js ''no .cedar files found'') None st else st))
        (lint_combined cedar schemaText))"

section \<open>The report and the process\<close>

definition pad_end :: "nat \<Rightarrow> jstring \<Rightarrow> jstring" where
  "pad_end n s = s @ replicate (n - length s) 32"

fun row_lines :: "jstring \<Rightarrow> lint_row list \<Rightarrow> jstring" where
  "row_lines currentFile [] = []"
| "row_lines currentFile (row # rows) =
     (if ro_file row \<noteq> currentFile then js ''  '' @ ro_file row @ [10] else [])
     @ js ''    '' @ pad_end 7 (if ro_effect row = js ''forbid'' then js ''forbid'' else js ''permit'')
     @ [32] @ pad_end 8 (ro_obligation row) @ [32] @ ro_id row @ [10]
     @ row_lines (ro_file row) rows"

definition problem_lines :: "problem \<Rightarrow> jstring" where
  "problem_lines p = [10] @ js ''  ['' @ pr_where p @ js ''] '' @ pr_message p @ [10]
     @ (case pr_detail p of None \<Rightarrow> [] | Some d \<Rightarrow> if d = [] then [] else js ''    - '' @ d @ [10])"

text \<open>
  How the process ends: with an exit code and what it wrote to its two streams, or by an exception that
  nothing catches, with what it wrote to standard output before.
\<close>

datatype lint_outcome = Exits nat jstring jstring | Crashes jstring

definition lint_title :: "cedar_linter \<Rightarrow> jstring" where
  "lint_title cedar = js ''policy-lint  (cedar '' @ cl_version cedar @ js '')'' @ [10, 10]"

text \<open>The list \<open>notes\<close> of the source is never filled, so its lines are left out.\<close>

definition lint_report :: "cedar_linter \<Rightarrow> nat \<Rightarrow> lint_state \<Rightarrow> lint_outcome" where
  "lint_report cedar files st =
    (let permits = length (filter (\<lambda>row. ro_effect row = js ''permit'') (li_rows st));
         forbids = length (li_rows st) - permits;
         out = lint_title cedar @ row_lines [] (li_rows st)
           @ [10] @ js ''  '' @ dec (length (li_rows st)) @ js '' policies ('' @ dec permits @ js '' permit, ''
           @ dec forbids @ js '' forbid) in '' @ dec files @ js '' files'' @ [10]
     in if length (li_problems st) = 0
        then Exits 0 (out @ [10] @ js ''  OK '' @ [0x2014]
               @ js '' schema parses, annotations complete, bundle validates strictly.'' @ [10]) []
        else Exits 1 out ([10] @ js ''  '' @ dec (length (li_problems st)) @ js '' problem(s):'' @ [10]
               @ concat (map problem_lines (li_problems st)) @ [10]))"

text \<open>
  The script. When the schema does not parse it calls \<open>report\<close> above the declaration of \<open>rows\<close>, which the
  function reads after it has printed the title: the access throws.
\<close>

definition policy_lint ::
    "cedar_linter \<Rightarrow> exn + jstring \<Rightarrow> exn + jstring list \<Rightarrow> (jstring \<Rightarrow> exn + jstring) \<Rightarrow> lint_outcome" where
  "policy_lint cedar schema dir read = (case schema of
      Inl _ \<Rightarrow> Crashes []
    | Inr schemaText \<Rightarrow> (case cl_checkParseSchema cedar schemaText of
        Some errors \<Rightarrow> (case format_cedar_errors errors of
            Inl _ \<Rightarrow> Crashes []
          | Inr _ \<Rightarrow> Crashes (lint_title cedar))
      | None \<Rightarrow> (case dir of
          Inl _ \<Rightarrow> Crashes []
        | Inr names \<Rightarrow>
            let files = sort (filter (\<lambda>name. ends_with name (js ''.cedar'')) names)
            in case lint_bundle cedar schemaText read files of
              Inl _ \<Rightarrow> Crashes []
            | Inr st \<Rightarrow> lint_report cedar (length files) st)))"

section \<open>Lemmas\<close>

text \<open>A state the linter would report as free of problems, and the state of the loader it then stands for.\<close>

definition clean :: "lint_state \<Rightarrow> bool" where
  "clean st = (li_problems st = [])"

definition same_bundle :: "load_state \<Rightarrow> lint_state \<Rightarrow> bool" where
  "same_bundle ls st = (clean st \<and> li_bundle st = ls_staticPolicies ls \<and> li_origin st = ls_origin ls)"

lemma fail_at_facts [simp]:
  "\<not> clean (fail_at w m d st)"
  "li_bundle (fail_at w m d st) = li_bundle st" "li_origin (fail_at w m d st) = li_origin st"
  by (simp_all add: fail_at_def clean_def)

lemma fail_with_not_clean: "fail_with w m e st = Inr st' \<Longrightarrow> \<not> clean st'"
  by (auto simp: fail_with_def result_iffs)

lemma lint_reason_clean:
  "lint_reason file label reason st = Inr st' \<and> clean st' \<longleftrightarrow> clean st \<and> st' = st
     \<and> (\<exists>r. written reason = Some r \<and> r \<noteq> [])"
  by (auto simp: lint_reason_def written_def Let_def split: option.splits)

lemma lint_obligation_clean:
  "clean (lint_obligation file label effect ob st) \<longleftrightarrow> clean st \<and> check_obligation file label effect ob = Inr ()"
  "check_obligation file label effect ob = Inr () \<Longrightarrow> lint_obligation file label effect ob st = st"
  by (auto simp: lint_obligation_def check_obligation_def obligation_of_text_def written_def split: option.splits if_splits)

lemma lint_id_clean:
  "lint_id file n source pid st = Inr st' \<and> clean st' \<longleftrightarrow> clean st
     \<and> (\<exists>i. written pid = Some i \<and> i \<noteq> [] \<and> get_prop (li_origin st) i = None
          \<and> st' = st\<lparr>li_origin := put_prop i file (li_origin st), li_bundle := js_assign i source (li_bundle st)\<rparr>)"
  by (auto simp: lint_id_def written_def Let_def split: option.splits if_splits) (auto simp: clean_def)

lemma clean_rows [simp]:
  "clean (st\<lparr>li_rows := rs\<rparr>) = clean st"
  by (simp add: clean_def)

text \<open>One policy: no problem is taken back, and none is added exactly when the loader takes the policy.\<close>

definition takes :: "policy_json \<Rightarrow> jstring \<Rightarrow> jstring props \<Rightarrow> jstring \<Rightarrow> bool" where
  "takes json file origin i = (let ann = (case pj_annotations json of None \<Rightarrow> [] | Some a \<Rightarrow> a) in
     written (get_prop ann (js ''id'')) = Some i \<and> i \<noteq> [] \<and> get_prop origin i = None
     \<and> check_obligation file i (pj_effect json) (get_prop ann (js ''sentinel_obligation'')) = Inr ()
     \<and> written (get_prop ann (js ''sentinel_reason'')) \<notin> {None, Some []})"

lemma policy_clean:
  assumes "cl_policyToJson cedar source = Inr json"
  shows "(\<exists>st'. lint_policy cedar file n source st = Inr st' \<and> clean st' \<and> P (li_origin st') (li_bundle st')) \<longleftrightarrow>
    clean st \<and> (\<exists>i. takes json file (li_origin st) i
      \<and> P (put_prop i file (li_origin st)) (js_assign i source (li_bundle st)))"
proof -
  obtain ann where ann: "ann = (case pj_annotations json of None \<Rightarrow> [] | Some a \<Rightarrow> a)" by blast
  obtain label row where run: "lint_policy cedar file n source st = bind_r (lint_id file n source (get_prop ann (js ''id'')) st)
      (\<lambda>st. bind_r (lint_reason file label (get_prop ann (js ''sentinel_reason''))
        (lint_obligation file label (pj_effect json) (get_prop ann (js ''sentinel_obligation'')) st))
          (\<lambda>st. Inr (st\<lparr>li_rows := li_rows st @ [row]\<rparr>)))"
    and label: "\<And>i. written (get_prop ann (js ''id'')) = Some i \<Longrightarrow> label = i"
    by (simp add: lint_policy_def assms ann Let_def)
  let ?ob = "\<lambda>st. lint_obligation file label (pj_effect json) (get_prop ann (js ''sentinel_obligation'')) st"
  let ?ok = "check_obligation file label (pj_effect json) (get_prop ann (js ''sentinel_obligation'')) = Inr ()"
  have rest: "lint_reason file label (get_prop ann (js ''sentinel_reason'')) (?ob s) = Inr s' \<and> clean s' \<longleftrightarrow>
      clean s \<and> s' = s \<and> ?ok \<and> written (get_prop ann (js ''sentinel_reason'')) \<notin> {None, Some []}" for s s'
    unfolding lint_reason_clean lint_obligation_clean(1) using lint_obligation_clean(2) by fastforce
  have "(\<exists>st'. lint_policy cedar file n source st = Inr st' \<and> clean st' \<and> P (li_origin st') (li_bundle st')) \<longleftrightarrow>
    (\<exists>s s'. lint_id file n source (get_prop ann (js ''id'')) st = Inr s
      \<and> (lint_reason file label (get_prop ann (js ''sentinel_reason'')) (?ob s) = Inr s' \<and> clean s')
      \<and> P (li_origin s') (li_bundle s'))"
    unfolding run by (force simp: bind_r_Inr_iff)
  also have "\<dots> \<longleftrightarrow> (\<exists>s. (lint_id file n source (get_prop ann (js ''id'')) st = Inr s \<and> clean s) \<and> ?ok
      \<and> written (get_prop ann (js ''sentinel_reason'')) \<notin> {None, Some []} \<and> P (li_origin s) (li_bundle s))"
    unfolding rest by blast
  also have "\<dots> \<longleftrightarrow> clean st \<and> (\<exists>i. takes json file (li_origin st) i
      \<and> P (put_prop i file (li_origin st)) (js_assign i source (li_bundle st)))"
    unfolding lint_id_clean takes_def Let_def ann [symmetric] using label by auto
  finally show ?thesis .
qed

lemma policy_converts: "lint_policy cedar file n source st = Inr st' \<Longrightarrow> clean st' \<Longrightarrow>
    \<exists>json. cl_policyToJson cedar source = Inr json"
  by (auto simp: lint_policy_def dest: fail_with_not_clean split: sum.splits)

lemma policy_keeps: "lint_policy cedar file n source st = Inr st' \<Longrightarrow> clean st' \<Longrightarrow> clean st"
  using policy_converts policy_clean [where P = "\<lambda>_ _. True"] by meson

text \<open>The functions of Cedar the loader calls, from those of the linter.\<close>

definition parser_of :: "cedar_linter \<Rightarrow> (jstring \<Rightarrow> jvalue + jvalue) \<Rightarrow> cedar_parser" where
  "parser_of cedar schemaToJson = \<lparr>cp_schemaToJson = schemaToJson,
     cp_policySetTextToParts = (\<lambda>t. map_sum (\<lambda>e. e) fst (cl_policySetTextToParts cedar t)),
     cp_policyToJson = cl_policyToJson cedar\<rparr>"

lemma parser_of_simps [simp]:
  "cp_schemaToJson (parser_of cedar sj) = sj"
  "cp_policySetTextToParts (parser_of cedar sj) t = map_sum (\<lambda>e. e) fst (cl_policySetTextToParts cedar t)"
  "cp_policyToJson (parser_of cedar sj) = cl_policyToJson cedar"
  by (simp_all add: parser_of_def)

lemma load_policy_takes:
  assumes "cl_policyToJson cedar source = Inr json"
  shows "(\<exists>ls'. load_policy (parser_of cedar sj) file n source ls = Inr ls' \<and> P (ls_origin ls') (ls_staticPolicies ls')) \<longleftrightarrow>
    (\<exists>i. takes json file (ls_origin ls) i
      \<and> P (put_prop i file (ls_origin ls)) (js_assign i source (ls_staticPolicies ls)))"
  by (auto simp: load_policy_def takes_def assms Let_def result_iffs)

lemma policy_accepted:
  assumes "same_bundle ls st" "lint_policy cedar file n source st = Inr st'" "clean st'"
  shows "\<exists>ls'. load_policy (parser_of cedar sj) file n source ls = Inr ls' \<and> same_bundle ls' st'"
proof -
  obtain json where j: "cl_policyToJson cedar source = Inr json" using policy_converts [OF assms(2,3)] by blast
  from policy_clean [OF j, of _ n st "\<lambda>a b. a = li_origin st' \<and> b = li_bundle st'"] assms(2,3)
  obtain i where "takes json file (li_origin st) i" "put_prop i file (li_origin st) = li_origin st'"
    "js_assign i source (li_bundle st) = li_bundle st'" by blast
  with assms(1) have "\<exists>i. takes json file (ls_origin ls) i \<and> li_bundle st' = js_assign i source (ls_staticPolicies ls)
      \<and> li_origin st' = put_prop i file (ls_origin ls)" by (auto simp: same_bundle_def)
  then have "\<exists>ls'. load_policy (parser_of cedar sj) file n source ls = Inr ls'
      \<and> li_bundle st' = ls_staticPolicies ls' \<and> li_origin st' = ls_origin ls'"
    by (rule load_policy_takes [OF j, where P = "\<lambda>a b. li_bundle st' = b \<and> li_origin st' = a", THEN iffD2])
  with assms(3) show ?thesis by (auto simp: same_bundle_def)
qed

lemma policy_loaded:
  assumes "same_bundle ls st" "load_policy (parser_of cedar sj) file n source ls = Inr ls'"
  shows "\<exists>st'. lint_policy cedar file n source st = Inr st' \<and> same_bundle ls' st'"
proof -
  obtain json where j: "cl_policyToJson cedar source = Inr json"
    using assms(2) by (auto simp: load_policy_def result_iffs)
  from load_policy_takes [OF j, of sj _ n ls "\<lambda>a b. a = ls_origin ls' \<and> b = ls_staticPolicies ls'"] assms(2)
  obtain i where "takes json file (ls_origin ls) i" "put_prop i file (ls_origin ls) = ls_origin ls'"
    "js_assign i source (ls_staticPolicies ls) = ls_staticPolicies ls'" by blast
  with assms(1) policy_clean [OF j, of _ n st "\<lambda>a b. a = ls_origin ls' \<and> b = ls_staticPolicies ls'"]
  show ?thesis by (auto simp: same_bundle_def)
qed

section \<open>The contract of a check and a load\<close>

text \<open>
  What a check of the linter and the step of the loader it stands for promise each other: a check takes no
  problem back; one that adds none has loaded what the loader loads, of something the linter allows; and
  what the loader loads passes the check, if the linter allows it. Loops over such steps promise the same.
\<close>

locale agreeing_steps =
  fixes check :: "'a \<Rightarrow> lint_state \<Rightarrow> exn + lint_state"
    and load :: "'a \<Rightarrow> load_state \<Rightarrow> exn + load_state"
    and allowed :: "'a \<Rightarrow> bool"
  assumes keeps: "check x st = Inr st' \<Longrightarrow> clean st' \<Longrightarrow> clean st"
    and accepted: "same_bundle ls st \<Longrightarrow> check x st = Inr st' \<Longrightarrow> clean st' \<Longrightarrow>
      allowed x \<and> (\<exists>ls'. load x ls = Inr ls' \<and> same_bundle ls' st')"
    and loaded: "same_bundle ls st \<Longrightarrow> load x ls = Inr ls' \<Longrightarrow> allowed x \<Longrightarrow>
      \<exists>st'. check x st = Inr st' \<and> same_bundle ls' st'"
begin

lemma all_keep: "lint_each check xs st = Inr st' \<Longrightarrow> clean st' \<Longrightarrow> clean st"
  by (induction xs arbitrary: st) (auto simp: bind_r_Inr_iff dest: keeps)

lemma all_accepted:
  "same_bundle ls st \<Longrightarrow> lint_each check xs st = Inr st' \<Longrightarrow> clean st' \<Longrightarrow>
     list_all allowed xs \<and> (\<exists>ls'. lint_each load xs ls = Inr ls' \<and> same_bundle ls' st')"
proof (induction xs arbitrary: ls st)
  case (Cons x xs)
  then obtain s1 where s1: "check x st = Inr s1" "lint_each check xs s1 = Inr st'"
    by (auto simp: bind_r_Inr_iff)
  with Cons.prems obtain l1 where "load x ls = Inr l1" "same_bundle l1 s1" "allowed x"
    by (meson all_keep accepted)
  with Cons.IH [OF _ s1(2)] Cons.prems(3) show ?case by auto
qed auto

lemma all_loaded:
  "same_bundle ls st \<Longrightarrow> lint_each load xs ls = Inr ls' \<Longrightarrow> list_all allowed xs \<Longrightarrow>
     \<exists>st'. lint_each check xs st = Inr st' \<and> same_bundle ls' st'"
proof (induction xs arbitrary: ls st)
  case (Cons x xs)
  then obtain l1 where l1: "load x ls = Inr l1" "lint_each load xs l1 = Inr ls'"
    by (auto simp: bind_r_Inr_iff)
  with loaded [OF Cons.prems(1) l1(1)] Cons.prems(3) obtain s1
    where "check x st = Inr s1" "same_bundle l1 s1" by auto
  with Cons.IH [OF _ l1(2)] Cons.prems(3) show ?case by auto
qed auto

end

text \<open>The four loops of the source are such loops: over the numbered policies of a file, and over the files.\<close>

lemma loops_each:
  "lint_policies cedar file n ps = lint_each (\<lambda>(n, p). lint_policy cedar file n p) (enumerate n ps)"
  "load_policies parser file n ps = lint_each (\<lambda>(n, p). load_policy parser file n p) (enumerate n ps)"
  "lint_files cedar read fs = lint_each (lint_file cedar read) fs"
  "load_files parser read fs = lint_each (load_file parser read) fs"
proof -
  have "lint_policies cedar file n ps st = lint_each (\<lambda>(n, p). lint_policy cedar file n p) (enumerate n ps) st" for st
    by (induction ps arbitrary: n st) (auto intro!: bind_r_cong)
  moreover have "load_policies parser file n ps st = lint_each (\<lambda>(n, p). load_policy parser file n p) (enumerate n ps) st" for st
    by (induction ps arbitrary: n st) (auto intro!: bind_r_cong)
  moreover have "lint_files cedar read fs st = lint_each (lint_file cedar read) fs st" for st
    by (induction fs arbitrary: st) (auto intro!: bind_r_cong)
  moreover have "load_files parser read fs st = lint_each (load_file parser read) fs st" for st
    by (induction fs arbitrary: st) (auto intro!: bind_r_cong)
  ultimately show
    "lint_policies cedar file n ps = lint_each (\<lambda>(n, p). lint_policy cedar file n p) (enumerate n ps)"
    "load_policies parser file n ps = lint_each (\<lambda>(n, p). load_policy parser file n p) (enumerate n ps)"
    "lint_files cedar read fs = lint_each (lint_file cedar read) fs"
    "load_files parser read fs = lint_each (load_file parser read) fs"
    by blast+
qed

interpretation one_policy: agreeing_steps "\<lambda>(n, p). lint_policy cedar f n p"
    "\<lambda>(n, p). load_policy (parser_of cedar sj) f n p" "\<lambda>_. True" for cedar f sj
  by unfold_locales (auto split: prod.splits intro: policy_keeps policy_accepted policy_loaded)

definition without_templates :: "cedar_linter \<Rightarrow> (jstring \<Rightarrow> exn + jstring) \<Rightarrow> jstring \<Rightarrow> bool" where
  "without_templates cedar read file = (case read file of
      Inl _ \<Rightarrow> True
    | Inr text \<Rightarrow> (case cl_policySetTextToParts cedar text of Inl _ \<Rightarrow> True | Inr (ps, templates) \<Rightarrow> templates = 0))"

lemma file_keeps: "lint_file cedar read f st = Inr st' \<Longrightarrow> clean st' \<Longrightarrow> clean st"
  by (auto simp: lint_file_def result_iffs loops_each dest!: one_policy.all_keep fail_with_not_clean
      split: prod.splits if_splits)

lemma file_accepted:
  assumes "same_bundle ls st" "lint_file cedar read f st = Inr st'" "clean st'"
  shows "without_templates cedar read f
    \<and> (\<exists>ls'. load_file (parser_of cedar sj) read f ls = Inr ls' \<and> same_bundle ls' st')"
proof -
  obtain body ps k where r: "read f = Inr body" "cl_policySetTextToParts cedar body = Inr (ps, k)"
    using assms(2,3) by (cases "read f"; cases "cl_policySetTextToParts cedar (projr (read f))")
      (auto simp: lint_file_def dest: fail_with_not_clean)
  have l: "lint_each (\<lambda>(n, p). lint_policy cedar f n p) (enumerate 0 ps) (if k > 0 then fail_at f (js ''contains ''
      @ dec k @ js '' policy template(s); templates are not supported'') None st else st) = Inr st'"
    using assms(2) by (simp add: lint_file_def r loops_each)
  from one_policy.all_keep [OF l assms(3)] have "k = 0" by (auto split: if_splits)
  with l one_policy.all_accepted [OF assms(1) _ assms(3)] show ?thesis
    by (auto simp: load_file_def without_templates_def r loops_each)
qed

lemma file_loaded:
  assumes "same_bundle ls st" "load_file (parser_of cedar sj) read f ls = Inr ls'" "without_templates cedar read f"
  shows "\<exists>st'. lint_file cedar read f st = Inr st' \<and> same_bundle ls' st'"
proof -
  obtain body ps k where r: "read f = Inr body" "cl_policySetTextToParts cedar body = Inr (ps, k)"
    using assms(2) by (cases "read f"; cases "cl_policySetTextToParts cedar (projr (read f))")
      (auto simp: load_file_def load_error_def bind_r_Inr_iff)
  with assms one_policy.all_loaded [OF assms(1)] show ?thesis
    by (simp add: lint_file_def load_file_def without_templates_def loops_each list_all_iff)
qed

interpretation one_file: agreeing_steps "lint_file cedar read" "load_file (parser_of cedar sj) read"
    "without_templates cedar read" for cedar read sj
  by unfold_locales (blast dest: file_keeps file_accepted file_loaded)+

section \<open>Validation\<close>

text \<open>There is nothing to validate, or strict validation answers with three empty lists.\<close>

definition validates :: "cedar_linter \<Rightarrow> jstring \<Rightarrow> jstring props \<Rightarrow> bool" where
  "validates cedar schemaText policies = (policies = [] \<or> (case cl_validate cedar schemaText policies of
      Inl _ \<Rightarrow> False
    | Inr v \<Rightarrow> va_validationErrors v = [] \<and> va_validationWarnings v = [] \<and> va_otherWarnings v = []))"

text \<open>Validation adds no problem exactly when there is nothing to validate or the answer is empty.\<close>

lemma each_not_clean:
  "(\<And>x s s'. f x s = Inr s' \<Longrightarrow> \<not> clean s') \<Longrightarrow> lint_each f xs st = Inr st' \<Longrightarrow> clean st' \<Longrightarrow>
     xs = [] \<and> st' = st"
  by (induction xs arbitrary: st) (force simp: bind_r_Inr_iff)+

lemma combined_clean:
  "lint_combined cedar t st = Inr st' \<and> clean st' \<longleftrightarrow> clean st \<and> st' = st
     \<and> validates cedar t (li_bundle st)"
  (is "?l \<longleftrightarrow> ?r")
proof
  assume ?l
  have e: "xs = [] \<and> s' = s" if "lint_each (lint_validation_entry w k) xs s = Inr s'" "clean s'" for w k xs s s'
    using each_not_clean [OF _ that] by (auto simp: lint_validation_entry_def bind_r_Inr_iff dest: fail_with_not_clean)
  have o: "xs = [] \<and> s' = s" if "lint_each (\<lambda>w. fail_with p m (JArray [w])) xs s = Inr s'" "clean s'" for p m xs s s'
    using each_not_clean [OF _ that] by (auto dest: fail_with_not_clean)
  show ?r
  proof (cases "li_bundle st = []")
    case False
    with \<open>?l\<close> obtain v s1 s2 where v: "cl_validate cedar t (li_bundle st) = Inr v"
        "lint_each (lint_validation_entry (js ''error'') (js ''error'')) (va_validationErrors v) st = Inr s1"
        "lint_each (lint_validation_entry (js ''warning'') (js ''warning'')) (va_validationWarnings v) s1 = Inr s2"
        "lint_each (\<lambda>w. fail_with (js ''bundle'') (js ''validation warning'') (JArray [w])) (va_otherWarnings v) s2 = Inr st'"
      by (auto simp: lint_combined_def bind_r_Inr_iff dest: fail_with_not_clean split: sum.splits)
    from o [OF v(4)] \<open>?l\<close> have 3: "va_otherWarnings v = []" "s2 = st'" by auto
    from e [OF v(3)] 3 \<open>?l\<close> have 2: "va_validationWarnings v = []" "s1 = st'" by auto
    from e [OF v(2)] 2 \<open>?l\<close> have 1: "va_validationErrors v = []" "st = st'" by auto
    show ?thesis using 1 2 3 v(1) \<open>?l\<close> by (simp add: validates_def)
  qed (use \<open>?l\<close> in \<open>auto simp: lint_combined_def validates_def\<close>)
qed (auto simp: lint_combined_def validates_def split: sum.splits)

section \<open>Properties\<close>

text \<open>
  A schema that does not parse is never reported: the script dies before it has printed a problem.
\<close>

lemma bad_schema_crashes:
  assumes "cl_checkParseSchema cedar t = Some errors"
  shows "\<exists>out. policy_lint cedar (Inr t) dir read = Crashes out"
  using assms by (simp add: policy_lint_def split: sum.splits)

text \<open>What a run without problems went through.\<close>

lemma lint_bundle_clean:
  "lint_bundle cedar t read fs = Inr st' \<and> clean st' \<longleftrightarrow> fs \<noteq> []
     \<and> lint_files cedar read fs \<lparr>li_problems = [], li_bundle = [], li_origin = [], li_rows = []\<rparr> = Inr st'
     \<and> clean st' \<and> validates cedar t (li_bundle st')"
proof -
  have "lint_files cedar read fs (fail_at w m d st) = Inr s \<Longrightarrow> \<not> clean s" for w m d st s
    using one_file.all_keep fail_at_facts(1) unfolding loops_each by blast
  moreover have "(\<exists>s. A s \<and> lint_combined cedar t s = Inr st') \<and> clean st' \<longleftrightarrow> A st' \<and> clean st'
      \<and> validates cedar t (li_bundle st')" for A
    using combined_clean [of cedar t _ st'] by metis
  ultimately show ?thesis
    by (auto simp: lint_bundle_def Let_def bind_r_Inr_iff)
qed

lemma exits_0_iff:
  "(\<exists>out err. policy_lint cedar schema dir read = Exits 0 out err) \<longleftrightarrow>
    (\<exists>t names st. schema = Inr t \<and> cl_checkParseSchema cedar t = None \<and> dir = Inr names
       \<and> lint_bundle cedar t read (sort (filter (\<lambda>n. ends_with n (js ''.cedar'')) names)) = Inr st \<and> clean st)"
  by (auto simp: policy_lint_def lint_report_def clean_def Let_def split: sum.splits option.splits)

text \<open>
  C19: The linter and the loader agree. The linter exits with code 0, on a schema that \<open>schemaToJson\<close> converts
  as well, exactly when \<open>checkParseSchema\<close> accepts the schema, the loader loads the bundle of the same
  directory, no file has templates and the policies the loader took, if any, validate in strict mode without
  an error or a warning. Nothing is assumed of Cedar: the schema is the one thing that each of the two asks a
  different function about.
\<close>

theorem lint_passes_iff_bundle_loads:
  shows "(\<exists>out err. policy_lint cedar schema dir read = Exits 0 out err)
      \<and> (\<exists>t v. schema = Inr t \<and> schemaToJson t = Inr v) \<longleftrightarrow>
    (\<exists>b t names. schema = Inr t \<and> dir = Inr names \<and> cl_checkParseSchema cedar t = None
       \<and> load_bundle (parser_of cedar schemaToJson) policyDir schema dir read = Inr b
       \<and> list_all (without_templates cedar read) (filter (\<lambda>n. ends_with n (js ''.cedar'')) names)
       \<and> validates cedar t (pb_staticPolicies b))"
  (is "?lints \<longleftrightarrow> ?loads")
proof -
  let ?ls = "\<lparr>ls_staticPolicies = [], ls_annotations = [], ls_origin = []\<rparr>"
  let ?st = "\<lparr>li_problems = [], li_bundle = [], li_origin = [], li_rows = []\<rparr>"
  have start: "same_bundle ?ls ?st" by (simp add: same_bundle_def clean_def)
  have "(\<exists>st. lint_files cedar read fs ?st = Inr st \<and> clean st \<and> P (li_bundle st)) \<longleftrightarrow>
      (\<exists>ls. load_files (parser_of cedar schemaToJson) read fs ?ls = Inr ls
         \<and> list_all (without_templates cedar read) fs \<and> P (ls_staticPolicies ls))" for fs P
    using one_file.all_accepted [OF start] one_file.all_loaded [OF start] unfolding same_bundle_def loops_each
    by (metis (no_types))
  note files = this
  have sorted: "list_all P (sort ns) = list_all P ns" "sort ns = [] \<longleftrightarrow> ns = []" for P and ns :: "jstring list"
    by (simp add: list_all_iff) (metis set_empty set_sort)
  then have "(\<exists>st. lint_bundle cedar t read (sort ns) = Inr st \<and> clean st) \<longleftrightarrow>
      ns \<noteq> [] \<and> (\<exists>ls. load_files (parser_of cedar schemaToJson) read (sort ns) ?ls = Inr ls
         \<and> list_all (without_templates cedar read) ns \<and> validates cedar t (ls_staticPolicies ls))" for t ns
    unfolding lint_bundle_clean using files [of "sort ns" "validates cedar t"] by simp
  then show ?thesis
    unfolding exits_0_iff
    by (cases schema; cases dir) (auto simp: load_bundle_def sorted(2) bind_r_Inr_iff Let_def split: sum.splits)
qed

definition sample_linter :: cedar_linter where
  "sample_linter = \<lparr>cl_version = js ''4'', cl_checkParseSchema = (\<lambda>_. None),
     cl_policySetTextToParts = (\<lambda>t. Inr ([t], 0)), cl_policyToJson = cp_policyToJson sample_parser,
     cl_validate = (\<lambda>_ _. Inr \<lparr>va_validationErrors = [], va_validationWarnings = [], va_otherWarnings = []\<rparr>)\<rparr>"

text \<open>The two sides are not both empty: a directory with one policy, which the linter passes.\<close>

theorem lint_passes_iff_bundle_loads_witness:
  "\<exists>out err. policy_lint sample_linter (Inr []) (Inr [js ''a.cedar'']) Inr = Exits 0 out err"
proof -
  have "parser_of sample_linter (\<lambda>t. Inr (JString t)) = sample_parser"
    by (simp add: parser_of_def sample_linter_def sample_parser_def)
  then obtain b where b: "load_bundle (parser_of sample_linter (\<lambda>t. Inr (JString t))) [] (Inr [])
      (Inr [js ''a.cedar'']) Inr = Inr b"
    by (simp add: sample_load_defs js_def)
  have "cl_checkParseSchema sample_linter [] = None" "list_all (without_templates sample_linter Inr) [js ''a.cedar'']"
    "ends_with (js ''a.cedar'') (js ''.cedar'')" "validates sample_linter [] (pb_staticPolicies b)"
    by (simp_all add: sample_linter_def without_templates_def validates_def ends_with_def js_def)
  with b lint_passes_iff_bundle_loads [of sample_linter "Inr []" "Inr [js ''a.cedar'']" Inr "\<lambda>t. Inr (JString t)" "[]"]
  show ?thesis by auto
qed

end
