(* ===== verification/Spec2Isabelle.thy ===== *)
theory Spec2Isabelle
  imports WarmUp PolicyLint Backoff
begin

text \<open>
  A verification library of MCP Sentinel, a security gateway between an AI agent and the MCP servers it
  talks to. The agent's request enters through an HTTP gate; a router resolves its namespaced target; the
  policy engine (Cedar) and the risk engine decide; the decision is appended to a hash-chained audit log;
  then the call is forwarded, suspended for a human, or refused. All of this is modelled as HOL functions
  over explicit state, in the order of the code.

  \<^bold>\<open>Values and text.\<close> \<open>Prelude\<close>: errors as sums (\<open>bind_r\<close>, \<open>map_r\<close>), property lists, digits. \<open>Encoding\<close>: JavaScript
  strings as lists of UTF-16 code units, UTF-8, base64, hexadecimal and percent encoding. \<open>Json\<close>: JavaScript
  values, the exceptions of the program (type \<open>exn\<close>) and \<open>mcp-core/canonical.ts\<close> (the RFC 8785 writer, also
  over objects that share or form cycles; digests). \<open>Values\<close>: the coercions of JavaScript the source uses.
  \<open>Regex\<close>: regular expressions with JavaScript's backtracking order, for the patterns of the source.
  \<open>Paths\<close>: \<open>path.isAbsolute\<close> and \<open>path.resolve\<close> (POSIX).

  \<^bold>\<open>mcp-core.\<close> \<open>CoreTypes\<close> (\<open>types.ts\<close>, \<open>errors.ts\<close>), \<open>Naming\<close>, \<open>Headers\<close>, \<open>Ids\<close>, \<open>Meta\<close>, \<open>Redact\<close>, each the file
  of its name: codecs and their round trips, the header check as agreement, ids that sort in the order of
  minting, redaction that hides what is under a sensitive key. \<open>Doubles\<close>: rounding and \<open>toFixed\<close>.

  \<^bold>\<open>Stores.\<close> \<open>Approvals\<close> (\<open>signer.ts\<close>, \<open>store.ts\<close>): tokens and the table of requests; a decision is taken at most
  once. \<open>AuditLog\<close> (\<open>store.ts\<close>, \<open>verifier.ts\<close>, \<open>query.ts\<close>): reachable logs verify, a checkpoint authenticates a
  log up to an exhibited collision, what the verifier does and does not see, pagination.

  \<^bold>\<open>Deciding.\<close> \<open>Extract\<close> (\<open>extract.ts\<close>): the policy context of a call. \<open>PolicyLoader\<close>, \<open>Policy\<close> (\<open>loader.ts\<close>,
  \<open>entities.ts\<close>, \<open>engine.ts\<close>): bundles, entities, decisions that fail closed. \<open>PolicyLint\<close>
  (\<open>scripts/policy-lint.mjs\<close>): the linter accepts what the loader loads, up to templates and validation;
  the locale \<open>agreeing_steps\<close> is the contract of their steps. \<open>Risk\<close>
  (\<open>heuristic.ts\<close>, \<open>engine.ts\<close>, \<open>provider.ts\<close>): scores and escalation. \<open>Provider\<close> (\<open>provider.ts\<close>): the prompt, the
  requests to the models and the settling of their promises; the arguments of a call add no line to the prompt.

  \<^bold>\<open>Scanning.\<close> \<open>Detectors\<close> (\<open>detectors/unicode.ts\<close>, \<open>detectors/poisoning.ts\<close>): hidden characters, the rules for
  instructions, encoded instructions. \<open>Scanner\<close> (\<open>detectors/shadowing.ts\<close>, \<open>classifier/prompt-guard.ts\<close>,
  \<open>scanner.ts\<close>, \<open>result-scanner.ts\<close>): what a tool or a result is found to be, exactly, and what a classifier
  adds. \<open>Screening\<close>: the contract between the gateway and a result scanner as a locale, and what it gives.

  \<^bold>\<open>Upstreams.\<close> \<open>Config\<close> (\<open>schema.ts\<close>, \<open>load.ts\<close>), \<open>Backoff\<close>, \<open>Upstream\<close> (\<open>client.ts\<close>, \<open>registry.ts\<close>, \<open>transport.ts\<close>): one
  connection as a step function over the events of its asynchronous life (\<open>upstream_step\<close>). \<open>WarmUp\<close>: the first
  dial of every server as a run of that function, and what it reports. \<open>Catalog\<close> (\<open>catalog.ts\<close>): refreshes and
  the pinning of definitions. \<open>Forward\<close> (\<open>route.ts\<close>, \<open>forwarder.ts\<close>, \<open>discover.ts\<close>).

  \<^bold>\<open>The gateway.\<close> \<open>OwnTools\<close> (\<open>sentinel-tools.ts\<close>), \<open>Server\<close> (\<open>handlers.ts\<close>): one function per request handler, in
  a state monad whose state holds the registry, catalog, audit log, approvals table, id factory and a trace
  of effects; a handler is cut where it awaits the risk engine, since other requests run there. \<open>Http\<close>
  (\<open>http.ts\<close>). \<open>Gateway\<close>: the interleavings of all requests as the relation \<open>live_step\<close>, with the invariants
  of its reachable states and what they say of every run. \<open>Lifecycle\<close>: the abstract life of a suspended
  request, which every step of the gateway refines; who can approve, and that a notified link does.
  \<open>Notifier\<close> (\<open>notifier.ts\<close>): the messages with the links. \<open>Logger\<close> (\<open>logger.ts\<close>): levels, redacted records,
  lines, and what text of a server can change of them.

  \<^bold>\<open>The process.\<close> \<open>Startup\<close> (\<open>main.ts\<close>, \<open>startHttpServer\<close>): \<open>start_gateway\<close> reads the configuration and builds every
  component as \<open>main\<close> does, so the invariants of \<open>Gateway\<close> are shown of the state the process starts in;
  \<open>shutdown_on\<close> is the signal handler as a step function over the events of its asynchronous life.

  \<^bold>\<open>Parameters.\<close> SHA-256 (\<open>hash_fun\<close>), HMAC (\<open>hmac_fun\<close>), Cedar, Zod, the SDK and its transports, the models
  behind the risk provider and the classifier, the URL parser, SQLite's faults, clocks and random bytes are arguments of the
  definitions that use them. Theorems about hashes exhibit a collision instead of excluding one.

  \<^bold>\<open>Termination and bounds.\<close> Every definition is total; no fuel is used: the matcher of \<open>Regex\<close> has a
  star that consumes at least one unit per round. The depth bounds (12) of \<open>extract.ts\<close> and \<open>redact.ts\<close> are the
  code's. Integers of JavaScript that stay below \<open>2^53\<close> by the schema's bounds are \<open>int\<close> or \<open>nat\<close>.

  \<^bold>\<open>Not modelled.\<close> The primitives of the operating system (files, sockets, signals: their results are parameters);
  the log calls inside the modelled functions; the package index files (re-exports) and the test harnesses.
\<close>

end
